(* ===== verification/Auth_Prelude.thy ===== *)
theory Auth_Prelude
  imports Main "HOL-Library.Word"
begin

text \<open>
  Shared vocabulary of the development: the machine types of the RV64 target (little
  endian, 8 bit bytes, 64 bit \<open>size_t\<close>), the outcome type of a C function, bounds-checked
  access to C buffers, and the byte view of machine words.

  A C function that returns an \<open>int\<close> status and writes its results through pointers is
  modelled as a value of \<open>'a run\<close>: \<open>Ret x\<close> is the status 0 with the results \<open>x\<close>,
  \<open>Err e\<close> a return with the non-zero status \<open>e\<close>, \<open>Exit e\<close> a call of \<open>ckb_exit\<close> that
  ends the whole program, \<open>Fault\<close> an access outside of an object (undefined behaviour of
  C), and \<open>NoFuel\<close> a loop that has not finished within the given number of iterations.
\<close>

unbundle bit_operations_syntax

section \<open>Machine types\<close>

type_synonym byte = "8 word"
type_synonym u16 = "16 word"
type_synonym u32 = "32 word"
type_synonym u64 = "64 word"
type_synonym bytes = "byte list"

named_theorems run_simps "rewriting of outcomes"
named_theorems buf_simps "rewriting of buffer accesses"

section \<open>Outcomes of C functions\<close>

datatype 'a run = Ret 'a | Err int | Exit int | Fault | NoFuel

fun run_bind :: "'a run \<Rightarrow> ('a \<Rightarrow> 'b run) \<Rightarrow> 'b run" where
  "run_bind (Ret x) f = f x"
| "run_bind (Err e) f = Err e"
| "run_bind (Exit e) f = Exit e"
| "run_bind Fault f = Fault"
| "run_bind NoFuel f = NoFuel"

text \<open>The caller inspects the status itself: every non-zero status goes to \<open>h\<close>.\<close>

fun run_catch :: "'a run \<Rightarrow> (int \<Rightarrow> 'a run) \<Rightarrow> 'a run" where
  "run_catch (Ret x) h = Ret x"
| "run_catch (Err e) h = h e"
| "run_catch (Exit e) h = Exit e"
| "run_catch Fault h = Fault"
| "run_catch NoFuel h = NoFuel"

text \<open>The \<open>CHECK2\<close> macro of auth.c and cardano_lock_inc.h.\<close>

definition CHECK2 :: "bool \<Rightarrow> int \<Rightarrow> unit run" where
  "CHECK2 cond code = (if cond then Ret () else Err code)"

definition is_ret :: "'a run \<Rightarrow> bool" where
  "is_ret r = (case r of Ret _ \<Rightarrow> True | _ \<Rightarrow> False)"

text \<open>An outcome is defined if the C standard gives it a meaning and it was reached.\<close>

definition well_defined :: "'a run \<Rightarrow> bool" where
  "well_defined r \<longleftrightarrow> r \<noteq> Fault \<and> r \<noteq> NoFuel"

lemma run_bind_Ret_iff [simp]:
  "run_bind m f = Ret y \<longleftrightarrow> (\<exists>x. m = Ret x \<and> f x = Ret y)"
  by (cases m) auto

lemma run_bind_assoc [run_simps]:
  "run_bind (run_bind m f) g = run_bind m (\<lambda>x. run_bind (f x) g)"
  by (cases m) auto

lemma run_bind_Ret_right [simp]: "run_bind m Ret = m"
  by (cases m) auto

lemma run_bind_Err_iff:
  "run_bind m f = Err e \<longleftrightarrow> m = Err e \<or> (\<exists>x. m = Ret x \<and> f x = Err e)"
  by (cases m) auto

lemma run_bind_Fault_iff:
  "run_bind m f = Fault \<longleftrightarrow> m = Fault \<or> (\<exists>x. m = Ret x \<and> f x = Fault)"
  by (cases m) auto

lemma run_bind_NoFuel_iff:
  "run_bind m f = NoFuel \<longleftrightarrow> m = NoFuel \<or> (\<exists>x. m = Ret x \<and> f x = NoFuel)"
  by (cases m) auto

lemma run_bind_Exit_iff:
  "run_bind m f = Exit e \<longleftrightarrow> m = Exit e \<or> (\<exists>x. m = Ret x \<and> f x = Exit e)"
  by (cases m) auto

lemma run_bind_cong [fundef_cong]:
  "m = m' \<Longrightarrow> (\<And>x. m' = Ret x \<Longrightarrow> f x = g x) \<Longrightarrow> run_bind m f = run_bind m' g"
  by (cases m') auto

lemma CHECK2_True [simp]: "cond \<Longrightarrow> CHECK2 cond code = Ret ()"
  by (simp add: CHECK2_def)

lemma CHECK2_False [simp]: "\<not> cond \<Longrightarrow> CHECK2 cond code = Err code"
  by (simp add: CHECK2_def)

lemma CHECK2_Ret_iff [simp]: "CHECK2 cond code = Ret u \<longleftrightarrow> cond"
  by (simp add: CHECK2_def)

lemma CHECK2_Err_iff [simp]: "CHECK2 cond code = Err e \<longleftrightarrow> \<not> cond \<and> e = code"
  by (auto simp: CHECK2_def)

lemma CHECK2_neq [simp]:
  "CHECK2 cond code \<noteq> Fault" "CHECK2 cond code \<noteq> NoFuel" "CHECK2 cond code \<noteq> Exit e"
  by (auto simp: CHECK2_def)

lemma run_catch_Ret_iff [simp]:
  "run_catch m h = Ret y \<longleftrightarrow> m = Ret y \<or> (\<exists>e. m = Err e \<and> h e = Ret y)"
  by (cases m) auto

lemma run_catch_Err_iff:
  "run_catch m h = Err c \<longleftrightarrow> (\<exists>e. m = Err e \<and> h e = Err c)"
  by (cases m) auto

lemma run_catch_Fault_iff:
  "run_catch m h = Fault \<longleftrightarrow> m = Fault \<or> (\<exists>e. m = Err e \<and> h e = Fault)"
  by (cases m) auto

lemma run_catch_NoFuel_iff:
  "run_catch m h = NoFuel \<longleftrightarrow> m = NoFuel \<or> (\<exists>e. m = Err e \<and> h e = NoFuel)"
  by (cases m) auto

lemma run_catch_Exit_iff:
  "run_catch m h = Exit c \<longleftrightarrow> m = Exit c \<or> (\<exists>e. m = Err e \<and> h e = Exit c)"
  by (cases m) auto

lemmas run_iffs = run_bind_Err_iff run_bind_Fault_iff run_bind_NoFuel_iff run_bind_Exit_iff
  run_catch_Err_iff run_catch_Fault_iff run_catch_NoFuel_iff run_catch_Exit_iff

lemma well_defined_simps [simp]:
  "well_defined (Ret x)" "well_defined (Err e)" "well_defined (Exit e)"
  "\<not> well_defined Fault" "\<not> well_defined NoFuel"
  by (auto simp: well_defined_def)

lemma well_defined_bind:
  "well_defined m \<Longrightarrow> (\<And>x. m = Ret x \<Longrightarrow> well_defined (f x)) \<Longrightarrow> well_defined (run_bind m f)"
  by (cases m) auto

lemma well_defined_catch:
  "well_defined m \<Longrightarrow> (\<And>e. m = Err e \<Longrightarrow> well_defined (h e)) \<Longrightarrow> well_defined (run_catch m h)"
  by (cases m) auto

lemma well_defined_CHECK2 [simp]: "well_defined (CHECK2 cond code)"
  by (simp add: CHECK2_def)

section \<open>Access to C buffers\<close>

text \<open>
  An object of \<open>n\<close> bytes is a list of \<open>n\<close> bytes and a pointer into it an offset. Reads and
  writes outside of the object are \<open>Fault\<close>.
\<close>

definition sub_bytes :: "nat \<Rightarrow> nat \<Rightarrow> bytes \<Rightarrow> bytes" where
  "sub_bytes off n buf = take n (drop off buf)"

definition rd :: "nat \<Rightarrow> nat \<Rightarrow> bytes \<Rightarrow> bytes run" where
  "rd off n buf = (if off + n \<le> length buf then Ret (sub_bytes off n buf) else Fault)"

definition rd1 :: "nat \<Rightarrow> bytes \<Rightarrow> byte run" where
  "rd1 off buf = (if off < length buf then Ret (buf ! off) else Fault)"

definition wr :: "nat \<Rightarrow> bytes \<Rightarrow> bytes \<Rightarrow> bytes run" where
  "wr off src buf =
     (if off + length src \<le> length buf
      then Ret (take off buf @ src @ drop (off + length src) buf) else Fault)"

lemma length_sub_bytes [simp]: "off + n \<le> length buf \<Longrightarrow> length (sub_bytes off n buf) = n"
  by (simp add: sub_bytes_def)

lemma sub_bytes_nth: "i < n \<Longrightarrow> off + n \<le> length buf \<Longrightarrow> sub_bytes off n buf ! i = buf ! (off + i)"
  by (simp add: sub_bytes_def)

lemma sub_bytes_0 [simp]: "sub_bytes 0 n buf = take n buf"
  by (simp add: sub_bytes_def)

lemma sub_bytes_len0 [simp]: "sub_bytes off 0 buf = []"
  by (simp add: sub_bytes_def)

lemma sub_bytes_append_mid [simp]:
  "off = length a \<Longrightarrow> n = length b \<Longrightarrow> sub_bytes off n (a @ b @ c) = b"
  by (simp add: sub_bytes_def)

lemma rd_Ret_iff [simp]:
  "rd off n buf = Ret x \<longleftrightarrow> off + n \<le> length buf \<and> x = sub_bytes off n buf"
  by (auto simp: rd_def)

lemma rd1_Ret_iff [simp]: "rd1 off buf = Ret x \<longleftrightarrow> off < length buf \<and> x = buf ! off"
  by (auto simp: rd1_def)

lemma rd_ok [simp, buf_simps]: "off + n \<le> length buf \<Longrightarrow> rd off n buf = Ret (sub_bytes off n buf)"
  by simp

lemma rd1_ok [simp, buf_simps]: "off < length buf \<Longrightarrow> rd1 off buf = Ret (buf ! off)"
  by simp

lemma rd_not_Err [simp]: "rd off n buf \<noteq> Err e" "rd off n buf \<noteq> NoFuel" "rd off n buf \<noteq> Exit e"
  by (auto simp: rd_def)

lemma rd1_not_Err [simp]: "rd1 off buf \<noteq> Err e" "rd1 off buf \<noteq> NoFuel" "rd1 off buf \<noteq> Exit e"
  by (auto simp: rd1_def)

lemma rd_Fault_iff [simp]: "rd off n buf = Fault \<longleftrightarrow> length buf < off + n"
  by (auto simp: rd_def)

lemma rd1_Fault_iff [simp]: "rd1 off buf = Fault \<longleftrightarrow> length buf \<le> off"
  by (auto simp: rd1_def)

lemma well_defined_rd [simp]: "well_defined (rd off n buf) \<longleftrightarrow> off + n \<le> length buf"
  by (auto simp: rd_def)

lemma well_defined_rd1 [simp]: "well_defined (rd1 off buf) \<longleftrightarrow> off < length buf"
  by (auto simp: rd1_def)

lemma wr_ok [simp, buf_simps]:
  "off + length src \<le> length buf \<Longrightarrow>
   wr off src buf = Ret (take off buf @ src @ drop (off + length src) buf)"
  by (simp add: wr_def)

lemma wr_Ret_iff:
  "wr off src buf = Ret x \<longleftrightarrow>
   off + length src \<le> length buf \<and> x = take off buf @ src @ drop (off + length src) buf"
  by (auto simp: wr_def)

lemma wr_length: "wr off src buf = Ret x \<Longrightarrow> length x = length buf"
  by (auto simp: wr_Ret_iff)

text \<open>\<open>strlen\<close>: the number of bytes before the first NUL of the object.\<close>

fun c_strlen :: "bytes \<Rightarrow> nat run" where
  "c_strlen [] = Fault"
| "c_strlen (c # s) = (if c = 0 then Ret 0 else run_bind (c_strlen s) (\<lambda>n. Ret (Suc n)))"

lemma c_strlen_append [simp]: "0 \<notin> set cs \<Longrightarrow> c_strlen (cs @ 0 # rest) = Ret (length cs)"
  by (induction cs) auto

text \<open>Conversion of an unsigned 64 bit value to the 32 bit \<open>int\<close> of the target.\<close>

definition c_int :: "u64 \<Rightarrow> int" where
  "c_int w = sint (ucast w :: u32)"

lemma unat_ucast_mod: "unat (ucast (w :: 'a::len word) :: 'b::len word) = unat w mod 2 ^ LENGTH('b)"
  by (simp only: unsigned_ucast_eq take_bit_eq_mod)

lemma sint_small32: "unat (w :: u32) < 2 ^ 31 \<Longrightarrow> sint w = int (unat w)"
proof -
  assume "unat w < 2 ^ 31"
  then have "int (unat w) < 2 ^ 31" by (simp only: of_nat_less_numeral_power_cancel_iff)
  moreover have "sint w = signed_take_bit (LENGTH(32) - Suc 0) (int (unat w))"
    by (simp only: sint_uint uint_nat)
  moreover have "- (2 ^ 31) \<le> int (unat w)" by (rule order_trans [of _ 0]) simp_all
  ultimately show ?thesis using signed_take_bit_int_eq_self [of 31 "int (unat w)"] by simp
qed

lemma c_int_small: "unat w < 2 ^ 31 \<Longrightarrow> c_int w = int (unat w)"
proof -
  assume w: "unat w < 2 ^ 31"
  then have u: "unat (ucast w :: u32) = unat w" unfolding unat_ucast_mod by simp
  show ?thesis unfolding c_int_def using sint_small32 [of "ucast w"] w by (simp only: u)
qed

section \<open>Words as bytes\<close>

text \<open>Little-endian (the target's memory order) and big-endian (CBOR) views of a word.\<close>

fun le_word :: "bytes \<Rightarrow> 'a::len word" where
  "le_word [] = 0"
| "le_word (b # bs) = ucast b OR push_bit 8 (le_word bs)"

definition le_bytes :: "nat \<Rightarrow> 'a::len word \<Rightarrow> bytes" where
  "le_bytes n w = map (\<lambda>i. ucast (drop_bit (8 * i) w)) [0..<n]"

definition be_word :: "bytes \<Rightarrow> 'a::len word" where
  "be_word bs = le_word (rev bs)"

definition be_bytes :: "nat \<Rightarrow> 'a::len word \<Rightarrow> bytes" where
  "be_bytes n w = rev (le_bytes n w)"

lemma length_le_bytes [simp]: "length (le_bytes n w) = n"
  by (simp add: le_bytes_def)

lemma length_be_bytes [simp]: "length (be_bytes n w) = n"
  by (simp add: be_bytes_def)

lemma le_bytes_0 [simp]: "le_bytes 0 w = []"
  by (simp add: le_bytes_def)

lemma le_bytes_Suc: "le_bytes (Suc n) w = ucast w # le_bytes n (drop_bit 8 w)"
  by (simp add: le_bytes_def upt_conv_Cons map_Suc_upt [symmetric] comp_def
      add.commute del: upt_Suc)

lemma le_word_le_bytes_take: "le_word (le_bytes n (w :: 'a::len word)) = take_bit (8 * n) w"
proof (induction n arbitrary: w)
  case 0
  then show ?case by simp
next
  case (Suc n)
  show ?case
    unfolding le_bytes_Suc le_word.simps Suc.IH
    by (rule bit_word_eqI) (auto simp: bit_simps)
qed

lemma le_word_le_bytes [simp]:
  "LENGTH('a) \<le> 8 * n \<Longrightarrow> le_word (le_bytes n (w :: 'a::len word)) = w"
  by (simp add: le_word_le_bytes_take take_bit_word_eq_self)

lemma bit_le_word:
  "bit (le_word bs :: 'a::len word) i \<longleftrightarrow>
   i < LENGTH('a) \<and> i div 8 < length bs \<and> bit (bs ! (i div 8)) (i mod 8)"
proof (induction bs arbitrary: i)
  case Nil
  then show ?case by simp
next
  case (Cons b bs)
  show ?case
  proof (cases "i < 8")
    case True
    then show ?thesis by (auto simp: bit_simps)
  next
    case False
    then have "i div 8 = Suc ((i - 8) div 8)" and "i mod 8 = (i - 8) mod 8"
      by (auto simp: le_div_geq le_mod_geq)
    with False show ?thesis
      using Cons.IH [of "i - 8"] by (auto simp: bit_simps dest: bit_imp_le_length)
  qed
qed

lemma le_bytes_le_word:
  "8 * length bs \<le> LENGTH('a) \<Longrightarrow> le_bytes (length bs) (le_word bs :: 'a::len word) = bs"
proof (rule nth_equalityI)
  fix i assume len: "8 * length bs \<le> LENGTH('a)"
    and "i < length (le_bytes (length bs) (le_word bs :: 'a word))"
  then have i: "i < length bs" by simp
  show "le_bytes (length bs) (le_word bs :: 'a word) ! i = bs ! i"
  proof (rule bit_word_eqI)
    fix k :: nat assume "k < LENGTH(8)"
    then have k: "k < 8" by simp
    have "(8 * i + k) div 8 = i" and "(8 * i + k) mod 8 = k"
      using k by auto
    moreover have "8 * i + k < LENGTH('a)"
      using i k len by linarith
    ultimately show "bit (le_bytes (length bs) (le_word bs :: 'a word) ! i) k = bit (bs ! i) k"
      using i k by (simp add: le_bytes_def bit_simps bit_le_word)
  qed
qed simp

lemma be_word_be_bytes [simp]:
  "LENGTH('a) \<le> 8 * n \<Longrightarrow> be_word (be_bytes n (w :: 'a::len word)) = w"
  by (simp add: be_word_def be_bytes_def)

lemma be_word_be_bytes_take: "be_word (be_bytes n (w :: 'a::len word)) = take_bit (8 * n) w"
  by (simp add: be_word_def be_bytes_def le_word_le_bytes_take)

section \<open>Splitting words into bit fields\<close>

lemma unat_byte_less [simp]: "unat (x :: byte) < 256"
  using unsigned_less [of x] by simp

lemma unat_u16_less [simp]: "unat (x :: u16) < 65536"
  using unsigned_less [of x] by simp

lemma unat_u32_less [simp]: "unat (x :: u32) < 4294967296"
  using unsigned_less [of x] by simp

lemma unat_u64_less [simp]: "unat (x :: u64) < 18446744073709551616"
  using unsigned_less [of x] by simp

lemma unat_word_of_nat: "n < 2 ^ LENGTH('a) \<Longrightarrow> unat (word_of_nat n :: 'a::len word) = n"
  by (simp add: unsigned_of_nat take_bit_nat_eq_self)

lemma word_of_nat_eqI: "unat w = n \<Longrightarrow> word_of_nat n = w"
  by auto

lemma unat_take_bit: "unat (take_bit n w) = unat w mod 2 ^ n"
  by (simp add: unsigned_take_bit_eq flip: take_bit_eq_mod)

lemma unat_drop_bit: "unat (drop_bit n w) = unat w div 2 ^ n"
  by (simp add: unat_drop_bit_eq flip: drop_bit_eq_div)

lemma take_bit_small: "unat w < 2 ^ n \<Longrightarrow> take_bit n w = w"
  by (simp add: unat_take_bit word_unat_eq_iff)

lemma and_mask_take_bit: "m = mask n \<Longrightarrow> w AND m = take_bit n (w :: 'a::len word)"
  by (simp add: take_bit_eq_mask)

lemma push_bit_or_add: "unat l < 2 ^ k \<Longrightarrow> push_bit k h OR l = push_bit k h + (l :: 'a::len word)"
proof -
  assume "unat l < 2 ^ k"
  then have "push_bit k h AND l = push_bit k h AND take_bit k l"
    by (simp add: take_bit_small)
  also have "\<dots> = 0"
    by (rule bit_word_eqI) (auto simp: bit_simps)
  finally show ?thesis by (simp add: disjunctive_add_eq_or)
qed

lemma push_drop_or_take: "push_bit k (drop_bit k x) OR take_bit k x = (x :: 'a::len word)"
  by (rule bit_word_eqI) (auto simp: bit_simps)

section \<open>Comparison of bytes\<close>

text \<open>\<open>memcmp\<close> over \<open>n\<close> bytes of two objects, as the test \<open>== 0\<close> that the code makes.\<close>

definition memcmp_eq :: "nat \<Rightarrow> bytes \<Rightarrow> nat \<Rightarrow> bytes \<Rightarrow> nat \<Rightarrow> bool run" where
  "memcmp_eq o1 b1 o2 b2 n = run_bind (rd o1 n b1) (\<lambda>x. run_bind (rd o2 n b2) (\<lambda>y. Ret (x = y)))"

lemma memcmp_eq_ok [simp, buf_simps]:
  "o1 + n \<le> length b1 \<Longrightarrow> o2 + n \<le> length b2 \<Longrightarrow>
   memcmp_eq o1 b1 o2 b2 n = Ret (sub_bytes o1 n b1 = sub_bytes o2 n b2)"
  by (simp add: memcmp_eq_def buf_simps)

lemma memcmp_eq_Ret_iff:
  "memcmp_eq o1 b1 o2 b2 n = Ret r \<longleftrightarrow>
   o1 + n \<le> length b1 \<and> o2 + n \<le> length b2 \<and> r = (sub_bytes o1 n b1 = sub_bytes o2 n b2)"
  by (auto simp: memcmp_eq_def)

lemma memcmp_eq_not [simp]:
  "memcmp_eq o1 b1 o2 b2 n \<noteq> Err e" "memcmp_eq o1 b1 o2 b2 n \<noteq> NoFuel"
  "memcmp_eq o1 b1 o2 b2 n \<noteq> Exit e"
  by (auto simp: memcmp_eq_def run_iffs)

end
