(* ===== verification/Keccak.thy ===== *)
theory Keccak
  imports Auth_Prelude
begin

text \<open>
  The Keccak-256 implementation of c/ckb_keccak256.h: the permutation on 25 lanes, the
  streaming context and its three operations. The context's \<open>message\<close> array of 24 qwords is
  kept as its 192 bytes, since the code fills it bytewise; a block handed to the
  permutation is read as 17 little-endian qwords, either out of that array or, when the
  caller's pointer is 8-byte aligned, straight out of the caller's buffer. The address of
  the caller's buffer is therefore an argument of \<open>keccak_update\<close>.
\<close>

section \<open>Constants\<close>

definition constants :: bytes where
  "constants =
    [1, 26, 94, 112, 31, 33, 121, 85, 14, 12, 53, 38,
     63, 79, 93, 83, 82, 72, 22, 102, 121, 88, 33, 116,
     1, 6, 9, 22, 14, 20, 2, 12, 13, 19, 23, 15,
     4, 24, 21, 8, 16, 5, 3, 18, 17, 11, 7, 10,
     1, 62, 28, 27, 36, 44, 6, 55, 20, 3, 10, 43,
     25, 39, 41, 45, 15, 21, 8, 18, 2, 61, 56, 14]"

abbreviation (input) TYPE_ROUND_INFO :: nat where "TYPE_ROUND_INFO \<equiv> 0"
abbreviation (input) TYPE_PI_TRANSFORM :: nat where "TYPE_PI_TRANSFORM \<equiv> 24"
abbreviation (input) TYPE_RHO_TRANSFORM :: nat where "TYPE_RHO_TRANSFORM \<equiv> 48"
abbreviation (input) BLOCK_SIZE :: nat where "BLOCK_SIZE \<equiv> 136"

definition getConstant :: "nat \<Rightarrow> nat \<Rightarrow> byte" where
  "getConstant type index = constants ! (type + index)"

definition get_round_constant :: "nat \<Rightarrow> u64" where
  "get_round_constant round =
     (let roundInfo = getConstant TYPE_ROUND_INFO round;
          result = 0;
          result = (if roundInfo AND push_bit 6 1 \<noteq> 0 then result OR push_bit 63 1 else result);
          result = (if roundInfo AND push_bit 5 1 \<noteq> 0 then result OR push_bit 31 1 else result);
          result = (if roundInfo AND push_bit 4 1 \<noteq> 0 then result OR push_bit 15 1 else result);
          result = (if roundInfo AND push_bit 3 1 \<noteq> 0 then result OR push_bit 7 1 else result);
          result = (if roundInfo AND push_bit 2 1 \<noteq> 0 then result OR push_bit 3 1 else result);
          result = (if roundInfo AND push_bit 1 1 \<noteq> 0 then result OR push_bit 1 1 else result);
          result = (if roundInfo AND push_bit 0 1 \<noteq> 0 then result OR push_bit 0 1 else result)
      in result)"

definition ROTL64 :: "u64 \<Rightarrow> nat \<Rightarrow> u64" where
  "ROTL64 qword n = push_bit n qword XOR drop_bit (64 - n) qword"

section \<open>The permutation\<close>

definition theta_C :: "u64 list \<Rightarrow> nat \<Rightarrow> u64" where
  "theta_C A i = foldl (\<lambda>c j. c XOR A ! (i + j)) (A ! i) [5, 10, 15, 20]"

definition keccak_theta :: "u64 list \<Rightarrow> u64 list" where
  "keccak_theta A =
     (let C = map (theta_C A) [0, 1, 2, 3, 4];
          D = map (\<lambda>i. ROTL64 (C ! ((i + 1) mod 5)) 1 XOR C ! ((i + 4) mod 5)) [0, 1, 2, 3, 4]
      in foldl (\<lambda>A i. foldl (\<lambda>A j. A[i + j := A ! (i + j) XOR D ! i]) A [0, 5, 10, 15, 20])
           A [0, 1, 2, 3, 4])"

definition keccak_rho :: "u64 list \<Rightarrow> u64 list" where
  "keccak_rho A =
     foldl (\<lambda>A i. A[i := ROTL64 (A ! i) (unat (getConstant TYPE_RHO_TRANSFORM (i - 1)))]) A [1..<25]"

definition keccak_pi :: "u64 list \<Rightarrow> u64 list" where
  "keccak_pi A =
     (let A1 = A ! 1;
          A' = foldl (\<lambda>A i. A[unat (getConstant TYPE_PI_TRANSFORM (i - 1)) :=
                                 A ! unat (getConstant TYPE_PI_TRANSFORM i)]) A [1..<24]
      in A'[10 := A1])"

definition chi_row :: "u64 list \<Rightarrow> nat \<Rightarrow> u64 list" where
  "chi_row A i =
     (let A0 = A ! (0 + i); A1 = A ! (1 + i);
          A = A[0 + i := A ! (0 + i) XOR (NOT A1 AND A ! (2 + i))];
          A = A[1 + i := A ! (1 + i) XOR (NOT (A ! (2 + i)) AND A ! (3 + i))];
          A = A[2 + i := A ! (2 + i) XOR (NOT (A ! (3 + i)) AND A ! (4 + i))];
          A = A[3 + i := A ! (3 + i) XOR (NOT (A ! (4 + i)) AND A0)];
          A = A[4 + i := A ! (4 + i) XOR (NOT A0 AND A1)]
      in A)"

definition keccak_chi :: "u64 list \<Rightarrow> u64 list" where
  "keccak_chi A = foldl chi_row A [0, 5, 10, 15, 20]"

definition keccak_round :: "u64 list \<Rightarrow> nat \<Rightarrow> u64 list" where
  "keccak_round state round =
     (let state = keccak_theta state;
          state = keccak_rho state;
          state = keccak_pi state;
          state = keccak_chi state
      in state[0 := state ! 0 XOR get_round_constant round])"

definition sha3_permutation :: "u64 list \<Rightarrow> u64 list" where
  "sha3_permutation state = foldl keccak_round state [0..<24]"

text \<open>The first 17 qwords of an object, as the little-endian target reads them.\<close>

definition qwords :: "bytes \<Rightarrow> u64 list" where
  "qwords block = map (\<lambda>i. le_word (sub_bytes (8 * i) 8 block)) [0..<17]"

definition sha3_process_block :: "u64 list \<Rightarrow> bytes \<Rightarrow> u64 list" where
  "sha3_process_block h block =
     sha3_permutation (foldl (\<lambda>h i. h[i := h ! i XOR qwords block ! i]) h [0..<17])"

section \<open>The streaming context\<close>

record SHA3_CTX =
  ctx_hash :: "u64 list"
  ctx_message :: bytes
  ctx_rest :: u16

definition keccak_init :: SHA3_CTX where
  "keccak_init = \<lparr>ctx_hash = replicate 25 0, ctx_message = replicate 192 0, ctx_rest = 0\<rparr>"

definition IS_ALIGNED_64 :: "u64 \<Rightarrow> bool" where
  "IS_ALIGNED_64 p \<longleftrightarrow> 0 = 7 AND p"

text \<open>
  The loop over full blocks: \<open>off\<close> is how far \<open>msg\<close> has been advanced from the caller's
  pointer \<open>addr\<close>, \<open>size\<close> what is left.
\<close>

function keccak_update_loop ::
  "SHA3_CTX \<Rightarrow> u64 \<Rightarrow> bytes \<Rightarrow> nat \<Rightarrow> u16 \<Rightarrow> (SHA3_CTX \<times> nat \<times> u16) run" where
  "keccak_update_loop ctx addr msg off sz =
     (if sz \<ge> word_of_nat BLOCK_SIZE then
        run_bind (rd off BLOCK_SIZE msg) (\<lambda>block.
        run_bind (if IS_ALIGNED_64 (addr + word_of_nat off) then Ret (ctx_message ctx)
                  else wr 0 block (ctx_message ctx)) (\<lambda>message.
        let aligned_message_block =
              (if IS_ALIGNED_64 (addr + word_of_nat off) then block else message)
        in keccak_update_loop
             (ctx\<lparr>ctx_message := message,
                  ctx_hash := sha3_process_block (ctx_hash ctx) aligned_message_block\<rparr>)
             addr msg (off + BLOCK_SIZE) (sz - word_of_nat BLOCK_SIZE)))
      else Ret (ctx, off, sz))"
  by pat_completeness auto
termination
  by (relation "measure (\<lambda>(_, _, _, _, sz). unat sz)")
     (auto simp: word_le_nat_alt unat_sub)

declare keccak_update_loop.simps [simp del]

text \<open>The end of \<open>keccak_update\<close>: the full blocks, then the leftovers into the buffer.\<close>

definition keccak_update_tail ::
  "SHA3_CTX \<Rightarrow> u64 \<Rightarrow> bytes \<Rightarrow> nat \<Rightarrow> u16 \<Rightarrow> SHA3_CTX run" where
  "keccak_update_tail ctx addr msg off sz =
     run_bind (keccak_update_loop ctx addr msg off sz) (\<lambda>(ctx, off, sz).
     if sz \<noteq> 0 then
       run_bind (rd off (unat sz) msg) (\<lambda>src.
       run_bind (wr 0 src (ctx_message ctx)) (\<lambda>message.
       Ret (ctx\<lparr>ctx_message := message\<rparr>)))
     else Ret ctx)"

definition keccak_update :: "SHA3_CTX \<Rightarrow> u64 \<Rightarrow> bytes \<Rightarrow> u16 \<Rightarrow> SHA3_CTX run" where
  "keccak_update ctx addr msg sz =
     (let idx = ctx_rest ctx;
          ctx = ctx\<lparr>ctx_rest := word_of_nat ((unat (ctx_rest ctx) + unat sz) mod BLOCK_SIZE)\<rparr>
      in if idx \<noteq> 0 then
           let left = word_of_nat BLOCK_SIZE - idx in
           run_bind (rd 0 (unat (if sz < left then sz else left)) msg) (\<lambda>src.
           run_bind (wr (unat idx) src (ctx_message ctx)) (\<lambda>message.
           let ctx = ctx\<lparr>ctx_message := message\<rparr> in
           if sz < left then Ret ctx
           else keccak_update_tail
                  (ctx\<lparr>ctx_hash := sha3_process_block (ctx_hash ctx) (ctx_message ctx)\<rparr>)
                  addr msg (unat left) (sz - left)))
         else keccak_update_tail ctx addr msg 0 sz)"

text \<open>The bytes of the lanes, as \<open>memcpy\<close> out of the \<open>hash\<close> array reads them.\<close>

definition lane_bytes :: "u64 list \<Rightarrow> bytes" where
  "lane_bytes h = concat (map (le_bytes 8) h)"

definition keccak_final :: "SHA3_CTX \<Rightarrow> bytes option \<Rightarrow> (SHA3_CTX \<times> bytes option) run" where
  "keccak_final ctx result =
     (let digest_length = 100 - BLOCK_SIZE div 2; r = unat (ctx_rest ctx) in
      run_bind (wr r (replicate (BLOCK_SIZE - r) 0) (ctx_message ctx)) (\<lambda>message.
      run_bind (rd1 r message) (\<lambda>b.
      run_bind (wr r [b OR 0x01] message) (\<lambda>message.
      run_bind (rd1 (BLOCK_SIZE - 1) message) (\<lambda>b.
      run_bind (wr (BLOCK_SIZE - 1) [b OR 0x80] message) (\<lambda>message.
      let h = sha3_process_block (ctx_hash ctx) message;
          ctx = ctx\<lparr>ctx_message := message, ctx_hash := h\<rparr>
      in case result of
           None \<Rightarrow> Ret (ctx, None)
         | Some buf \<Rightarrow>
             run_bind (wr 0 (take digest_length (lane_bytes h)) buf) (\<lambda>buf.
             Ret (ctx, Some buf))))))))"

end
