(* ===== verification/Keccak_Spec.thy ===== *)
theory Keccak_Spec
  imports Keccak
begin

text \<open>
  A reference definition of Keccak-f[1600] and of the Keccak-256 sponge, written from the
  public specification in lane coordinates \<open>(x, y)\<close> (not from the code), and the proof that
  the permutation of c/ckb_keccak256.h computes it: in-place loops, the permutation cycle,
  and the packed round-constant table against the coordinate formulas, the rotation-offset
  recurrence and the LFSR.
\<close>

section \<open>Reference definition\<close>

definition lane :: "u64 list \<Rightarrow> nat \<Rightarrow> nat \<Rightarrow> u64" where
  "lane A x y = A ! (x mod 5 + 5 * (y mod 5))"

definition lanes :: "(nat \<Rightarrow> nat \<Rightarrow> u64) \<Rightarrow> u64 list" where
  "lanes f = map (\<lambda>i. f (i mod 5) (i div 5)) [0..<25]"

definition column_parity :: "u64 list \<Rightarrow> nat \<Rightarrow> u64" where
  "column_parity A x = lane A x 0 XOR lane A x 1 XOR lane A x 2 XOR lane A x 3 XOR lane A x 4"

definition theta_ref :: "u64 list \<Rightarrow> u64 list" where
  "theta_ref A = lanes (\<lambda>x y. lane A x y XOR column_parity A (x + 4) XOR
                                word_rotl 1 (column_parity A (x + 1)))"

text \<open>The offset of lane \<open>(x, y)\<close> is \<open>(t + 1) (t + 2) / 2\<close> for the step \<open>t\<close> at which the walk
  \<open>(x, y) \<mapsto> (y, 2 x + 3 y)\<close> from \<open>(1, 0)\<close> meets it.\<close>

fun rho_walk :: "nat \<Rightarrow> nat \<Rightarrow> nat \<Rightarrow> nat \<Rightarrow> ((nat \<times> nat) \<times> nat) list" where
  "rho_walk 0 t x y = []"
| "rho_walk (Suc n) t x y =
     ((x, y), ((t + 1) * (t + 2) div 2) mod 64) # rho_walk n (t + 1) y ((2 * x + 3 * y) mod 5)"

definition rho_offset :: "nat \<Rightarrow> nat \<Rightarrow> nat" where
  "rho_offset x y = (case map_of (rho_walk 24 0 1 0) (x, y) of None \<Rightarrow> 0 | Some r \<Rightarrow> r)"

definition rho_ref :: "u64 list \<Rightarrow> u64 list" where
  "rho_ref A = lanes (\<lambda>x y. word_rotl (rho_offset x y) (lane A x y))"

definition pi_ref :: "u64 list \<Rightarrow> u64 list" where
  "pi_ref A = lanes (\<lambda>x y. lane A (x + 3 * y) x)"

definition chi_ref :: "u64 list \<Rightarrow> u64 list" where
  "chi_ref A = lanes (\<lambda>x y. lane A x y XOR (NOT (lane A (x + 1) y) AND lane A (x + 2) y))"

text \<open>The LFSR of the round constants, with feedback polynomial \<open>x\<^sup>8 + x\<^sup>6 + x\<^sup>5 + x\<^sup>4 + 1\<close>.\<close>

fun lfsr :: "nat \<Rightarrow> byte" where
  "lfsr 0 = 1"
| "lfsr (Suc t) = (let r = lfsr t in
     if bit r 7 then (push_bit 1 r) XOR 0x71 else push_bit 1 r)"

definition round_constant_ref :: "nat \<Rightarrow> u64" where
  "round_constant_ref ir =
     foldl (\<lambda>c j. if bit (lfsr (j + 7 * ir)) 0 then c OR push_bit (2 ^ j - 1) 1 else c) 0 [0..<7]"

definition iota_ref :: "u64 list \<Rightarrow> nat \<Rightarrow> u64 list" where
  "iota_ref A ir = lanes (\<lambda>x y. if x = 0 \<and> y = 0 then lane A 0 0 XOR round_constant_ref ir else lane A x y)"

definition keccak_f_ref :: "u64 list \<Rightarrow> u64 list" where
  "keccak_f_ref A = foldl (\<lambda>A ir. iota_ref (chi_ref (pi_ref (rho_ref (theta_ref A)))) ir) A [0..<24]"

section \<open>Agreement of the step mappings\<close>

lemma ROTL64_rotl: "0 < n \<Longrightarrow> n < 64 \<Longrightarrow> ROTL64 w n = word_rotl n w"
proof (rule bit_word_eqI)
  fix k :: nat
  assume n: "0 < n" "n < 64" and "k < LENGTH(64)"
  then have k: "k < 64" by simp
  show "bit (ROTL64 w n) k = bit (word_rotl n w) k"
  proof (cases "n \<le> k")
    case True
    then have "(k + 64 - n) mod 64 = k - n" using k by (simp add: le_mod_geq)
    moreover have "\<not> bit w (64 + k - n)" using True bit_imp_le_length [of w] by fastforce
    ultimately show ?thesis
      using True n k by (simp add: ROTL64_def bit_simps bit_word_rotl_iff)
  next
    case False
    then have "(k + 64 - n) mod 64 = k + 64 - n" and "64 - n + k = k + 64 - n"
      using n by simp_all
    with False show ?thesis
      using n k by (simp only: ROTL64_def bit_simps bit_word_rotl_iff) simp
  qed
qed

lemma lanes25_cases:
  assumes "length (A :: 'a list) = 25"
  obtains a0 a1 a2 a3 a4 a5 a6 a7 a8 a9 a10 a11 a12 a13 a14 a15 a16 a17 a18 a19 a20 a21 a22 a23 a24
  where "A = [a0, a1, a2, a3, a4, a5, a6, a7, a8, a9, a10, a11, a12, a13, a14, a15, a16, a17,
              a18, a19, a20, a21, a22, a23, a24]"
proof -
  have "A = map ((!) A) [0..<25]"
    using assms by (metis map_nth)
  then show ?thesis by (auto intro: that simp: upt_rec)
qed

lemma length_lanes [simp]: "length (lanes f) = 25"
  by (simp add: lanes_def)

lemma upt25: "[0..<25] = [0, 1, 2, 3, 4, 5, 6, 7, 8, 9, 10, 11, 12, 13, 14, 15, 16, 17, 18, 19,
  20, 21, 22, 23, 24]"
  by (simp add: upt_rec)

lemma theta_agrees: "length A = 25 \<Longrightarrow> keccak_theta A = theta_ref A"
  by (erule lanes25_cases)
     (simp add: keccak_theta_def theta_C_def theta_ref_def lanes_def upt25 lane_def
       column_parity_def ROTL64_rotl Let_def ac_simps)

lemma chi_agrees: "length A = 25 \<Longrightarrow> keccak_chi A = chi_ref A"
  by (erule lanes25_cases)
     (simp add: keccak_chi_def chi_row_def chi_ref_def lanes_def upt25 lane_def Let_def)

lemma word_rotl_0: "word_rotl 0 w = w"
  by (rule bit_word_eqI) (simp add: bit_word_rotl_iff)

lemma rho_offset_table:
  "map (\<lambda>i. rho_offset (i mod 5) (i div 5)) [0..<25] =
   0 # map (\<lambda>i. unat (getConstant TYPE_RHO_TRANSFORM (i - 1))) [1..<25]"
  by code_simp

lemma pi_table: "map (\<lambda>i. unat (getConstant TYPE_PI_TRANSFORM i)) [0..<24] =
  [1, 6, 9, 22, 14, 20, 2, 12, 13, 19, 23, 15, 4, 24, 21, 8, 16, 5, 3, 18, 17, 11, 7, 10]"
  by code_simp

text \<open>The output bits of the LFSR, computed in one pass.\<close>

fun lfsr_bits :: "nat \<Rightarrow> byte \<Rightarrow> bool list" where
  "lfsr_bits 0 r = []"
| "lfsr_bits (Suc n) r =
     bit r 0 # lfsr_bits n (if bit r 7 then (push_bit 1 r) XOR 0x71 else push_bit 1 r)"

lemma lfsr_bits_nth: "i < n \<Longrightarrow> lfsr_bits n (lfsr t) ! i = bit (lfsr (i + t)) 0"
proof (induction n arbitrary: i t)
  case (Suc n)
  show ?case
  proof (cases i)
    case (Suc k)
    then show ?thesis using Suc.IH [of k "Suc t"] Suc.prems by (simp add: Let_def)
  qed simp
qed simp

lemma lfsr_168: "lfsr_bits 168 1 =
  map (\<lambda>c. c = CHR ''1'') (''1000000'' @ ''0101100'' @ ''0111101'' @ ''0000111'' @ ''1111100'' @
    ''1000010'' @ ''1001111'' @ ''1010101'' @ ''0111000'' @ ''0011000'' @ ''1010110'' @
    ''0110010'' @ ''1111110'' @ ''1111001'' @ ''1011101'' @ ''1100101'' @ ''0100101'' @
    ''0001001'' @ ''0110100'' @ ''0110011'' @ ''1001111'' @ ''0001101'' @ ''1000010'' @ ''0010111'')"
  by code_simp

lemma round_constant_agrees: "ir < 24 \<Longrightarrow> get_round_constant ir = round_constant_ref ir"
proof -
  assume ir: "ir < 24"
  let ?c = "\<lambda>ir. foldl (\<lambda>c j. if lfsr_bits 168 1 ! (j + 7 * ir)
                then c OR push_bit (2 ^ j - 1) 1 else c) (0 :: u64) [0..<7]"
  have "round_constant_ref ir = ?c ir"
    unfolding round_constant_ref_def
    using ir lfsr_bits_nth [of _ 168 0] by (intro foldl_cong) auto
  moreover have "map get_round_constant [0..<24] = map ?c [0..<24]"
    unfolding lfsr_168 by code_simp
  ultimately show ?thesis using ir by (simp add: list_eq_iff_nth_eq)
qed

lemma pi_agrees: "length A = 25 \<Longrightarrow> keccak_pi A = pi_ref A"
  by (erule lanes25_cases)
     (simp add: keccak_pi_def pi_ref_def lanes_def upt25 lane_def Let_def upt_rec
       getConstant_def constants_def)

lemma rho_agrees: "length A = 25 \<Longrightarrow> keccak_rho A = rho_ref A"
proof -
  assume len: "length A = 25"
  have tab: "rho_ref A = map (\<lambda>i. word_rotl
      ((map (\<lambda>i. rho_offset (i mod 5) (i div 5)) [0..<25]) ! i) (A ! i)) [0..<25]"
    by (simp add: rho_ref_def lanes_def lane_def)
  from len show ?thesis
    unfolding tab rho_offset_table
    by (elim lanes25_cases)
       (simp add: keccak_rho_def upt_rec getConstant_def constants_def ROTL64_rotl word_rotl_0)
qed

lemma iota_agrees:
  "length A = 25 \<Longrightarrow> ir < 24 \<Longrightarrow> A[0 := A ! 0 XOR get_round_constant ir] = iota_ref A ir"
  by (erule lanes25_cases)
     (simp add: iota_ref_def lanes_def upt25 lane_def round_constant_agrees)

lemma length_refs [simp]:
  "length (theta_ref A) = 25" "length (rho_ref A) = 25" "length (pi_ref A) = 25"
  "length (chi_ref A) = 25" "length (iota_ref A ir) = 25"
  by (simp_all add: theta_ref_def rho_ref_def pi_ref_def chi_ref_def iota_ref_def)

lemma round_agrees:
  "length A = 25 \<Longrightarrow> ir < 24 \<Longrightarrow>
   keccak_round A ir = iota_ref (chi_ref (pi_ref (rho_ref (theta_ref A)))) ir"
  by (simp add: keccak_round_def Let_def theta_agrees rho_agrees pi_agrees chi_agrees iota_agrees)

lemma length_rounds:
  "length A = 25 \<Longrightarrow>
   length (foldl (\<lambda>A ir. iota_ref (chi_ref (pi_ref (rho_ref (theta_ref A)))) ir) A irs) = 25"
  by (induction irs arbitrary: A) auto

lemma rounds_agree:
  "length A = 25 \<Longrightarrow> \<forall>ir\<in>set irs. ir < 24 \<Longrightarrow>
   foldl keccak_round A irs = foldl (\<lambda>A ir. iota_ref (chi_ref (pi_ref (rho_ref (theta_ref A)))) ir) A irs"
  by (induction irs arbitrary: A) (auto simp: round_agrees)

lemma permutation_agrees: "length A = 25 \<Longrightarrow> sha3_permutation A = keccak_f_ref A"
  by (simp add: sha3_permutation_def keccak_f_ref_def rounds_agree)

lemma length_keccak_f_ref: "length A = 25 \<Longrightarrow> length (keccak_f_ref A) = 25"
  by (simp add: keccak_f_ref_def length_rounds)

end
