(* ===== verification/Keccak_Sponge.thy ===== *)
theory Keccak_Sponge
  imports Keccak_Spec
begin

text \<open>
  The Keccak-256 sponge as a function of the whole message, and the refinement of the
  streaming interface of c/ckb_keccak256.h to it: whatever the chunking, the alignment of
  the chunks and the previous contents of the buffers, \<open>keccak_init\<close>, any number of
  \<open>keccak_update\<close> and \<open>keccak_final\<close> compute the digest of the concatenated chunks. The
  contract is stated as the locale \<open>streaming_hash\<close>.
\<close>

section \<open>Reference sponge\<close>

text \<open>The sponge: rate 136 bytes, multi-rate padding \<open>10\<^sup>*1\<close>, 32 bytes of output.\<close>

definition absorb_block :: "u64 list \<Rightarrow> bytes \<Rightarrow> u64 list" where
  "absorb_block A block =
     keccak_f_ref (map (\<lambda>i. if i < 17 then A ! i XOR le_word (sub_bytes (8 * i) 8 block) else A ! i) [0..<25])"

function absorb :: "u64 list \<Rightarrow> bytes \<Rightarrow> u64 list" where
  "absorb A m = (if length m < 136 then A else absorb (absorb_block A (take 136 m)) (drop 136 m))"
  by pat_completeness auto
termination
  by (relation "measure (\<lambda>(A, m). length m)") auto

declare absorb.simps [simp del]

definition pad101 :: "nat \<Rightarrow> bytes" where
  "pad101 n = (let q = 136 - n mod 136 in
     if q = 1 then [0x81] else 0x01 # replicate (q - 2) 0 @ [0x80])"

definition keccak256 :: "bytes \<Rightarrow> bytes" where
  "keccak256 m = take 32 (concat (map (le_bytes 8) (absorb (replicate 25 0) (m @ pad101 (length m)))))"

section \<open>Blocks\<close>

lemma length_absorb_block [simp]: "length (absorb_block A b) = 25"
  by (simp add: absorb_block_def length_keccak_f_ref)

lemma process_block_agrees:
  assumes "length A = 25"
  shows "sha3_process_block A block = absorb_block A block"
proof -
  have "foldl (\<lambda>h i. h[i := h ! i XOR q i]) A [0..<17] =
      map (\<lambda>i. if i < 17 then A ! i XOR q i else A ! i) [0..<25]" for q :: "nat \<Rightarrow> u64"
    using assms by (elim lanes25_cases) (simp add: upt_rec)
  from this [of "\<lambda>i. qwords block ! i"] show ?thesis
    by (auto simp: sha3_process_block_def absorb_block_def qwords_def permutation_agrees
        intro!: arg_cong [where f = keccak_f_ref])
qed

lemma length_absorb: "length A = 25 \<Longrightarrow> length (absorb A m) = 25"
  by (induction A m rule: absorb.induct) (subst absorb.simps, auto)

lemma absorb_short [simp]: "length m < 136 \<Longrightarrow> absorb A m = A"
  by (simp add: absorb.simps)

lemma absorb_one [simp]: "length b = 136 \<Longrightarrow> absorb A (b @ m) = absorb (absorb_block A b) m"
  by (subst absorb.simps) simp

lemma absorb_one' [simp]: "length b = 136 \<Longrightarrow> absorb A b = absorb_block A b"
  using absorb_one [of b A "[]"] by simp

text \<open>What is left over of a message after its full blocks.\<close>

definition leftover :: "bytes \<Rightarrow> bytes" where
  "leftover m = drop (136 * (length m div 136)) m"

lemma length_leftover [simp]: "length (leftover m) = length m mod 136"
  by (simp add: leftover_def minus_mult_div_eq_mod)

lemma leftover_short [simp]: "length m < 136 \<Longrightarrow> leftover m = m"
  by (simp add: leftover_def)

lemma leftover_one [simp]: "length b = 136 \<Longrightarrow> leftover (b @ m) = leftover m"
  by (simp add: leftover_def div_add_self1 distrib_left)

lemma block_induct [case_names short block]:
  assumes "\<And>m. length m < 136 \<Longrightarrow> P m"
    and "\<And>b m. length b = 136 \<Longrightarrow> P m \<Longrightarrow> P (b @ m)"
  shows "P (m :: bytes)"
proof (induction m rule: length_induct)
  case (1 m)
  show ?case
  proof (cases "length m < 136")
    case False
    then have "P (take 136 m @ drop 136 m)"
      using 1 by (intro assms(2)) auto
    then show ?thesis by simp
  qed (rule assms(1))
qed

lemma absorb_append: "absorb A (m @ x) = absorb (absorb A m) (leftover m @ x)"
  by (induction m arbitrary: A rule: block_induct) simp_all

lemma leftover_append: "leftover (m @ x) = leftover (leftover m @ x)"
  by (induction m rule: block_induct) simp_all

section \<open>The streaming interface\<close>

definition absorbed :: "SHA3_CTX \<Rightarrow> bytes \<Rightarrow> bool" where
  "absorbed ctx m \<longleftrightarrow>
     length (ctx_message ctx) = 192 \<and>
     unat (ctx_rest ctx) = length m mod 136 \<and>
     ctx_hash ctx = absorb (replicate 25 0) m \<and>
     take (length m mod 136) (ctx_message ctx) = leftover m"

lemma absorb_block_prefix:
  assumes "length b = 136" shows "absorb_block A (b @ x) = absorb_block A b"
proof -
  have "sub_bytes (8 * i) 8 (b @ x) = sub_bytes (8 * i) 8 b" if "i < 17" for i
    using that assms by (simp add: sub_bytes_def)
  then show ?thesis
    by (auto simp: absorb_block_def intro!: arg_cong [where f = keccak_f_ref])
qed

lemma sub_bytes_split:
  "a \<le> n \<Longrightarrow> sub_bytes off n buf = sub_bytes off a buf @ sub_bytes (off + a) (n - a) buf"
  unfolding sub_bytes_def by (metis add.commute drop_drop le_add_diff_inverse take_add)

lemma keccak_update_loop_ok:
  assumes "off + unat sz \<le> length msg" and "length (ctx_hash ctx) = 25"
    and "length (ctx_message ctx) = 192"
  shows "\<exists>ctx'. keccak_update_loop ctx addr msg off sz =
      Ret (ctx', off + 136 * (unat sz div 136), word_of_nat (unat sz mod 136)) \<and>
    ctx_hash ctx' = absorb (ctx_hash ctx) (sub_bytes off (unat sz) msg) \<and>
    length (ctx_message ctx') = 192 \<and> ctx_rest ctx' = ctx_rest ctx"
  using assms
proof (induction ctx addr msg off sz rule: keccak_update_loop.induct)
  case (1 ctx addr msg off sz)
  note unfold = keccak_update_loop.simps [of ctx addr msg off sz]
  show ?case
  proof (cases "sz \<ge> word_of_nat BLOCK_SIZE")
    case False
    then have "unat sz < 136" by (simp add: word_le_nat_alt)
    with False "1.prems" show ?thesis by (simp add: unfold)
  next
    case True
    then have sz: "136 \<le> unat sz" and sz': "unat (sz - word_of_nat BLOCK_SIZE) = unat sz - 136"
      by (simp_all add: word_le_nat_alt unat_sub)
    let ?al = "IS_ALIGNED_64 (addr + word_of_nat off)"
    let ?b = "sub_bytes off 136 msg"
    let ?m = "if ?al then ctx_message ctx else ?b @ drop 136 (ctx_message ctx)"
    let ?ctx = "ctx\<lparr>ctx_message := ?m, ctx_hash := absorb_block (ctx_hash ctx) ?b\<rparr>"
    have b: "length ?b = 136" "rd off BLOCK_SIZE msg = Ret ?b"
      using "1.prems"(1) sz by (simp_all add: rd_ok)
    have m: "(if ?al then Ret (ctx_message ctx) else wr 0 ?b (ctx_message ctx)) = Ret ?m"
      using "1.prems"(3) b(1) by (simp add: wr_ok)
    have step: "keccak_update_loop ctx addr msg off sz =
        keccak_update_loop ?ctx addr msg (off + 136) (sz - word_of_nat BLOCK_SIZE)"
      using True "1.prems"(2) b m
      by (simp add: unfold Let_def process_block_agrees absorb_block_prefix)
    have "\<exists>ctx'. keccak_update_loop ?ctx addr msg (off + 136) (sz - word_of_nat BLOCK_SIZE) =
        Ret (ctx', off + 136 + 136 * ((unat sz - 136) div 136), word_of_nat ((unat sz - 136) mod 136)) \<and>
      ctx_hash ctx' = absorb (absorb_block (ctx_hash ctx) ?b) (sub_bytes (off + 136) (unat sz - 136) msg) \<and>
      length (ctx_message ctx') = 192 \<and> ctx_rest ctx' = ctx_rest ctx"
      using "1.IH" [OF True b(2) m refl] "1.prems" sz sz' b(1)
      by (cases ?al) (simp_all add: process_block_agrees absorb_block_prefix)
    moreover have "off + 136 + 136 * ((unat sz - 136) div 136) = off + 136 * (unat sz div 136)"
      and "(unat sz - 136) mod 136 = unat sz mod 136"
      using sz by (simp_all add: le_div_geq le_mod_geq)
    moreover have "absorb (ctx_hash ctx) (sub_bytes off (unat sz) msg) =
        absorb (absorb_block (ctx_hash ctx) ?b) (sub_bytes (off + 136) (unat sz - 136) msg)"
      using sub_bytes_split [OF sz] b(1) by simp
    ultimately show ?thesis by (simp add: step)
  qed
qed

lemma absorbed_init: "absorbed keccak_init []"
  by (simp add: absorbed_def keccak_init_def)

lemma keccak_update_tail_ok:
  assumes "off + unat sz \<le> length msg" and "length (ctx_hash ctx) = 25"
    and "length (ctx_message ctx) = 192"
  shows "\<exists>ctx'. keccak_update_tail ctx addr msg off sz = Ret ctx' \<and>
    ctx_hash ctx' = absorb (ctx_hash ctx) (sub_bytes off (unat sz) msg) \<and>
    take (unat sz mod 136) (ctx_message ctx') = leftover (sub_bytes off (unat sz) msg) \<and>
    length (ctx_message ctx') = 192 \<and> ctx_rest ctx' = ctx_rest ctx"
proof -
  let ?q = "136 * (unat sz div 136)" and ?r = "unat sz mod 136"
  obtain ctx' where loop: "keccak_update_loop ctx addr msg off sz = Ret (ctx', off + ?q, word_of_nat ?r)"
    and ctx': "ctx_hash ctx' = absorb (ctx_hash ctx) (sub_bytes off (unat sz) msg)"
      "length (ctx_message ctx') = 192" "ctx_rest ctx' = ctx_rest ctx"
    using keccak_update_loop_ok [OF assms] by blast
  have sum: "?q + ?r = unat sz" by simp
  have r: "?r < 136" "unat (word_of_nat ?r :: u16) = ?r" "word_of_nat ?r = (0 :: u16) \<longleftrightarrow> ?r = 0"
    by (simp_all add: unat_of_nat word_unat_eq_iff)
  have lo: "leftover (sub_bytes off (unat sz) msg) = sub_bytes (off + ?q) ?r msg"
    using sub_bytes_split [of ?q "unat sz" off msg] assms(1) sum
    by (simp add: leftover_def minus_mult_div_eq_mod)
  have bnd: "off + ?q + ?r \<le> length msg" using assms(1) sum by linarith
  show ?thesis
    using loop ctx' r bnd by (cases "?r = 0") (simp_all add: keccak_update_tail_def lo)
qed

lemma keccak_update_full:
  assumes abs: "absorbed ctx m" and sz: "unat sz \<le> length msg" and rest0: "ctx_rest ctx \<noteq> 0"
    and ge: "136 - length m mod 136 \<le> unat sz"
  shows "\<exists>ctx'. keccak_update ctx addr msg sz = Ret ctx' \<and> absorbed ctx' (m @ take (unat sz) msg)"
proof -
  let ?r = "length m mod 136" and ?left = "word_of_nat BLOCK_SIZE - ctx_rest ctx"
  from abs have ctx: "length (ctx_message ctx) = 192" "unat (ctx_rest ctx) = ?r"
    "ctx_hash ctx = absorb (replicate 25 0) m" "take ?r (ctx_message ctx) = leftover m"
    by (auto simp: absorbed_def)
  let ?rest = "word_of_nat ((?r + unat sz) mod BLOCK_SIZE) :: u16"
  have rest: "unat ?rest = length (m @ take (unat sz) msg) mod 136" using sz by (simp add: unat_of_nat mod_simps)
  have left: "unat ?left = 136 - ?r" using ctx(2) by (subst unat_sub) (simp_all add: word_le_nat_alt)
  have nlt: "\<not> sz < ?left" and szl: "unat (sz - ?left) = unat sz - (136 - ?r)"
    using ge left by (simp_all add: word_less_nat_alt unat_sub word_le_nat_alt)
  let ?a = "take (136 - ?r) msg" and ?z = "sub_bytes (136 - ?r) (unat sz - (136 - ?r)) msg"
  let ?blk = "leftover m @ ?a"
  let ?msg = "?blk @ drop 136 (ctx_message ctx)"
  have blk: "length ?blk = 136" using ge sz by simp
  have split: "take (unat sz) msg = ?a @ ?z" using sub_bytes_split [OF ge, of 0 msg] by simp
  have H: "sha3_process_block (ctx_hash ctx) ?msg = absorb_block (ctx_hash ctx) ?blk"
    using blk absorb_block_prefix [OF blk] by (simp add: process_block_agrees ctx length_absorb)
  have A: "absorb (replicate 25 0) (m @ take (unat sz) msg) = absorb (absorb_block (ctx_hash ctx) ?blk) ?z"
    using absorb_one [OF blk, of "ctx_hash ctx" ?z] by (simp add: absorb_append [of _ m] split ctx(3))
  have L: "leftover (m @ take (unat sz) msg) = leftover ?z"
    using leftover_one [OF blk, of ?z] by (simp add: leftover_append [of m] split)
  have zl: "length ?z = unat sz - (136 - ?r)" using ge sz by simp
  have modz: "length (m @ take (unat sz) msg) mod 136 = (unat sz - (136 - ?r)) mod 136"
    using arg_cong [OF L, of length] by (simp only: length_leftover zl)
  let ?c = "ctx\<lparr>ctx_rest := ?rest, ctx_message := ?msg, ctx_hash := absorb_block (ctx_hash ctx) ?blk\<rparr>"
  obtain ctx' where tail: "keccak_update_tail ?c addr msg (136 - ?r) (sz - ?left) = Ret ctx'"
    and ctx': "ctx_hash ctx' = absorb (absorb_block (ctx_hash ctx) ?blk) ?z"
      "take ((unat sz - (136 - ?r)) mod 136) (ctx_message ctx') = leftover ?z"
      "length (ctx_message ctx') = 192" "ctx_rest ctx' = ?rest"
    using keccak_update_tail_ok [of "136 - ?r" "sz - ?left" msg ?c addr] sz ge szl blk ctx(1) by auto
  have "wr ?r ?a (ctx_message ctx) = Ret ?msg" using ge sz ctx by simp
  then have "keccak_update ctx addr msg sz = Ret ctx'"
    using nlt rest0 left ctx(2) ge sz tail H by (simp add: keccak_update_def Let_def)
  moreover have "absorbed ctx' (m @ take (unat sz) msg)" unfolding absorbed_def by (simp only: ctx' rest A L modz)
  ultimately show ?thesis by blast
qed

lemma keccak_update_ok:
  assumes abs: "absorbed ctx m" and sz: "unat sz \<le> length msg"
  shows "\<exists>ctx'. keccak_update ctx addr msg sz = Ret ctx' \<and> absorbed ctx' (m @ take (unat sz) msg)"
proof -
  let ?r = "length m mod 136" and ?left = "word_of_nat BLOCK_SIZE - ctx_rest ctx"
  from abs have ctx: "length (ctx_message ctx) = 192" "unat (ctx_rest ctx) = ?r"
    "ctx_hash ctx = absorb (replicate 25 0) m" "take ?r (ctx_message ctx) = leftover m"
    by (auto simp: absorbed_def)
  let ?rest = "word_of_nat ((?r + unat sz) mod BLOCK_SIZE) :: u16"
  have rest: "unat ?rest = length (m @ take (unat sz) msg) mod 136" using sz by (simp add: unat_of_nat mod_simps)
  consider (aligned) "ctx_rest ctx = 0" | (part) "ctx_rest ctx \<noteq> 0" "?r + unat sz < 136"
    | (full) "ctx_rest ctx \<noteq> 0" "136 - ?r \<le> unat sz" by linarith
  then show ?thesis
  proof cases
    case aligned
    then have "?r = 0" using ctx(2) by simp
    then have m: "leftover m = []" by (simp flip: length_0_conv)
    show ?thesis
      using keccak_update_tail_ok [of 0 sz msg "ctx\<lparr>ctx_rest := ?rest\<rparr>" addr] aligned sz ctx rest \<open>?r = 0\<close>
      by (auto simp: keccak_update_def Let_def absorbed_def absorb_append [of _ m] m
          leftover_append [of m] mod_simps length_absorb)
  next
    case part
    have "unat ?left = 136 - ?r" using ctx(2) by (subst unat_sub) (simp_all add: word_le_nat_alt)
    then have lt: "sz < ?left" using part(2) by (simp add: word_less_nat_alt)
    have mod: "(length m + unat sz) mod 136 = ?r + unat sz" using part(2) by (metis mod_add_left_eq mod_less)
    have "take (?r + unat sz) (take ?r (ctx_message ctx) @ take (unat sz) msg @ x) = leftover m @ take (unat sz) msg" for x
      using ctx sz by simp
    then show ?thesis
      using lt part sz ctx rest mod
      by (auto simp: keccak_update_def Let_def absorbed_def absorb_append [of _ m] leftover_append [of m])
  next
    case full
    then show ?thesis by (rule keccak_update_full [OF abs sz])
  qed
qed

text \<open>Setting a byte in the middle of a buffer.\<close>

lemma or_byte_at:
  "off = length a \<Longrightarrow>
   run_bind (rd1 off (a @ x # b)) (\<lambda>y. run_bind (wr off [y OR v] (a @ x # b)) f) =
   f (a @ (x OR v) # b)"
  by simp

lemma pad101_split:
  assumes "r + k = 135" and "n mod 136 = r"
  shows "pad101 n = (if k = 0 then [0x81] else 1 # replicate (k - 1) 0 @ [0x80])"
proof -
  from assms have "136 - n mod 136 = Suc k" by simp
  then show ?thesis by (simp add: pad101_def Let_def)
qed

text \<open>The three writes of \<open>keccak_final\<close> put the padding after the leftover bytes.\<close>

lemma pad_writes:
  assumes "length L = r" and "r + k = 135" and "n mod 136 = r"
  shows "run_bind (rd1 r (L @ replicate (Suc k) 0 @ D)) (\<lambda>b.
         run_bind (wr r [b OR 0x01] (L @ replicate (Suc k) 0 @ D)) (\<lambda>message.
         run_bind (rd1 (BLOCK_SIZE - 1) message) (\<lambda>b.
         run_bind (wr (BLOCK_SIZE - 1) [b OR 0x80] message) f))) = f (L @ pad101 n @ D)"
proof (cases k)
  case 0
  then show ?thesis
    using assms by (simp add: pad101_split [OF assms(2,3)] nth_append)
next
  case (Suc j)
  have e: "BLOCK_SIZE - 1 = length (L @ 1 # replicate j 0)" using assms Suc by simp
  have s: "L @ 1 # replicate k 0 @ D = (L @ 1 # replicate j 0) @ 0 # D"
    using Suc by (simp add: replicate_app_Cons_same)
  show ?thesis
    unfolding replicate_Suc append_Cons
    by (subst or_byte_at [OF assms(1) [symmetric]])
       (simp only: or.left_neutral s or_byte_at [OF e],
        simp add: pad101_split [OF assms(2,3)] Suc)
qed

lemma keccak_final_ok:
  assumes abs: "absorbed ctx m" and buf: "32 \<le> length buf"
  shows "\<exists>ctx'. keccak_final ctx (Some buf) = Ret (ctx', Some (keccak256 m @ drop 32 buf))"
proof -
  let ?r = "length m mod 136" and ?M = "ctx_message ctx"
  from abs have ctx: "length ?M = 192" "unat (ctx_rest ctx) = ?r"
    "ctx_hash ctx = absorb (replicate 25 0) m" "take ?r ?M = leftover m"
    by (auto simp: absorbed_def)
  define k where "k = 135 - ?r"
  have k: "?r + k = 135" "136 - ?r = Suc k"
    using mod_less_divisor [of 136 "length m"] by (simp_all add: k_def)
  let ?m3 = "leftover m @ pad101 (length m) @ drop 136 ?M"
  let ?H = "absorb (replicate 25 0) (m @ pad101 (length m))"
  have w1: "wr ?r (replicate (136 - ?r) 0) ?M = Ret (leftover m @ replicate (Suc k) 0 @ drop 136 ?M)"
    using ctx k by simp
  have len: "length (leftover m @ pad101 (length m)) = 136"
    using k pad101_split [OF k(1) refl] by auto
  have H: "sha3_process_block (ctx_hash ctx) ?m3 = ?H"
    using ctx(3) len absorb_block_prefix [OF len, of "ctx_hash ctx" "drop 136 ?M"]
    by (simp add: process_block_agrees length_absorb absorb_append [of _ m])
  have dig: "length (take 32 (lane_bytes ?H)) = 32"
    by (simp add: lane_bytes_def length_concat length_absorb comp_def sum_list_triv min_def)
  show ?thesis
    unfolding keccak_final_def Let_def ctx(2) w1 run_bind.simps(1)
    by (subst pad_writes [OF _ k(1) refl])
       (use H dig buf in \<open>simp_all add: keccak256_def lane_bytes_def\<close>)
qed

lemma length_keccak256 [simp]: "length (keccak256 m) = 32"
  by (simp add: keccak256_def length_concat length_absorb comp_def sum_list_triv min_def)

section \<open>The contract of a streaming hash\<close>

text \<open>A sequence of \<open>update\<close> calls, one per chunk \<open>(address, bytes)\<close>.\<close>

fun feed :: "('c \<Rightarrow> u64 \<Rightarrow> bytes \<Rightarrow> u16 \<Rightarrow> 'c run) \<Rightarrow> 'c \<Rightarrow> (u64 \<times> bytes) list \<Rightarrow> 'c run" where
  "feed upd c [] = Ret c"
| "feed upd c ((addr, msg) # chunks) =
     run_bind (upd c addr msg (word_of_nat (length msg))) (\<lambda>c. feed upd c chunks)"

locale streaming_hash =
  fixes init :: 'c
    and update :: "'c \<Rightarrow> u64 \<Rightarrow> bytes \<Rightarrow> u16 \<Rightarrow> 'c run"
    and final :: "'c \<Rightarrow> bytes option \<Rightarrow> ('c \<times> bytes option) run"
    and digest :: "bytes \<Rightarrow> bytes"
    and holds :: "'c \<Rightarrow> bytes \<Rightarrow> bool"
  assumes init_holds: "holds init []"
    and update_holds: "holds c m \<Longrightarrow> unat n \<le> length msg \<Longrightarrow>
      \<exists>c'. update c addr msg n = Ret c' \<and> holds c' (m @ take (unat n) msg)"
    and final_digest: "holds c m \<Longrightarrow> 32 \<le> length buf \<Longrightarrow>
      \<exists>c'. final c (Some buf) = Ret (c', Some (digest m @ drop 32 buf))"
    and length_digest: "length (digest m) = 32"
begin

lemma update_then:
  assumes "holds c m" and "unat n = length msg"
    and "\<And>c'. holds c' (m @ msg) \<Longrightarrow> f c' = r"
  shows "run_bind (update c addr msg n) f = r"
  using update_holds [OF assms(1), of n msg addr] assms(2,3) by auto

lemma final_then:
  assumes "holds c m" and "32 \<le> length buf"
    and "\<And>c'. f (c', Some (digest m @ drop 32 buf)) = r"
  shows "run_bind (final c (Some buf)) f = r"
  using final_digest [OF assms(1,2)] assms(3) by auto

lemma feed_holds:
  assumes "holds c m" and "\<forall>(addr, msg)\<in>set chunks. length msg < 65536"
  shows "\<exists>c'. feed update c chunks = Ret c' \<and> holds c' (m @ concat (map snd chunks))"
  using assms
proof (induction chunks arbitrary: c m)
  case (Cons ch chunks)
  obtain addr msg where ch: "ch = (addr, msg)" by force
  with Cons.prems have "unat (word_of_nat (length msg) :: u16) = length msg"
    by (simp add: unat_of_nat)
  then obtain c' where "update c addr msg (word_of_nat (length msg)) = Ret c'"
    and "holds c' (m @ msg)"
    using update_holds [OF Cons.prems(1), of "word_of_nat (length msg)" msg addr] by auto
  with Cons.IH [of c' "m @ msg"] Cons.prems(2) ch show ?case by simp
qed simp

lemma hash_chunks:
  assumes "\<forall>(addr, msg)\<in>set chunks. length msg < 65536" and "32 \<le> length buf"
  shows "run_bind (feed update init chunks) (\<lambda>c. run_bind (final c (Some buf)) (\<lambda>(_, out). Ret out)) =
    Ret (Some (digest (concat (map snd chunks)) @ drop 32 buf))"
proof -
  obtain c where c: "feed update init chunks = Ret c" "holds c (concat (map snd chunks))"
    using feed_holds [OF init_holds assms(1)] by auto
  show ?thesis
    using final_digest [OF c(2) assms(2)] c(1) by auto
qed

end

interpretation keccak: streaming_hash keccak_init keccak_update keccak_final keccak256 absorbed
  by unfold_locales (simp_all add: absorbed_init keccak_update_ok keccak_final_ok)

section \<open>Properties\<close>

text \<open>C6: The in-place permutation of c/ckb_keccak256.h (theta, rho by table, the pi cycle,
  chi with saved lanes, iota with the packed constants) is Keccak-f[1600] as specified in
  coordinates, for every state of 25 lanes.\<close>

theorem sha3_permutation_is_keccak_f:
  assumes "length A = 25"
  shows "sha3_permutation A = keccak_f_ref A \<and> length (sha3_permutation A) = 25"
  using assms by (simp add: permutation_agrees length_keccak_f_ref)

theorem sha3_permutation_is_keccak_f_witness:
  "sha3_permutation (replicate 25 7) = keccak_f_ref (replicate 25 7)"
  using sha3_permutation_is_keccak_f [of "replicate 25 7"] by simp

text \<open>C5: \<open>keccak_init\<close>, \<open>keccak_update\<close> on any list of chunks shorter than 65536 bytes at any
  addresses, aligned or not, and \<open>keccak_final\<close> return without an out-of-bounds access and
  leave in the first 32 bytes of the result buffer the Keccak-256 digest of the
  concatenated chunks.\<close>

theorem keccak_stream_correct:
  assumes "\<forall>(addr, msg)\<in>set chunks. length msg < 65536" and "32 \<le> length buf"
  shows "run_bind (feed keccak_update keccak_init chunks)
      (\<lambda>ctx. run_bind (keccak_final ctx (Some buf)) (\<lambda>(_, out). Ret out)) =
    Ret (Some (keccak256 (concat (map snd chunks)) @ drop 32 buf))"
  using assms by (rule keccak.hash_chunks)

theorem keccak_stream_correct_witness:
  "run_bind (feed keccak_update keccak_init [(0, [1, 2, 3]), (5, [4])])
      (\<lambda>ctx. run_bind (keccak_final ctx (Some (replicate 33 9))) (\<lambda>(_, out). Ret out)) =
    Ret (Some (keccak256 [1, 2, 3, 4] @ [9]))"
  using keccak_stream_correct [of "[(0, [1, 2, 3]), (5, [4])]" "replicate 33 9"]
  by (simp add: drop_replicate del: feed.simps)

end
