(* ===== verification/Nanocbor.thy ===== *)
theory Nanocbor
  imports Auth_Prelude
begin

text \<open>
  The constants, the two contexts and the inline functions of
  c/cardano/nanocbor/nanocbor.h, and the byte-order helpers of endian.h. A decoder
  context keeps its position and its end as offsets into the buffer it decodes; an encoder
  context carries the buffer it writes.
\<close>

section \<open>Constants\<close>

abbreviation (input) NANOCBOR_TYPE_OFFSET :: nat where "NANOCBOR_TYPE_OFFSET \<equiv> 5"
abbreviation (input) NANOCBOR_TYPE_MASK :: byte where "NANOCBOR_TYPE_MASK \<equiv> 0xE0"
abbreviation (input) NANOCBOR_VALUE_MASK :: byte where "NANOCBOR_VALUE_MASK \<equiv> 0x1F"

abbreviation (input) NANOCBOR_TYPE_UINT :: int where "NANOCBOR_TYPE_UINT \<equiv> 0"
abbreviation (input) NANOCBOR_TYPE_NINT :: int where "NANOCBOR_TYPE_NINT \<equiv> 1"
abbreviation (input) NANOCBOR_TYPE_BSTR :: int where "NANOCBOR_TYPE_BSTR \<equiv> 2"
abbreviation (input) NANOCBOR_TYPE_TSTR :: int where "NANOCBOR_TYPE_TSTR \<equiv> 3"
abbreviation (input) NANOCBOR_TYPE_ARR :: int where "NANOCBOR_TYPE_ARR \<equiv> 4"
abbreviation (input) NANOCBOR_TYPE_MAP :: int where "NANOCBOR_TYPE_MAP \<equiv> 5"
abbreviation (input) NANOCBOR_TYPE_TAG :: int where "NANOCBOR_TYPE_TAG \<equiv> 6"
abbreviation (input) NANOCBOR_TYPE_FLOAT :: int where "NANOCBOR_TYPE_FLOAT \<equiv> 7"

text \<open>The major type shifted into place.\<close>

definition NANOCBOR_MASK :: "int \<Rightarrow> byte" where
  "NANOCBOR_MASK type = push_bit NANOCBOR_TYPE_OFFSET (word_of_int type)"

abbreviation (input) NANOCBOR_SIMPLE_FALSE :: byte where "NANOCBOR_SIMPLE_FALSE \<equiv> 20"
abbreviation (input) NANOCBOR_SIMPLE_TRUE :: byte where "NANOCBOR_SIMPLE_TRUE \<equiv> 21"
abbreviation (input) NANOCBOR_SIMPLE_NULL :: byte where "NANOCBOR_SIMPLE_NULL \<equiv> 22"

abbreviation (input) NANOCBOR_SIZE_BYTE :: byte where "NANOCBOR_SIZE_BYTE \<equiv> 24"
abbreviation (input) NANOCBOR_SIZE_SHORT :: byte where "NANOCBOR_SIZE_SHORT \<equiv> 25"
abbreviation (input) NANOCBOR_SIZE_WORD :: byte where "NANOCBOR_SIZE_WORD \<equiv> 26"
abbreviation (input) NANOCBOR_SIZE_LONG :: byte where "NANOCBOR_SIZE_LONG \<equiv> 27"
abbreviation (input) NANOCBOR_SIZE_INDEFINITE :: byte where "NANOCBOR_SIZE_INDEFINITE \<equiv> 31"
abbreviation (input) NANOCBOR_TAG_DEC_FRAC :: u64 where "NANOCBOR_TAG_DEC_FRAC \<equiv> 4"

text \<open>\<open>NANOCBOR_SIZE_SIZET\<close> of config.h on a target with 64 bit \<open>size_t\<close>.\<close>

abbreviation (input) NANOCBOR_SIZE_SIZET :: byte where "NANOCBOR_SIZE_SIZET \<equiv> NANOCBOR_SIZE_LONG"
abbreviation (input) NANOCBOR_RECURSION_MAX :: nat where "NANOCBOR_RECURSION_MAX \<equiv> 10"

abbreviation (input) NANOCBOR_OK :: int where "NANOCBOR_OK \<equiv> 0"
abbreviation (input) NANOCBOR_ERR_OVERFLOW :: int where "NANOCBOR_ERR_OVERFLOW \<equiv> -1"
abbreviation (input) NANOCBOR_ERR_INVALID_TYPE :: int where "NANOCBOR_ERR_INVALID_TYPE \<equiv> -2"
abbreviation (input) NANOCBOR_ERR_END :: int where "NANOCBOR_ERR_END \<equiv> -3"
abbreviation (input) NANOCBOR_ERR_RECURSION :: int where "NANOCBOR_ERR_RECURSION \<equiv> -4"
abbreviation (input) NANOCBOR_NOT_FOUND :: int where "NANOCBOR_NOT_FOUND \<equiv> -5"

abbreviation (input) NANOCBOR_DECODER_FLAG_CONTAINER :: byte where
  "NANOCBOR_DECODER_FLAG_CONTAINER \<equiv> 1"
abbreviation (input) NANOCBOR_DECODER_FLAG_INDEFINITE :: byte where
  "NANOCBOR_DECODER_FLAG_INDEFINITE \<equiv> 2"

section \<open>Contexts\<close>

record nanocbor_value =
  v_cur :: nat
  v_end :: nat
  v_remaining :: u32
  v_flags :: byte

record nanocbor_encoder =
  enc_buf :: bytes
  enc_cur :: nat
  enc_end :: nat
  enc_len :: u64

definition nanocbor_container_remaining :: "nanocbor_value \<Rightarrow> u32" where
  "nanocbor_container_remaining v = v_remaining v"

definition nanocbor_container_indefinite :: "nanocbor_value \<Rightarrow> bool" where
  "nanocbor_container_indefinite c \<longleftrightarrow>
     v_flags c = NANOCBOR_DECODER_FLAG_INDEFINITE OR NANOCBOR_DECODER_FLAG_CONTAINER"

definition nanocbor_in_container :: "nanocbor_value \<Rightarrow> bool" where
  "nanocbor_in_container c \<longleftrightarrow> v_flags c AND NANOCBOR_DECODER_FLAG_CONTAINER \<noteq> 0"

section \<open>Byte order\<close>

definition bswap16 :: "u16 \<Rightarrow> u16" where
  "bswap16 x = push_bit 8 x OR drop_bit 8 x"

definition bswap32 :: "u32 \<Rightarrow> u32" where
  "bswap32 x = drop_bit 24 x OR (drop_bit 8 x AND 0xff00) OR (push_bit 8 x AND 0xff0000) OR push_bit 24 x"

definition bswap64 :: "u64 \<Rightarrow> u64" where
  "bswap64 x = push_bit 32 (ucast (bswap32 (ucast x))) OR ucast (bswap32 (ucast (drop_bit 32 x)))"

lemma le_word_append: "le_word (a @ b) = le_word a OR push_bit (8 * length a) (le_word b)"
  by (induction a) (simp_all add: push_bit_or or.assoc)

lemma ucast_le_word: "8 * length bs \<le> LENGTH('a) \<Longrightarrow> ucast (le_word bs :: 'a::len word) = (le_word bs :: 'b::len word)"
  by (rule bit_word_eqI) (auto simp: bit_simps bit_le_word)

lemma le_bytes_split: "le_bytes (m + n) w = le_bytes m w @ le_bytes n (drop_bit (8 * m) w)"
  by (rule nth_equalityI) (auto simp: le_bytes_def nth_append algebra_simps)

lemma le_bytes_ucast: "8 * n \<le> LENGTH('b) \<Longrightarrow> le_bytes n (ucast (w :: 'a::len word) :: 'b::len word) = le_bytes n w"
  by (auto simp: le_bytes_def intro!: bit_word_eqI simp: bit_simps)

lemma bswap32_eq: "bswap32 x = be_word (le_bytes 4 x)"
proof -
  have a: "drop_bit 8 x AND 0xff00 = push_bit 8 (ucast (ucast (drop_bit 16 x) :: byte))"
  proof -
    have eq: "(0xff00 :: u32) = push_bit 8 (mask 8)" by (simp add: mask_eq_exp_minus_1)
    show ?thesis unfolding eq
      by (rule bit_word_eqI) (auto simp: bit_simps simp del: push_bit_mask_eq)
  qed
  have b: "push_bit 8 x AND 0xff0000 = push_bit 16 (ucast (ucast (drop_bit 8 x) :: byte))"
  proof -
    have eq: "(0xff0000 :: u32) = push_bit 16 (mask 8)" by (simp add: mask_eq_exp_minus_1)
    show ?thesis unfolding eq
      by (rule bit_word_eqI) (auto simp: bit_simps simp del: push_bit_mask_eq)
  qed
  show ?thesis
    unfolding bswap32_def a b be_word_def le_bytes_def
    by (rule bit_word_eqI) (auto simp: bit_simps upt_rec dest: bit_imp_le_length)
qed

lemma bswap64_be: "bswap64 w = be_word (le_bytes 8 w)"
proof -
  let ?A = "le_bytes 4 w" and ?B = "le_bytes 4 (drop_bit 32 w)"
  have "le_bytes 8 w = ?A @ ?B"
    using le_bytes_split [of 4 4 w] by simp
  moreover have "bswap64 w = push_bit 32 (le_word (rev ?A)) OR le_word (rev ?B)"
    by (simp add: bswap64_def bswap32_eq be_word_def ucast_le_word le_bytes_ucast)
  ultimately show ?thesis
    by (simp add: be_word_def le_word_append or.commute)
qed

lemma le_bytes_bswap64: "le_bytes 8 (bswap64 w) = be_bytes 8 w"
  using le_bytes_le_word [of "be_bytes 8 w", where 'a = 64]
  by (simp add: bswap64_be be_word_def be_bytes_def)

lemma drop_be_bytes: "k \<le> n \<Longrightarrow> drop (n - k) (be_bytes n w) = be_bytes k w"
  by (simp add: be_bytes_def le_bytes_def drop_rev take_map take_upt)

lemma le_word_zeros: "le_word (bs @ replicate k 0) = le_word bs"
  by (induction bs) (simp_all, induction k, simp_all)

lemma bswap64_pad:
  assumes "length bs \<le> 8"
  shows "bswap64 (le_word (replicate (8 - length bs) 0 @ bs)) = be_word bs"
proof -
  let ?p = "replicate (8 - length bs) 0 @ bs"
  have "le_bytes 8 (le_word ?p :: u64) = ?p"
    using le_bytes_le_word [of ?p, where 'a = 64] assms by simp
  then show ?thesis by (simp add: bswap64_be be_word_def le_word_zeros)
qed

lemma bswap64_involutive: "bswap64 (bswap64 w) = w"
  unfolding bswap64_be [of "bswap64 w"] le_bytes_bswap64 by simp

text \<open>A bound on the value of a big-endian string of bytes.\<close>

lemma unat_le_word_less: "unat (le_word bs :: u64) < 2 ^ (8 * length bs)"
proof (cases "length bs < 8")
  case True
  then have "(le_word bs :: u64) = take_bit (8 * length bs) (le_word bs)"
    by (intro bit_word_eqI) (auto simp: bit_simps bit_le_word)
  then have "unat (le_word bs :: u64) = unat (le_word bs :: u64) mod 2 ^ (8 * length bs)"
    by (metis unat_take_bit)
  then show ?thesis by (metis mod_less_divisor zero_less_numeral zero_less_power)
next
  case False
  have "unat (le_word bs :: u64) < 2 ^ 64" by simp
  also have "(2 :: nat) ^ 64 \<le> 2 ^ (8 * length bs)" using False by (intro power_increasing) auto
  finally show ?thesis .
qed

lemma unat_be_word_less: "unat (be_word bs :: u64) < 2 ^ (8 * length bs)"
  using unat_le_word_less [of "rev bs"] by (simp add: be_word_def)

end
