(* ===== verification/Nanocbor_Encoder.thy ===== *)
theory Nanocbor_Encoder
  imports Nanocbor
begin

text \<open>
  The encoder of c/cardano/nanocbor/encoder.c. Every operation returns the status of the C
  function and the encoder context: \<open>enc_len\<close> grows by the size of the item even when the
  item does not fit. Floats are their IEEE bit patterns, which is all the code looks at.
\<close>

section \<open>Model\<close>

definition nanocbor_encoder_init :: "bytes \<Rightarrow> u64 \<Rightarrow> nanocbor_encoder" where
  "nanocbor_encoder_init buf len =
     \<lparr>enc_buf = buf, enc_cur = 0, enc_end = unat len, enc_len = 0\<rparr>"

definition nanocbor_encoded_len :: "nanocbor_encoder \<Rightarrow> u64" where
  "nanocbor_encoded_len enc = enc_len enc"

definition fits :: "nanocbor_encoder \<Rightarrow> u64 \<Rightarrow> int \<times> nanocbor_encoder" where
  "fits enc len =
     (if (word_of_nat (enc_end enc) - word_of_nat (enc_cur enc) :: u64) \<ge> len
      then c_int len else NANOCBOR_ERR_END,
      enc\<lparr>enc_len := enc_len enc + len\<rparr>)"

text \<open>\<open>*enc->cur++ = b\<close> and \<open>memcpy(enc->cur, bs, n); enc->cur += n\<close>.\<close>

definition enc_emit :: "nanocbor_encoder \<Rightarrow> bytes \<Rightarrow> nanocbor_encoder run" where
  "enc_emit enc bs = run_bind (wr (enc_cur enc) bs (enc_buf enc)) (\<lambda>buf.
     Ret (enc\<lparr>enc_buf := buf, enc_cur := enc_cur enc + length bs\<rparr>))"

definition fmt_single :: "nanocbor_encoder \<Rightarrow> byte \<Rightarrow> (int \<times> nanocbor_encoder) run" where
  "fmt_single enc single =
     (let (res, enc) = fits enc 1 in
      if res = 1 then run_bind (enc_emit enc [single]) (\<lambda>enc. Ret (res, enc))
      else Ret (res, enc))"

definition nanocbor_fmt_bool :: "nanocbor_encoder \<Rightarrow> bool \<Rightarrow> (int \<times> nanocbor_encoder) run" where
  "nanocbor_fmt_bool enc content =
     fmt_single enc (NANOCBOR_MASK NANOCBOR_TYPE_FLOAT OR
       (if content then NANOCBOR_SIMPLE_TRUE else NANOCBOR_SIMPLE_FALSE))"

definition fmt_uint64 :: "nanocbor_encoder \<Rightarrow> u64 \<Rightarrow> byte \<Rightarrow> (int \<times> nanocbor_encoder) run" where
  "fmt_uint64 enc num type =
     (let (type, extrabytes) =
        (if num < ucast NANOCBOR_SIZE_BYTE then (type OR ucast num, 0)
         else if num > 0xFFFFFFFF then (type OR NANOCBOR_SIZE_LONG, 8)
         else if num > 0xFFFF then (type OR NANOCBOR_SIZE_WORD, 4)
         else if num > 0xFF then (type OR NANOCBOR_SIZE_SHORT, 2)
         else (type OR NANOCBOR_SIZE_BYTE, 1 :: nat));
        (res, enc) = fits enc (word_of_nat (extrabytes + 1))
      in if res > 0 then
           run_bind (enc_emit enc [type]) (\<lambda>enc.
           let benum = bswap64 num in
           run_bind (enc_emit enc (drop (8 - extrabytes) (le_bytes 8 benum))) (\<lambda>enc.
           Ret (res, enc)))
         else Ret (res, enc))"

definition nanocbor_fmt_uint :: "nanocbor_encoder \<Rightarrow> u64 \<Rightarrow> (int \<times> nanocbor_encoder) run" where
  "nanocbor_fmt_uint enc num = fmt_uint64 enc num (NANOCBOR_MASK NANOCBOR_TYPE_UINT)"

definition nanocbor_fmt_tag :: "nanocbor_encoder \<Rightarrow> u64 \<Rightarrow> (int \<times> nanocbor_encoder) run" where
  "nanocbor_fmt_tag enc num = fmt_uint64 enc num (NANOCBOR_MASK NANOCBOR_TYPE_TAG)"

text \<open>\<open>int64_t num\<close> in two's complement.\<close>

definition nanocbor_fmt_int :: "nanocbor_encoder \<Rightarrow> u64 \<Rightarrow> (int \<times> nanocbor_encoder) run" where
  "nanocbor_fmt_int enc num =
     (if sint num < 0 then fmt_uint64 enc (- (num + 1)) (NANOCBOR_MASK NANOCBOR_TYPE_NINT)
      else nanocbor_fmt_uint enc num)"

definition nanocbor_fmt_bstr :: "nanocbor_encoder \<Rightarrow> u64 \<Rightarrow> (int \<times> nanocbor_encoder) run" where
  "nanocbor_fmt_bstr enc len = fmt_uint64 enc len (NANOCBOR_MASK NANOCBOR_TYPE_BSTR)"

definition nanocbor_fmt_tstr :: "nanocbor_encoder \<Rightarrow> u64 \<Rightarrow> (int \<times> nanocbor_encoder) run" where
  "nanocbor_fmt_tstr enc len = fmt_uint64 enc len (NANOCBOR_MASK NANOCBOR_TYPE_TSTR)"

definition put_bytes :: "nanocbor_encoder \<Rightarrow> bytes \<Rightarrow> u64 \<Rightarrow> (int \<times> nanocbor_encoder) run" where
  "put_bytes enc str len =
     (let (res, enc) = fits enc len in
      if res \<ge> 0 then
        run_bind (rd 0 (unat len) str) (\<lambda>src.
        run_bind (enc_emit enc src) (\<lambda>enc. Ret (NANOCBOR_OK, enc)))
      else Ret (res, enc))"

definition nanocbor_put_tstr :: "nanocbor_encoder \<Rightarrow> bytes \<Rightarrow> (int \<times> nanocbor_encoder) run" where
  "nanocbor_put_tstr enc str =
     run_bind (c_strlen str) (\<lambda>n. let len = word_of_nat n in
     run_bind (nanocbor_fmt_tstr enc len) (\<lambda>(_, enc). put_bytes enc str len))"

definition nanocbor_put_tstrn :: "nanocbor_encoder \<Rightarrow> bytes \<Rightarrow> u64 \<Rightarrow> (int \<times> nanocbor_encoder) run" where
  "nanocbor_put_tstrn enc str len =
     run_bind (nanocbor_fmt_tstr enc len) (\<lambda>(_, enc). put_bytes enc str len)"

definition nanocbor_put_bstr :: "nanocbor_encoder \<Rightarrow> bytes \<Rightarrow> u64 \<Rightarrow> (int \<times> nanocbor_encoder) run" where
  "nanocbor_put_bstr enc str len =
     run_bind (nanocbor_fmt_bstr enc len) (\<lambda>(_, enc). put_bytes enc str len)"

definition nanocbor_fmt_array :: "nanocbor_encoder \<Rightarrow> u64 \<Rightarrow> (int \<times> nanocbor_encoder) run" where
  "nanocbor_fmt_array enc len = fmt_uint64 enc len (NANOCBOR_MASK NANOCBOR_TYPE_ARR)"

definition nanocbor_fmt_map :: "nanocbor_encoder \<Rightarrow> u64 \<Rightarrow> (int \<times> nanocbor_encoder) run" where
  "nanocbor_fmt_map enc len = fmt_uint64 enc len (NANOCBOR_MASK NANOCBOR_TYPE_MAP)"

definition nanocbor_fmt_array_indefinite :: "nanocbor_encoder \<Rightarrow> (int \<times> nanocbor_encoder) run" where
  "nanocbor_fmt_array_indefinite enc =
     fmt_single enc (NANOCBOR_MASK NANOCBOR_TYPE_ARR OR NANOCBOR_SIZE_INDEFINITE)"

definition nanocbor_fmt_map_indefinite :: "nanocbor_encoder \<Rightarrow> (int \<times> nanocbor_encoder) run" where
  "nanocbor_fmt_map_indefinite enc =
     fmt_single enc (NANOCBOR_MASK NANOCBOR_TYPE_MAP OR NANOCBOR_SIZE_INDEFINITE)"

definition nanocbor_fmt_end_indefinite :: "nanocbor_encoder \<Rightarrow> (int \<times> nanocbor_encoder) run" where
  "nanocbor_fmt_end_indefinite enc =
     fmt_single enc (NANOCBOR_MASK NANOCBOR_TYPE_FLOAT OR NANOCBOR_SIZE_INDEFINITE)"

definition nanocbor_fmt_null :: "nanocbor_encoder \<Rightarrow> (int \<times> nanocbor_encoder) run" where
  "nanocbor_fmt_null enc = fmt_single enc (NANOCBOR_MASK NANOCBOR_TYPE_FLOAT OR NANOCBOR_SIMPLE_NULL)"

subsection \<open>Floats\<close>

abbreviation (input) FLOAT_EXP_OFFSET :: nat where "FLOAT_EXP_OFFSET \<equiv> 127"
abbreviation (input) HALF_EXP_OFFSET :: nat where "HALF_EXP_OFFSET \<equiv> 15"
abbreviation (input) DOUBLE_EXP_OFFSET :: nat where "DOUBLE_EXP_OFFSET \<equiv> 1023"

definition single_is_inf_nan :: "byte \<Rightarrow> bool" where
  "single_is_inf_nan exp \<longleftrightarrow> exp = 0xFF"

definition single_is_zero :: "u32 \<Rightarrow> bool" where
  "single_is_zero num \<longleftrightarrow> num AND NOT (push_bit 31 1) = 0"

text \<open>\<open>(-HALF_EXP_OFFSET + 1) + FLOAT_EXP_OFFSET\<close> is computed on \<open>unsigned int\<close> and is 113.\<close>

definition single_in_range :: "byte \<Rightarrow> u32 \<Rightarrow> bool" where
  "single_in_range exp num \<longleftrightarrow>
     unat exp \<le> HALF_EXP_OFFSET + FLOAT_EXP_OFFSET \<and>
     (ucast exp :: u32) \<ge> - word_of_nat HALF_EXP_OFFSET + 1 + word_of_nat FLOAT_EXP_OFFSET \<and>
     num AND 0x1FFF = 0"

definition fmt_halffloat :: "nanocbor_encoder \<Rightarrow> u16 \<Rightarrow> (int \<times> nanocbor_encoder) run" where
  "fmt_halffloat enc half =
     (let (res, enc) = fits enc 3 in
      if res > 0 then
        run_bind (enc_emit enc [NANOCBOR_MASK NANOCBOR_TYPE_FLOAT OR NANOCBOR_SIZE_SHORT]) (\<lambda>enc.
        run_bind (enc_emit enc [ucast (drop_bit 8 half)]) (\<lambda>enc.
        run_bind (enc_emit enc [ucast (half AND 0xFF)]) (\<lambda>enc.
        Ret (3, enc))))
      else Ret (res, enc))"

definition double_is_inf_nan :: "u16 \<Rightarrow> bool" where
  "double_is_inf_nan exp \<longleftrightarrow> exp = 0x7FF"

definition double_is_zero :: "u64 \<Rightarrow> bool" where
  "double_is_zero num \<longleftrightarrow> num AND NOT (push_bit 63 1) = 0"

definition double_in_range :: "u16 \<Rightarrow> u64 \<Rightarrow> bool" where
  "double_in_range exp num \<longleftrightarrow>
     unat exp \<le> DOUBLE_EXP_OFFSET + FLOAT_EXP_OFFSET \<and>
     unat exp \<ge> DOUBLE_EXP_OFFSET - FLOAT_EXP_OFFSET + 1 \<and>
     num AND 0x1FFFFFFF = 0"

text \<open>The half-precision bits the code builds from a single-precision pattern.\<close>

definition half_of_single :: "u32 \<Rightarrow> u16" where
  "half_of_single unum =
     (let exp = ucast (drop_bit 23 unum AND 0xFF) :: byte;
          half = ucast (drop_bit (32 - 16) unum AND push_bit 15 1) :: u16;
          exp = (if exp \<noteq> 0xFF \<and> exp \<noteq> 0
                 then exp + (word_of_nat HALF_EXP_OFFSET - word_of_nat FLOAT_EXP_OFFSET) else exp)
      in half OR (push_bit 10 (ucast (exp AND 0x1F)) OR
                  ucast (drop_bit (23 - 10) unum AND 0x3FF)))"

definition nanocbor_fmt_float :: "nanocbor_encoder \<Rightarrow> u32 \<Rightarrow> (int \<times> nanocbor_encoder) run" where
  "nanocbor_fmt_float enc unum =
     (let exp = ucast (drop_bit 23 unum AND 0xFF) :: byte in
      if single_is_inf_nan exp \<or> single_is_zero unum \<or> single_in_range exp unum
      then fmt_halffloat enc (half_of_single unum)
      else let (res, enc) = fits enc 5 in
        if res > 0 then
          run_bind (enc_emit enc [NANOCBOR_MASK NANOCBOR_TYPE_FLOAT OR NANOCBOR_SIZE_WORD]) (\<lambda>enc.
          run_bind (enc_emit enc (le_bytes 4 (bswap32 unum))) (\<lambda>enc.
          Ret (res, enc)))
        else Ret (res, enc))"

text \<open>The single-precision bits built from a double-precision pattern.\<close>

definition single_of_double :: "u64 \<Rightarrow> u32" where
  "single_of_double unum =
     (let exp = ucast (drop_bit 52 unum AND 0x7FF) :: u16;
          single = ucast (drop_bit (64 - 32) unum AND push_bit 31 1) :: u32;
          exp = (if exp \<noteq> 0x7FF \<and> exp \<noteq> 0
                 then exp + word_of_nat FLOAT_EXP_OFFSET - word_of_nat DOUBLE_EXP_OFFSET else exp)
      in single OR (push_bit 23 (ucast exp AND 0xFF) OR
                    ucast (drop_bit (52 - 23) unum AND 0x7FFFFF)))"

definition nanocbor_fmt_double :: "nanocbor_encoder \<Rightarrow> u64 \<Rightarrow> (int \<times> nanocbor_encoder) run" where
  "nanocbor_fmt_double enc unum =
     (let exp = ucast (drop_bit 52 unum AND 0x7FF) :: u16 in
      if double_is_inf_nan exp \<or> double_is_zero unum \<or> double_in_range exp unum
      then nanocbor_fmt_float enc (single_of_double unum)
      else let (res, enc) = fits enc 9 in
        if res > 0 then
          run_bind (enc_emit enc [NANOCBOR_MASK NANOCBOR_TYPE_FLOAT OR NANOCBOR_SIZE_LONG]) (\<lambda>enc.
          run_bind (enc_emit enc (le_bytes 8 (bswap64 unum))) (\<lambda>enc.
          Ret (res, enc)))
        else Ret (res, enc))"

text \<open>\<open>int32_t\<close> exponent and mantissa, sign-extended to the \<open>int64_t\<close> of \<open>nanocbor_fmt_int\<close>.\<close>

definition nanocbor_fmt_decimal_frac ::
  "nanocbor_encoder \<Rightarrow> u32 \<Rightarrow> u32 \<Rightarrow> (int \<times> nanocbor_encoder) run" where
  "nanocbor_fmt_decimal_frac enc e m =
     run_bind (nanocbor_fmt_tag enc NANOCBOR_TAG_DEC_FRAC) (\<lambda>(r1, enc).
     run_bind (nanocbor_fmt_array enc 2) (\<lambda>(r2, enc).
     run_bind (nanocbor_fmt_int enc (scast e)) (\<lambda>(r3, enc).
     run_bind (nanocbor_fmt_int enc (scast m)) (\<lambda>(r4, enc).
     Ret (r1 + r2 + r3 + r4, enc)))))"

section \<open>What an operation writes\<close>

text \<open>
  The invariant of a context: the position is within the buffer, and the buffer is an
  object of the machine.
\<close>

definition enc_wf :: "nanocbor_encoder \<Rightarrow> bool" where
  "enc_wf enc \<longleftrightarrow>
     enc_cur enc \<le> enc_end enc \<and> enc_end enc \<le> length (enc_buf enc) \<and> length (enc_buf enc) < 2 ^ 63"

text \<open>Writing an item of bytes \<open>bs\<close>: all of it or nothing.\<close>

definition put_item :: "nanocbor_encoder \<Rightarrow> bytes \<Rightarrow> int \<times> nanocbor_encoder" where
  "put_item enc bs =
     (if enc_cur enc + length bs \<le> enc_end enc
      then (int (length bs),
            enc\<lparr>enc_buf := take (enc_cur enc) (enc_buf enc) @ bs @
                            drop (enc_cur enc + length bs) (enc_buf enc),
                enc_cur := enc_cur enc + length bs,
                enc_len := enc_len enc + word_of_nat (length bs)\<rparr>)
      else (NANOCBOR_ERR_END, enc\<lparr>enc_len := enc_len enc + word_of_nat (length bs)\<rparr>))"

text \<open>The head of an item: major type (shifted) and argument, in the shortest form.\<close>

definition head_bytes :: "byte \<Rightarrow> u64 \<Rightarrow> bytes" where
  "head_bytes type num =
     (if unat num < 24 then [type OR ucast num]
      else if unat num < 2 ^ 8 then (type OR NANOCBOR_SIZE_BYTE) # be_bytes 1 num
      else if unat num < 2 ^ 16 then (type OR NANOCBOR_SIZE_SHORT) # be_bytes 2 num
      else if unat num < 2 ^ 32 then (type OR NANOCBOR_SIZE_WORD) # be_bytes 4 num
      else (type OR NANOCBOR_SIZE_LONG) # be_bytes 8 num)"

lemma enc_wf_put_item: "enc_wf enc \<Longrightarrow> enc_wf (snd (put_item enc bs))"
  by (auto simp: enc_wf_def put_item_def)

lemma put_item_fixed [simp]:
  "enc_end (snd (put_item enc bs)) = enc_end enc"
  "enc_len (snd (put_item enc bs)) = enc_len enc + word_of_nat (length bs)"
  by (simp_all add: put_item_def)

lemma room_eq:
  assumes "enc_wf enc"
  shows "(word_of_nat (enc_end enc) - word_of_nat (enc_cur enc) :: u64) \<ge> len \<longleftrightarrow>
    enc_cur enc + unat len \<le> enc_end enc"
proof -
  have "(word_of_nat (enc_end enc) - word_of_nat (enc_cur enc) :: u64) =
      word_of_nat (enc_end enc - enc_cur enc)"
    using assms by (simp add: enc_wf_def of_nat_diff)
  moreover have "unat (word_of_nat (enc_end enc - enc_cur enc) :: u64) = enc_end enc - enc_cur enc"
    using assms by (intro unat_word_of_nat) (auto simp: enc_wf_def)
  ultimately show ?thesis using assms by (auto simp: word_le_nat_alt enc_wf_def)
qed

lemma fits_eq:
  assumes "enc_wf enc" and "unat len < 2 ^ 31"
  shows "fits enc len =
    (if enc_cur enc + unat len \<le> enc_end enc then int (unat len) else NANOCBOR_ERR_END,
     enc\<lparr>enc_len := enc_len enc + len\<rparr>)"
  using assms by (simp add: fits_def room_eq c_int_small)

lemma enc_emit_emit:
  assumes "enc_cur enc + length (a @ b) \<le> length (enc_buf enc)"
  shows "run_bind (enc_emit enc a) (\<lambda>enc. run_bind (enc_emit enc b) f) =
    run_bind (enc_emit enc (a @ b)) f"
  using assms by (simp add: enc_emit_def ac_simps)

lemma put_item_emit:
  assumes "enc_wf enc" and "length bs < 2 ^ 31" and "bs \<noteq> []" and "n = word_of_nat (length bs)"
  shows "(let (res, enc) = fits enc n in
      if res > 0 then run_bind (enc_emit enc bs) (\<lambda>enc. Ret (res, enc)) else Ret (res, enc)) =
    Ret (put_item enc bs)"
proof -
  have n: "unat n = length bs" using assms(2,4) by (simp add: unat_of_nat)
  show ?thesis
    using assms fits_eq [OF assms(1), of n] n
    by (auto simp: put_item_def enc_emit_def enc_wf_def)
qed

lemma fmt_single_spec: "enc_wf enc \<Longrightarrow> fmt_single enc b = Ret (put_item enc [b])"
  using fits_eq [of enc 1] by (auto simp: fmt_single_def put_item_def enc_emit_def enc_wf_def)

lemma drop_bswap64: "k \<le> 8 \<Longrightarrow> drop (8 - k) (le_bytes 8 (bswap64 w)) = be_bytes k w"
  by (simp add: le_bytes_bswap64 drop_be_bytes)

text \<open>The head and its argument bytes are written together.\<close>

lemma fmt_head:
  assumes wf: "enc_wf enc" and k: "k \<le> 8" and res: "fits enc (word_of_nat (k + 1)) = (r, enc')"
  shows "(if r > 0 then run_bind (enc_emit enc' [t]) (\<lambda>enc.
        run_bind (enc_emit enc (drop (8 - k) (le_bytes 8 (bswap64 num)))) (\<lambda>enc. Ret (r, enc)))
      else Ret (r, enc')) = Ret (put_item enc (t # be_bytes k num))"
proof (cases "r > 0")
  case True
  have u: "unat (word_of_nat (k + 1) :: u64) = k + 1" using k by (intro unat_word_of_nat) simp
  then have room: "enc_cur enc + (k + 1) \<le> enc_end enc"
    and enc': "enc' = enc\<lparr>enc_len := enc_len enc + word_of_nat (k + 1)\<rparr>"
    using True res fits_eq [OF wf, of "word_of_nat (k + 1)"] k by (auto split: if_splits)
  have "run_bind (enc_emit enc' [t]) (\<lambda>enc. run_bind (enc_emit enc (be_bytes k num)) (\<lambda>enc. Ret (r, enc))) =
      run_bind (enc_emit enc' ([t] @ be_bytes k num)) (\<lambda>enc. Ret (r, enc))"
    using room wf enc' by (intro enc_emit_emit) (auto simp: enc_wf_def)
  then show ?thesis
    using True put_item_emit [OF wf, of "t # be_bytes k num" "word_of_nat (k + 1)"] k res
    by (simp add: drop_bswap64)
next
  case False
  then show ?thesis
    using put_item_emit [OF wf, of "t # be_bytes k num" "word_of_nat (k + 1)"] k res by simp
qed

lemma fmt_uint64_spec:
  assumes wf: "enc_wf enc"
  shows "fmt_uint64 enc num type = Ret (put_item enc (head_bytes type num))"
proof -
  note head = fmt_head [OF wf _ prod.collapse [symmetric]]
  have cmp: "num < ucast NANOCBOR_SIZE_BYTE \<longleftrightarrow> unat num < 24" "num > 0xFFFFFFFF \<longleftrightarrow> \<not> unat num < 2 ^ 32"
    "num > 0xFFFF \<longleftrightarrow> \<not> unat num < 2 ^ 16" "num > 0xFF \<longleftrightarrow> \<not> unat num < 2 ^ 8"
    by (auto simp: word_less_nat_alt)
  show ?thesis
    using head [of 0 "type OR ucast num" num] head [of 1 "type OR NANOCBOR_SIZE_BYTE" num]
      head [of 2 "type OR NANOCBOR_SIZE_SHORT" num] head [of 4 "type OR NANOCBOR_SIZE_WORD" num]
      head [of 8 "type OR NANOCBOR_SIZE_LONG" num]
    unfolding fmt_uint64_def cmp
    by (auto simp: Let_def case_prod_beta head_bytes_def be_bytes_def simp del: drop_bswap64)
qed

lemma fmt_halffloat_spec:
  assumes wf: "enc_wf enc"
  shows "fmt_halffloat enc h = Ret (put_item enc (0xF9 # be_bytes 2 h))"
proof -
  have b: "be_bytes 2 h = [ucast (drop_bit 8 h), ucast (h AND 0xFF)]"
  proof -
    have m: "(0xFF :: u16) = mask 8" by (simp add: mask_eq_exp_minus_1)
    show ?thesis unfolding m
      by (simp add: be_bytes_def le_bytes_def upt_rec)
         (rule bit_word_eqI, auto simp: bit_simps)
  qed
  let ?bs = "0xF9 # be_bytes 2 h"
  have "fmt_halffloat enc h = (let (res, enc) = fits enc 3 in
      if res > 0 then run_bind (enc_emit enc ?bs) (\<lambda>enc. Ret (res, enc)) else Ret (res, enc))"
    using fits_eq [OF wf, of 3] wf
    by (auto simp: fmt_halffloat_def Let_def enc_emit_def enc_wf_def b NANOCBOR_MASK_def)
  also have "\<dots> = Ret (put_item enc ?bs)"
    by (rule put_item_emit [OF wf]) simp_all
  finally show ?thesis .
qed

lemma le_bytes_bswap32: "le_bytes 4 (bswap32 w) = be_bytes 4 w"
  using le_bytes_le_word [of "be_bytes 4 w", where 'a = 32]
  by (simp add: bswap32_eq be_word_def be_bytes_def)

text \<open>What \<open>nanocbor_fmt_float\<close> and \<open>nanocbor_fmt_double\<close> write.\<close>

definition float_bytes :: "u32 \<Rightarrow> bytes" where
  "float_bytes unum =
     (let exp = ucast (drop_bit 23 unum AND 0xFF) in
      if single_is_inf_nan exp \<or> single_is_zero unum \<or> single_in_range exp unum
      then 0xF9 # be_bytes 2 (half_of_single unum) else 0xFA # be_bytes 4 unum)"

definition double_bytes :: "u64 \<Rightarrow> bytes" where
  "double_bytes unum =
     (let exp = ucast (drop_bit 52 unum AND 0x7FF) in
      if double_is_inf_nan exp \<or> double_is_zero unum \<or> double_in_range exp unum
      then float_bytes (single_of_double unum) else 0xFB # be_bytes 8 unum)"

lemma fmt_wide:
  assumes wf: "enc_wf enc" and "length bs < 100" and "n = word_of_nat (length bs + 1)"
  shows "(let (res, enc) = fits enc n in
      if res > 0 then run_bind (enc_emit enc [t]) (\<lambda>enc.
        run_bind (enc_emit enc bs) (\<lambda>enc. Ret (res, enc))) else Ret (res, enc)) =
    Ret (put_item enc (t # bs))"
proof -
  have u: "unat n = length bs + 1"
    unfolding assms(3) by (rule unat_word_of_nat) (use assms(2) in simp)
  have "(let (res, enc) = fits enc n in
      if res > 0 then run_bind (enc_emit enc [t]) (\<lambda>enc.
        run_bind (enc_emit enc bs) (\<lambda>enc. Ret (res, enc))) else Ret (res, enc)) =
    (let (res, enc) = fits enc n in
      if res > 0 then run_bind (enc_emit enc (t # bs)) (\<lambda>enc. Ret (res, enc)) else Ret (res, enc))"
    using fits_eq [OF wf, of n] wf u assms(2)
    by (auto simp: Let_def enc_wf_def enc_emit_emit [of _ "[t]" bs, simplified])
  also have "\<dots> = Ret (put_item enc (t # bs))"
    using assms by (intro put_item_emit) simp_all
  finally show ?thesis .
qed

lemma float_heads:
  "NANOCBOR_MASK NANOCBOR_TYPE_FLOAT OR NANOCBOR_SIZE_WORD = 0xFA"
  "NANOCBOR_MASK NANOCBOR_TYPE_FLOAT OR NANOCBOR_SIZE_LONG = 0xFB"
  by (simp_all add: NANOCBOR_MASK_def)

lemma fmt_float_spec:
  assumes wf: "enc_wf enc"
  shows "nanocbor_fmt_float enc unum = Ret (put_item enc (float_bytes unum))"
  using fmt_wide [OF wf, of "be_bytes 4 unum" 5 "0xFA"]
  unfolding nanocbor_fmt_float_def float_bytes_def fmt_halffloat_spec [OF wf] Let_def
    le_bytes_bswap32 float_heads
  by simp

lemma fmt_double_spec:
  assumes wf: "enc_wf enc"
  shows "nanocbor_fmt_double enc unum = Ret (put_item enc (double_bytes unum))"
  using fmt_wide [OF wf, of "be_bytes 8 unum" 9 "0xFB"]
  unfolding nanocbor_fmt_double_def double_bytes_def fmt_float_spec [OF wf] Let_def
    le_bytes_bswap64 float_heads
  by simp

section \<open>Sequences of operations\<close>

datatype enc_op =
    OpUint u64 | OpTag u64 | OpInt u64 | OpBool bool | OpNull
  | OpArray u64 | OpMap u64 | OpArrayIndef | OpMapIndef | OpEndIndef
  | OpFmtBstr u64 | OpFmtTstr u64 | OpFloat u32 | OpDouble u64

fun run_op :: "nanocbor_encoder \<Rightarrow> enc_op \<Rightarrow> (int \<times> nanocbor_encoder) run" where
  "run_op enc (OpUint n) = nanocbor_fmt_uint enc n"
| "run_op enc (OpTag n) = nanocbor_fmt_tag enc n"
| "run_op enc (OpInt n) = nanocbor_fmt_int enc n"
| "run_op enc (OpBool b) = nanocbor_fmt_bool enc b"
| "run_op enc OpNull = nanocbor_fmt_null enc"
| "run_op enc (OpArray n) = nanocbor_fmt_array enc n"
| "run_op enc (OpMap n) = nanocbor_fmt_map enc n"
| "run_op enc OpArrayIndef = nanocbor_fmt_array_indefinite enc"
| "run_op enc OpMapIndef = nanocbor_fmt_map_indefinite enc"
| "run_op enc OpEndIndef = nanocbor_fmt_end_indefinite enc"
| "run_op enc (OpFmtBstr n) = nanocbor_fmt_bstr enc n"
| "run_op enc (OpFmtTstr n) = nanocbor_fmt_tstr enc n"
| "run_op enc (OpFloat n) = nanocbor_fmt_float enc n"
| "run_op enc (OpDouble n) = nanocbor_fmt_double enc n"

fun op_bytes :: "enc_op \<Rightarrow> bytes" where
  "op_bytes (OpUint n) = head_bytes 0x00 n"
| "op_bytes (OpTag n) = head_bytes 0xC0 n"
| "op_bytes (OpInt n) = (if sint n < 0 then head_bytes 0x20 (NOT n) else head_bytes 0x00 n)"
| "op_bytes (OpBool b) = [if b then 0xF5 else 0xF4]"
| "op_bytes OpNull = [0xF6]"
| "op_bytes (OpArray n) = head_bytes 0x80 n"
| "op_bytes (OpMap n) = head_bytes 0xA0 n"
| "op_bytes OpArrayIndef = [0x9F]"
| "op_bytes OpMapIndef = [0xBF]"
| "op_bytes OpEndIndef = [0xFF]"
| "op_bytes (OpFmtBstr n) = head_bytes 0x40 n"
| "op_bytes (OpFmtTstr n) = head_bytes 0x60 n"
| "op_bytes (OpFloat n) = float_bytes n"
| "op_bytes (OpDouble n) = double_bytes n"

lemma run_op_spec: "enc_wf enc \<Longrightarrow> run_op enc x = Ret (put_item enc (op_bytes x))"
  by (cases x)
     (simp_all add: nanocbor_fmt_uint_def nanocbor_fmt_tag_def nanocbor_fmt_int_def
       nanocbor_fmt_bool_def nanocbor_fmt_null_def nanocbor_fmt_array_def nanocbor_fmt_map_def
       nanocbor_fmt_array_indefinite_def nanocbor_fmt_map_indefinite_def
       nanocbor_fmt_end_indefinite_def nanocbor_fmt_bstr_def nanocbor_fmt_tstr_def
       fmt_uint64_spec fmt_single_spec fmt_float_spec fmt_double_spec NANOCBOR_MASK_def
       minus_eq_not_minus_1)

text \<open>Running a list of operations, ignoring the statuses as a sizing pass does.\<close>

fun run_ops :: "nanocbor_encoder \<Rightarrow> enc_op list \<Rightarrow> nanocbor_encoder run" where
  "run_ops enc [] = Ret enc"
| "run_ops enc (x # xs) = run_bind (run_op enc x) (\<lambda>(_, enc). run_ops enc xs)"

definition ops_bytes :: "enc_op list \<Rightarrow> bytes" where
  "ops_bytes xs = concat (map op_bytes xs)"

lemma run_ops_len:
  "enc_wf enc \<Longrightarrow> \<exists>enc'. run_ops enc xs = Ret enc' \<and> enc_wf enc' \<and>
     enc_len enc' = enc_len enc + word_of_nat (length (ops_bytes xs)) \<and>
     length (enc_buf enc') = length (enc_buf enc)"
proof (induction xs arbitrary: enc)
  case (Cons x xs)
  let ?e = "snd (put_item enc (op_bytes x))"
  have "length (enc_buf ?e) = length (enc_buf enc)"
    using Cons.prems by (auto simp: put_item_def enc_wf_def)
  then show ?case
    using Cons.IH [OF enc_wf_put_item [OF Cons.prems, of "op_bytes x"]] run_op_spec [OF Cons.prems, of x]
    by (auto simp: ops_bytes_def add.assoc case_prod_beta)
qed (simp add: ops_bytes_def)

lemma run_ops_write:
  assumes "enc_wf enc" and "enc_cur enc + length (ops_bytes xs) \<le> enc_end enc"
  shows "run_ops enc xs = Ret (snd (put_item enc (ops_bytes xs)))"
  using assms
proof (induction xs arbitrary: enc)
  case (Cons x xs)
  let ?e = "snd (put_item enc (op_bytes x))"
  have room: "enc_cur ?e + length (ops_bytes xs) \<le> enc_end ?e"
    using Cons.prems(2) by (auto simp: put_item_def ops_bytes_def)
  have "run_ops ?e xs = Ret (snd (put_item ?e (ops_bytes xs)))"
    using enc_wf_put_item [OF Cons.prems(1)] room by (rule Cons.IH)
  moreover have "snd (put_item ?e (ops_bytes xs)) = snd (put_item enc (ops_bytes (x # xs)))"
    using Cons.prems room by (auto simp: put_item_def ops_bytes_def enc_wf_def algebra_simps)
  ultimately show ?case
    using run_op_spec [OF Cons.prems(1), of x] by (simp add: case_prod_beta)
qed (simp add: ops_bytes_def put_item_def)

section \<open>Reachable contexts\<close>

text \<open>One call of any function of encoder.c on a context.\<close>

inductive enc_step :: "nanocbor_encoder \<Rightarrow> nanocbor_encoder \<Rightarrow> bool" where
  step_item: "run_op enc x = Ret (res, enc') \<Longrightarrow> enc_step enc enc'"
| step_tstr: "nanocbor_put_tstr enc str = Ret (res, enc') \<Longrightarrow> enc_step enc enc'"
| step_tstrn: "nanocbor_put_tstrn enc str len = Ret (res, enc') \<Longrightarrow> enc_step enc enc'"
| step_bstr: "nanocbor_put_bstr enc str len = Ret (res, enc') \<Longrightarrow> enc_step enc enc'"
| step_frac: "nanocbor_fmt_decimal_frac enc e m = Ret (res, enc') \<Longrightarrow> enc_step enc enc'"

text \<open>\<open>enc'\<close> has more written than \<open>enc\<close> and keeps what was there, before the position and behind the end.\<close>

definition extends :: "nanocbor_encoder \<Rightarrow> nanocbor_encoder \<Rightarrow> bool" where
  "extends enc enc' \<longleftrightarrow> enc_wf enc' \<and> enc_end enc' = enc_end enc \<and> length (enc_buf enc') = length (enc_buf enc) \<and>
     enc_cur enc \<le> enc_cur enc' \<and> take (enc_cur enc) (enc_buf enc') = take (enc_cur enc) (enc_buf enc) \<and>
     drop (enc_end enc) (enc_buf enc') = drop (enc_end enc) (enc_buf enc)"

lemma extends_refl: "enc_wf enc \<Longrightarrow> extends enc enc"
  by (simp add: extends_def)

lemma extends_wf: "extends enc enc' \<Longrightarrow> enc_wf enc'"
  by (simp add: extends_def)

lemma extends_trans [trans]: "extends a b \<Longrightarrow> extends b c \<Longrightarrow> extends a c"
  unfolding extends_def by (auto dest: arg_cong [where f = "take (enc_cur a)"])

lemma extends_put_item: "enc_wf enc \<Longrightarrow> extends enc (snd (put_item enc bs))"
  unfolding extends_def by (auto simp: enc_wf_put_item) (auto simp: put_item_def enc_wf_def)

lemma extends_op:
  assumes "enc_wf enc" and "run_op enc x = Ret (res, enc')"
  shows "extends enc enc'"
  using run_op_spec [OF assms(1), of x] extends_put_item [OF assms(1), of "op_bytes x"] assms(2)
  by (metis run.inject(1) snd_conv)

lemma put_bytes_extends:
  assumes wf: "enc_wf enc" and put: "put_bytes enc str len = Ret (res, enc')"
  shows "extends enc enc'"
proof -
  let ?e = "enc\<lparr>enc_len := enc_len enc + len\<rparr>"
  let ?src = "take (unat len) str"
  consider "enc' = ?e" | "enc_cur enc + length ?src \<le> enc_end enc" "enc_emit ?e ?src = Ret enc'"
    using put room_eq [OF wf, of len] by (auto simp: put_bytes_def fits_def Let_def split: if_splits)
  then show ?thesis
  proof cases
    case 2
    then show ?thesis using wf by (auto simp: extends_def enc_emit_def enc_wf_def)
  qed (use wf in \<open>simp add: extends_def enc_wf_def\<close>)
qed

lemma extends_head_bytes:
  assumes "enc_wf enc" and "run_bind (run_op enc x) (\<lambda>(_, enc). put_bytes enc str len) = Ret (res, enc')"
  shows "extends enc enc'"
proof -
  obtain r e where "run_op enc x = Ret (r, e)" and put: "put_bytes e str len = Ret (res, enc')"
    using assms(2) by (auto split: prod.splits)
  then have "extends enc e" using extends_op [OF assms(1)] by blast
  also have "extends e enc'" using extends_wf [OF calculation] put by (rule put_bytes_extends)
  finally show ?thesis .
qed

lemma extends_ops: "enc_wf enc \<Longrightarrow> run_ops enc xs = Ret enc' \<Longrightarrow> extends enc enc'"
proof (induction xs arbitrary: enc)
  case (Cons x xs)
  then obtain r e where "run_op enc x = Ret (r, e)" and e: "run_ops e xs = Ret enc'" by (auto split: prod.splits)
  then have "extends enc e" using extends_op [OF Cons.prems(1)] by blast
  also have "extends e enc'" using extends_wf [OF calculation] e by (rule Cons.IH)
  finally show ?case .
qed (simp add: extends_refl)

lemma extends_step: "enc_step enc enc' \<Longrightarrow> enc_wf enc \<Longrightarrow> extends enc enc'"
proof (induction rule: enc_step.induct)
  case (step_item enc x res enc')
  then show ?case by (rule extends_op [rotated])
next
  case (step_tstr enc str res enc')
  then obtain n where "run_bind (run_op enc (OpFmtTstr n)) (\<lambda>(_, enc). put_bytes enc str n) = Ret (res, enc')"
    by (auto simp: nanocbor_put_tstr_def Let_def)
  with step_tstr(2) show ?case by (rule extends_head_bytes)
next
  case (step_tstrn enc str len res enc')
  then show ?case using extends_head_bytes [of enc "OpFmtTstr len"] by (simp add: nanocbor_put_tstrn_def)
next
  case (step_bstr enc str len res enc')
  then show ?case using extends_head_bytes [of enc "OpFmtBstr len"] by (simp add: nanocbor_put_bstr_def)
next
  case (step_frac enc e m res enc')
  then have "run_ops enc [OpTag NANOCBOR_TAG_DEC_FRAC, OpArray 2, OpInt (scast e), OpInt (scast m)] = Ret enc'"
    by (auto simp: nanocbor_fmt_decimal_frac_def split: prod.splits)
  with step_frac(2) show ?case by (rule extends_ops)
qed

lemma extends_reachable: "enc_step\<^sup>*\<^sup>* enc enc' \<Longrightarrow> enc_wf enc \<Longrightarrow> extends enc enc'"
proof (induction rule: rtranclp_induct)
  case (step y z)
  then have y: "extends enc y" by simp
  also have "extends y z" using step.hyps(2) extends_wf [OF y] by (rule extends_step)
  finally show ?case .
qed (rule extends_refl)

lemma init_wf: "unat len \<le> length buf \<Longrightarrow> length buf < 2 ^ 63 \<Longrightarrow> enc_wf (nanocbor_encoder_init buf len)"
  by (simp add: enc_wf_def nanocbor_encoder_init_def)

text \<open>C27: Whatever sequence of encoder functions runs on a buffer of which \<open>len\<close> bytes are offered, the position stays
  within them, no byte behind them is written, and what has been written before some point of the
  sequence is not changed by any later call, whether the later calls succeed or not. No item writer
  can fault at any point.\<close>

theorem encoder_invariant:
  assumes "unat len \<le> length buf" and "length buf < 2 ^ 63"
    and "enc_step\<^sup>*\<^sup>* (nanocbor_encoder_init buf len) enc" and "enc_step\<^sup>*\<^sup>* enc enc'"
  shows "enc_cur enc \<le> enc_cur enc' \<and> enc_cur enc' \<le> unat len \<and> length (enc_buf enc') = length buf \<and>
    take (enc_cur enc) (enc_buf enc') = take (enc_cur enc) (enc_buf enc) \<and>
    drop (unat len) (enc_buf enc') = drop (unat len) buf \<and> (\<forall>x. \<exists>r. run_op enc' x = Ret r)"
proof -
  have ext: "extends (nanocbor_encoder_init buf len) enc"
    using assms(3) init_wf [OF assms(1,2)] by (rule extends_reachable)
  then have "extends enc enc'" using extends_reachable [OF assms(4)] extends_wf by blast
  with ext show ?thesis using run_op_spec extends_wf [of enc enc']
    by (auto simp: extends_def nanocbor_encoder_init_def enc_wf_def)
qed

theorem encoder_invariant_witness:
  "\<exists>enc'. enc_step (nanocbor_encoder_init [0, 0, 9] 2) enc' \<and> enc_cur enc' \<le> 2 \<and> drop 2 (enc_buf enc') = [9]"
proof -
  let ?i = "nanocbor_encoder_init [0, 0, 9] 2"
  obtain enc' where r: "run_op ?i (OpUint 300) = Ret (NANOCBOR_ERR_END, enc')"
    using run_op_spec [of ?i "OpUint 300"]
    by (simp add: enc_wf_def put_item_def nanocbor_encoder_init_def head_bytes_def)
  then have step: "enc_step ?i enc'" by (rule step_item)
  with encoder_invariant [of 2 "[0, 0, 9]" enc' enc'] show ?thesis by auto
qed

end
