(* ===== verification/Nanocbor_Decoder.thy ===== *)
theory Nanocbor_Decoder
  imports Nanocbor
begin

text \<open>
  The decoder of c/cardano/nanocbor/decoder.c over a buffer \<open>buf\<close>. Every operation returns
  the \<open>int\<close> of the C function (a byte count, \<open>NANOCBOR_OK\<close> or a negative error) with its
  outputs and the decoder context. The loops of \<open>nanocbor_skip\<close> and
  \<open>nanocbor_get_key_tstr\<close> take fuel, since they need not end (see the wrap-around property
  below); \<open>length buf + 1\<close> iterations are enough on every buffer without a string head
  whose length wraps.
\<close>

section \<open>Model\<close>

text \<open>The file's own \<open>strncmp\<close>; \<open>l\<close> and \<open>r\<close> are the objects the pointers point into.\<close>

fun strncmp_loop :: "bytes \<Rightarrow> bytes \<Rightarrow> nat \<Rightarrow> int run" where
  "strncmp_loop (a # l) (b # r) n =
     (if a \<noteq> 0 \<and> b \<noteq> 0 \<and> n \<noteq> 0 \<and> a = b then strncmp_loop l r (n - 1)
      else Ret (uint a - uint b))"
| "strncmp_loop _ _ n = Fault"

definition strncmp :: "bytes \<Rightarrow> bytes \<Rightarrow> nat \<Rightarrow> int run" where
  "strncmp l r n = (if n = 0 then Ret 0 else strncmp_loop l r (n - 1))"

definition nanocbor_decoder_init :: "nanocbor_value \<Rightarrow> u64 \<Rightarrow> nanocbor_value" where
  "nanocbor_decoder_init value len = value\<lparr>v_cur := 0, v_end := unat len, v_flags := 0\<rparr>"

definition advance :: "nanocbor_value \<Rightarrow> u32 \<Rightarrow> nanocbor_value" where
  "advance v res = v\<lparr>v_cur := v_cur v + unat res, v_remaining := v_remaining v - 1\<rparr>"

definition advance_if :: "nanocbor_value \<Rightarrow> int \<Rightarrow> int \<times> nanocbor_value" where
  "advance_if v res = (res, if res > 0 then advance v (word_of_int res) else v)"

definition over_end :: "nanocbor_value \<Rightarrow> bool" where
  "over_end it \<longleftrightarrow> v_cur it \<ge> v_end it"

definition get_type :: "bytes \<Rightarrow> nanocbor_value \<Rightarrow> byte run" where
  "get_type buf v = run_bind (rd1 (v_cur v) buf) (\<lambda>b. Ret (b AND NANOCBOR_TYPE_MASK))"

definition value_match_exact :: "bytes \<Rightarrow> nanocbor_value \<Rightarrow> byte \<Rightarrow> (int \<times> nanocbor_value) run" where
  "value_match_exact buf v val =
     (if over_end v then Ret (NANOCBOR_ERR_END, v)
      else run_bind (rd1 (v_cur v) buf) (\<lambda>b.
        if b = val then Ret (NANOCBOR_OK, advance v 1)
        else Ret (NANOCBOR_ERR_INVALID_TYPE, v)))"

definition nanocbor_at_end :: "bytes \<Rightarrow> nanocbor_value \<Rightarrow> bool run" where
  "nanocbor_at_end buf it =
     (if over_end it then Ret True
      else if nanocbor_container_indefinite it then
        run_bind (rd1 (v_cur it) buf) (\<lambda>b. Ret (b = 0xFF))
      else Ret (nanocbor_in_container it \<and> v_remaining it = 0))"

definition nanocbor_get_type :: "bytes \<Rightarrow> nanocbor_value \<Rightarrow> int run" where
  "nanocbor_get_type buf v =
     run_bind (nanocbor_at_end buf v) (\<lambda>e.
     if e then Ret NANOCBOR_ERR_END
     else run_bind (get_type buf v) (\<lambda>t. Ret (uint (drop_bit NANOCBOR_TYPE_OFFSET t))))"

text \<open>
  \<open>value\<close> is the memory the pointer points to, widened to 64 bits: a \<open>uint32_t\<close>, or the
  \<open>size_t\<close> or \<open>uint64_t\<close> that \<open>_get_str\<close> and \<open>_skip_simple\<close> pass by a cast. Stores through
  the \<open>uint32_t\<close> pointer only touch the low half.
\<close>

definition store_low32 :: "u64 \<Rightarrow> u64 \<Rightarrow> u64" where
  "store_low32 old x = push_bit 32 (drop_bit 32 old) OR x"

definition get_uint64 :: "bytes \<Rightarrow> nanocbor_value \<Rightarrow> u64 \<Rightarrow> byte \<Rightarrow> int \<Rightarrow> (int \<times> u64) run" where
  "get_uint64 buf v value maxb type =
     run_bind (nanocbor_get_type buf v) (\<lambda>ctype.
     if ctype < 0 then Ret (ctype, value)
     else if type \<noteq> ctype then Ret (NANOCBOR_ERR_INVALID_TYPE, value)
     else run_bind (rd1 (v_cur v) buf) (\<lambda>b.
       let bytelen = b AND NANOCBOR_VALUE_MASK in
       if bytelen < NANOCBOR_SIZE_BYTE then Ret (1, store_low32 value (ucast bytelen))
       else if bytelen > maxb then Ret (NANOCBOR_ERR_OVERFLOW, value)
       else let bytes = 2 ^ unat (bytelen - NANOCBOR_SIZE_BYTE) in
         if v_cur v + bytes \<ge> v_end v then Ret (NANOCBOR_ERR_END, value)
         else run_bind (rd (v_cur v + 1) bytes buf) (\<lambda>src.
           let tmp = bswap64 (le_word (replicate (8 - bytes) 0 @ src)) in
           Ret (int (1 + bytes), if bytes = 8 then tmp else store_low32 value tmp))))"

definition get_and_advance_uint8 :: "bytes \<Rightarrow> nanocbor_value \<Rightarrow> int \<Rightarrow> (int \<times> byte \<times> nanocbor_value) run" where
  "get_and_advance_uint8 buf v type =
     run_bind (get_uint64 buf v 0 NANOCBOR_SIZE_BYTE type) (\<lambda>(res, tmp).
     let (res, v) = advance_if v res in Ret (res, ucast tmp, v))"

definition get_and_advance_uint16 :: "bytes \<Rightarrow> nanocbor_value \<Rightarrow> int \<Rightarrow> (int \<times> u16 \<times> nanocbor_value) run" where
  "get_and_advance_uint16 buf v type =
     run_bind (get_uint64 buf v 0 NANOCBOR_SIZE_SHORT type) (\<lambda>(res, tmp).
     let (res, v) = advance_if v res in Ret (res, ucast tmp, v))"

definition get_and_advance_uint32 :: "bytes \<Rightarrow> nanocbor_value \<Rightarrow> int \<Rightarrow> (int \<times> u32 \<times> nanocbor_value) run" where
  "get_and_advance_uint32 buf v type =
     run_bind (get_uint64 buf v 0 NANOCBOR_SIZE_WORD type) (\<lambda>(res, tmp).
     let (res, v) = advance_if v res in Ret (res, ucast tmp, v))"

definition nanocbor_get_uint8 :: "bytes \<Rightarrow> nanocbor_value \<Rightarrow> (int \<times> byte \<times> nanocbor_value) run" where
  "nanocbor_get_uint8 buf v = get_and_advance_uint8 buf v NANOCBOR_TYPE_UINT"

definition nanocbor_get_uint16 :: "bytes \<Rightarrow> nanocbor_value \<Rightarrow> (int \<times> u16 \<times> nanocbor_value) run" where
  "nanocbor_get_uint16 buf v = get_and_advance_uint16 buf v NANOCBOR_TYPE_UINT"

definition nanocbor_get_uint32 :: "bytes \<Rightarrow> nanocbor_value \<Rightarrow> (int \<times> u32 \<times> nanocbor_value) run" where
  "nanocbor_get_uint32 buf v = get_and_advance_uint32 buf v NANOCBOR_TYPE_UINT"

text \<open>\<open>int32_t\<close> values are 32 bit words; \<open>old\<close> is what \<open>*value\<close> holds before the call. A number above the
  bound is stored too, although the call fails; the negation of \<open>2\<^sup>3\<^sup>1\<close>, undefined in C, wraps around here.\<close>

definition get_and_advance_int32 ::
  "bytes \<Rightarrow> nanocbor_value \<Rightarrow> u32 \<Rightarrow> byte \<Rightarrow> u32 \<Rightarrow> (int \<times> u32 \<times> nanocbor_value) run" where
  "get_and_advance_int32 buf v old maxb bound =
     run_bind (nanocbor_get_type buf v) (\<lambda>type.
     if type < 0 then Ret (type, old, v)
     else if type = NANOCBOR_TYPE_NINT \<or> type = NANOCBOR_TYPE_UINT then
       run_bind (get_uint64 buf v 0 maxb type) (\<lambda>(res, tmp).
       let intermediate = ucast tmp :: u32;
           res = (if intermediate > bound then NANOCBOR_ERR_OVERFLOW else res);
           value = (if type = NANOCBOR_TYPE_NINT then - intermediate - 1 else intermediate);
           (res, v) = advance_if v res
       in Ret (res, value, v))
     else Ret (NANOCBOR_ERR_INVALID_TYPE, old, v))"

definition nanocbor_get_int8 :: "bytes \<Rightarrow> nanocbor_value \<Rightarrow> (int \<times> byte \<times> nanocbor_value) run" where
  "nanocbor_get_int8 buf v =
     run_bind (get_and_advance_int32 buf v 0 NANOCBOR_SIZE_BYTE 127) (\<lambda>(res, tmp, v).
     Ret (res, ucast tmp, v))"

definition nanocbor_get_int16 :: "bytes \<Rightarrow> nanocbor_value \<Rightarrow> (int \<times> u16 \<times> nanocbor_value) run" where
  "nanocbor_get_int16 buf v =
     run_bind (get_and_advance_int32 buf v 0 NANOCBOR_SIZE_SHORT 32767) (\<lambda>(res, tmp, v).
     Ret (res, ucast tmp, v))"

definition nanocbor_get_int32 :: "bytes \<Rightarrow> nanocbor_value \<Rightarrow> u32 \<Rightarrow> (int \<times> u32 \<times> nanocbor_value) run" where
  "nanocbor_get_int32 buf v old = get_and_advance_int32 buf v old NANOCBOR_SIZE_WORD 0x7FFFFFFF"

definition nanocbor_get_tag :: "bytes \<Rightarrow> nanocbor_value \<Rightarrow> u32 \<Rightarrow> (int \<times> u32 \<times> nanocbor_value) run" where
  "nanocbor_get_tag buf v tag =
     run_bind (get_uint64 buf v (ucast tag) NANOCBOR_SIZE_WORD NANOCBOR_TYPE_TAG) (\<lambda>(res, tmp).
     if res \<ge> 0 then Ret (NANOCBOR_OK, ucast tmp, v\<lparr>v_cur := v_cur v + nat res\<rparr>)
     else Ret (res, ucast tmp, v))"

text \<open>\<open>NULL\<close> for \<open>*buf\<close> is \<open>None\<close>; the string pointer is an offset into the buffer.\<close>

definition get_str ::
  "bytes \<Rightarrow> nanocbor_value \<Rightarrow> nat option \<Rightarrow> int \<Rightarrow> (int \<times> nat option \<times> u64 \<times> nanocbor_value) run" where
  "get_str buf v ptr type =
     run_bind (get_uint64 buf v 0 NANOCBOR_SIZE_SIZET type) (\<lambda>(res, len).
     if v_end v < v_cur v \<or> (word_of_nat (v_end v - v_cur v) :: u64) < len + word_of_int res
     then Ret (NANOCBOR_ERR_END, ptr, len, v)
     else if res \<ge> 0 then
       Ret (NANOCBOR_OK, Some (v_cur v + nat res), len, advance v (ucast (word_of_int res + len)))
     else Ret (res, ptr, len, v))"

definition nanocbor_get_bstr ::
  "bytes \<Rightarrow> nanocbor_value \<Rightarrow> nat option \<Rightarrow> (int \<times> nat option \<times> u64 \<times> nanocbor_value) run" where
  "nanocbor_get_bstr buf v ptr = get_str buf v ptr NANOCBOR_TYPE_BSTR"

definition nanocbor_get_tstr ::
  "bytes \<Rightarrow> nanocbor_value \<Rightarrow> nat option \<Rightarrow> (int \<times> nat option \<times> u64 \<times> nanocbor_value) run" where
  "nanocbor_get_tstr buf v ptr = get_str buf v ptr NANOCBOR_TYPE_TSTR"

definition nanocbor_get_null :: "bytes \<Rightarrow> nanocbor_value \<Rightarrow> (int \<times> nanocbor_value) run" where
  "nanocbor_get_null buf v =
     value_match_exact buf v (NANOCBOR_MASK NANOCBOR_TYPE_FLOAT OR NANOCBOR_SIMPLE_NULL)"

definition nanocbor_get_bool :: "bytes \<Rightarrow> nanocbor_value \<Rightarrow> (int \<times> bool \<times> nanocbor_value) run" where
  "nanocbor_get_bool buf v =
     run_bind (value_match_exact buf v (NANOCBOR_MASK NANOCBOR_TYPE_FLOAT OR NANOCBOR_SIMPLE_FALSE)) (\<lambda>(res, v).
     if res < 0 then
       run_bind (value_match_exact buf v (NANOCBOR_MASK NANOCBOR_TYPE_FLOAT OR NANOCBOR_SIMPLE_TRUE)) (\<lambda>(res, v).
       Ret (res, True, v))
     else Ret (res, False, v))"

text \<open>
  \<open>container\<close> is the caller's variable before the call (often uninitialised); an error
  leaves its position and flags as they were.
\<close>

definition enter_container ::
  "bytes \<Rightarrow> nanocbor_value \<Rightarrow> nanocbor_value \<Rightarrow> int \<Rightarrow> (int \<times> nanocbor_value) run" where
  "enter_container buf it container type =
     (let container = container\<lparr>v_end := v_end it, v_remaining := 0\<rparr>;
          value_match = NANOCBOR_MASK type OR NANOCBOR_SIZE_INDEFINITE;
          definite =
            run_bind (get_uint64 buf it 0 NANOCBOR_SIZE_WORD type) (\<lambda>(res, remaining).
            let container = container\<lparr>v_remaining := ucast remaining\<rparr> in
            if res < 0 then Ret (res, container)
            else Ret (NANOCBOR_OK, container\<lparr>v_flags := NANOCBOR_DECODER_FLAG_CONTAINER,
                                             v_cur := v_cur it + nat res\<rparr>))
      in if over_end it then definite
         else run_bind (rd1 (v_cur it) buf) (\<lambda>b.
           if b = value_match then
             Ret (NANOCBOR_OK,
                  container\<lparr>v_flags := NANOCBOR_DECODER_FLAG_INDEFINITE OR NANOCBOR_DECODER_FLAG_CONTAINER,
                            v_cur := v_cur it + 1\<rparr>)
           else definite))"

definition nanocbor_enter_array ::
  "bytes \<Rightarrow> nanocbor_value \<Rightarrow> nanocbor_value \<Rightarrow> (int \<times> nanocbor_value) run" where
  "nanocbor_enter_array buf it array = enter_container buf it array NANOCBOR_TYPE_ARR"

definition nanocbor_enter_map ::
  "bytes \<Rightarrow> nanocbor_value \<Rightarrow> nanocbor_value \<Rightarrow> (int \<times> nanocbor_value) run" where
  "nanocbor_enter_map buf it mp =
     run_bind (enter_container buf it mp NANOCBOR_TYPE_MAP) (\<lambda>(res, mp).
     if v_remaining mp > 0x7FFFFFFF then Ret (NANOCBOR_ERR_OVERFLOW, mp)
     else Ret (res, mp\<lparr>v_remaining := v_remaining mp * 2\<rparr>))"

definition nanocbor_leave_container :: "nanocbor_value \<Rightarrow> nanocbor_value \<Rightarrow> nanocbor_value" where
  "nanocbor_leave_container it container =
     (let it = (if v_remaining it \<noteq> 0 then it\<lparr>v_remaining := v_remaining it - 1\<rparr> else it) in
      if nanocbor_container_indefinite container then it\<lparr>v_cur := v_cur container + 1\<rparr>
      else it\<lparr>v_cur := v_cur container\<rparr>)"

definition nanocbor_get_decimal_frac ::
  "bytes \<Rightarrow> nanocbor_value \<Rightarrow> u32 \<Rightarrow> u32 \<Rightarrow> nanocbor_value \<Rightarrow> (int \<times> u32 \<times> u32 \<times> nanocbor_value) run" where
  "nanocbor_get_decimal_frac buf v e m arr =
     run_bind (nanocbor_get_tag buf v 0xFFFFFFFF) (\<lambda>(r, tag, v).
     if r = NANOCBOR_OK \<and> tag = ucast NANOCBOR_TAG_DEC_FRAC then
       run_bind (nanocbor_enter_array buf v arr) (\<lambda>(r, arr).
       if r = NANOCBOR_OK then
         run_bind (nanocbor_get_int32 buf arr e) (\<lambda>(res, e, arr).
         if res \<ge> 0 then
           run_bind (nanocbor_get_int32 buf arr m) (\<lambda>(res, m, arr).
           Ret (if res \<ge> 0 then NANOCBOR_OK else res, e, m, nanocbor_leave_container v arr))
         else Ret (res, e, m, nanocbor_leave_container v arr))
       else Ret (NANOCBOR_NOT_FOUND, e, m, v))
     else Ret (NANOCBOR_NOT_FOUND, e, m, v))"

definition skip_simple :: "bytes \<Rightarrow> nanocbor_value \<Rightarrow> (int \<times> nanocbor_value) run" where
  "skip_simple buf it =
     run_bind (nanocbor_get_type buf it) (\<lambda>type.
     run_bind (get_uint64 buf it 0 NANOCBOR_SIZE_LONG type) (\<lambda>(res, _).
     Ret (advance_if it res)))"

definition nanocbor_skip_simple :: "bytes \<Rightarrow> nanocbor_value \<Rightarrow> (int \<times> nanocbor_value) run" where
  "nanocbor_skip_simple buf it = skip_simple buf it"

text \<open>
  \<open>skip_limited\<close> recurses at most \<open>limit\<close> deep; \<open>skip_loop\<close> is its \<open>while\<close> loop over the
  items of a container, one unit of fuel per iteration.
\<close>

function skip_limited :: "nat \<Rightarrow> bytes \<Rightarrow> nanocbor_value \<Rightarrow> nanocbor_value \<Rightarrow> nat \<Rightarrow> (int \<times> nanocbor_value) run"
  and skip_loop :: "nat \<Rightarrow> bytes \<Rightarrow> nanocbor_value \<Rightarrow> nat \<Rightarrow> int \<Rightarrow> nanocbor_value \<Rightarrow> (int \<times> nanocbor_value) run" where
  "skip_limited fuel buf it uninit limit =
     (if limit = 0 then Ret (NANOCBOR_ERR_RECURSION, it)
      else run_bind (nanocbor_get_type buf it) (\<lambda>type.
        if type = NANOCBOR_TYPE_BSTR \<or> type = NANOCBOR_TYPE_TSTR then
          run_bind (get_str buf it None type) (\<lambda>(res, _, _, it).
          Ret (if res < 0 then res else NANOCBOR_OK, it))
        else if type = NANOCBOR_TYPE_ARR \<or> type = NANOCBOR_TYPE_MAP then
          run_bind (if type = NANOCBOR_TYPE_MAP then nanocbor_enter_map buf it uninit
                    else nanocbor_enter_array buf it uninit) (\<lambda>(res, recurse).
          if res = NANOCBOR_OK then
            run_bind (skip_loop fuel buf recurse (limit - 1) NANOCBOR_OK uninit) (\<lambda>(res, recurse).
            Ret (if res < 0 then res else NANOCBOR_OK, nanocbor_leave_container it recurse))
          else Ret (if res < 0 then res else NANOCBOR_OK, it))
        else if type \<ge> 0 then
          run_bind (skip_simple buf it) (\<lambda>(res, it).
          Ret (if res < 0 then res else NANOCBOR_OK, it))
        else Ret (type, it)))"
| "skip_loop fuel buf recurse limit res uninit =
     (if fuel = 0 then NoFuel
      else run_bind (nanocbor_at_end buf recurse) (\<lambda>e.
        if e then Ret (res, recurse)
        else run_bind (skip_limited (fuel - 1) buf recurse uninit limit) (\<lambda>(res, recurse).
          if res < 0 then Ret (res, recurse)
          else skip_loop (fuel - 1) buf recurse limit res uninit)))"
  by pat_completeness auto
termination
  by (relation "measure (\<lambda>x. case x of
        Inl (fuel, _, _, _, limit) \<Rightarrow> fuel + limit
      | Inr (fuel, _, _, limit, _, _) \<Rightarrow> fuel + limit)") auto

declare skip_limited.simps [simp del] skip_loop.simps [simp del]

definition nanocbor_skip :: "nat \<Rightarrow> bytes \<Rightarrow> nanocbor_value \<Rightarrow> nanocbor_value \<Rightarrow> (int \<times> nanocbor_value) run" where
  "nanocbor_skip fuel buf it uninit = skip_limited fuel buf it uninit NANOCBOR_RECURSION_MAX"

definition nanocbor_get_subcbor ::
  "nat \<Rightarrow> bytes \<Rightarrow> nanocbor_value \<Rightarrow> nanocbor_value \<Rightarrow> (int \<times> nat \<times> u64 \<times> nanocbor_value) run" where
  "nanocbor_get_subcbor fuel buf it uninit =
     (let start = v_cur it in
      run_bind (nanocbor_skip fuel buf it uninit) (\<lambda>(res, it).
      Ret (res, start, word_of_nat (v_cur it) - word_of_nat start, it)))"

fun get_key_tstr_loop ::
  "nat \<Rightarrow> bytes \<Rightarrow> bytes \<Rightarrow> u64 \<Rightarrow> nanocbor_value \<Rightarrow> nanocbor_value \<Rightarrow> int \<Rightarrow> (int \<times> nanocbor_value) run" where
  "get_key_tstr_loop 0 buf key len value uninit res = NoFuel"
| "get_key_tstr_loop (Suc fuel) buf key len value uninit res =
     run_bind (nanocbor_at_end buf value) (\<lambda>e.
     if e then Ret (res, value)
     else run_bind (nanocbor_get_tstr buf value None) (\<lambda>(res, s, s_len, value).
       if res < 0 then Ret (res, value)
       else run_bind (if s_len = len then strncmp key (drop (the s) buf) (unat len) else Ret 1) (\<lambda>c.
         if c = 0 then Ret (NANOCBOR_OK, value)
         else run_bind (nanocbor_skip fuel buf value uninit) (\<lambda>(res, value).
           if res < 0 then Ret (res, value)
           else get_key_tstr_loop fuel buf key len value uninit res))))"

definition nanocbor_get_key_tstr ::
  "nat \<Rightarrow> bytes \<Rightarrow> nanocbor_value \<Rightarrow> bytes \<Rightarrow> nanocbor_value \<Rightarrow> (int \<times> nanocbor_value) run" where
  "nanocbor_get_key_tstr fuel buf start key uninit =
     run_bind (c_strlen key) (\<lambda>n.
     get_key_tstr_loop fuel buf key (word_of_nat n) start uninit NANOCBOR_NOT_FOUND)"

end
