(* ===== verification/Nanocbor_Safety.thy ===== *)
theory Nanocbor_Safety
  imports Nanocbor_Decoder
begin

text \<open>
  The decoder of c/cardano/nanocbor/decoder.c on arbitrary input: no operation reads outside
  of the buffer, each moves by what its head announces, and \<open>nanocbor_skip\<close> ends within
  \<open>length buf + 1\<close> loop iterations when no string head in the buffer announces a length that
  wraps around. The section before the properties shows what happens when one does.
\<close>

section \<open>Well-formed contexts\<close>

definition dec_wf :: "bytes \<Rightarrow> nanocbor_value \<Rightarrow> bool" where
  "dec_wf buf v \<longleftrightarrow> v_end v \<le> length buf \<and> length buf < 2 ^ 31"

text \<open>A context that moved forward from \<open>v\<close> to \<open>v'\<close> in the same buffer.\<close>

definition moved :: "nanocbor_value \<Rightarrow> nanocbor_value \<Rightarrow> bool" where
  "moved v v' \<longleftrightarrow> v_end v' = v_end v \<and> v_cur v \<le> v_cur v'"

lemma moved_refl [simp]: "moved v v"
  by (simp add: moved_def)

lemma moved_trans: "moved u v \<Longrightarrow> moved v w \<Longrightarrow> moved u w"
  by (auto simp: moved_def)

lemma dec_wf_moved: "dec_wf buf v \<Longrightarrow> moved v v' \<Longrightarrow> dec_wf buf v'"
  by (simp add: dec_wf_def moved_def)

lemma dec_wf_init:
  "unat len = length buf \<Longrightarrow> length buf < 2 ^ 31 \<Longrightarrow> dec_wf buf (nanocbor_decoder_init v len)"
  by (simp add: dec_wf_def nanocbor_decoder_init_def)

section \<open>Single items\<close>

lemma rd1_in: "dec_wf buf v \<Longrightarrow> \<not> over_end v \<Longrightarrow> rd1 (v_cur v) buf = Ret (buf ! v_cur v)"
  by (simp add: dec_wf_def over_end_def)

lemma at_end_Ret:
  "dec_wf buf v \<Longrightarrow> \<exists>e. nanocbor_at_end buf v = Ret e \<and> (\<not> e \<longrightarrow> v_cur v < v_end v)"
  by (auto simp: nanocbor_at_end_def over_end_def dec_wf_def)

text \<open>The major type in the upper three bits of a head byte.\<close>

definition major_type :: "byte \<Rightarrow> int" where
  "major_type b = uint (drop_bit 5 (b AND 0xE0))"

lemma major_type_range: "0 \<le> major_type b" "major_type b < 8"
proof -
  have "unat (b AND 0xE0) div 2 ^ 5 < 8"
    by (rule less_mult_imp_div_less) (use unat_byte_less [of "b AND 0xE0"] in \<open>simp del: unat_byte_less\<close>)
  then have "unat (drop_bit 5 (b AND 0xE0)) < 8" unfolding unat_drop_bit .
  then show "0 \<le> major_type b" "major_type b < 8" by (simp_all only: major_type_def uint_nat)
qed

lemma get_type_Ret:
  assumes wf: "dec_wf buf v"
  obtains (at_end) "nanocbor_get_type buf v = Ret NANOCBOR_ERR_END"
  | (item) "nanocbor_get_type buf v = Ret (major_type (buf ! v_cur v))"
      and "v_cur v < v_end v"
proof -
  obtain e where e: "nanocbor_at_end buf v = Ret e" "\<not> e \<Longrightarrow> v_cur v < v_end v"
    using at_end_Ret [OF wf] by blast
  show ?thesis
  proof (cases e)
    case True
    with e show ?thesis by (intro at_end) (simp add: nanocbor_get_type_def)
  next
    case False
    with e rd1_in [OF wf] show ?thesis
      by (intro item) (simp_all add: nanocbor_get_type_def get_type_def over_end_def major_type_def)
  qed
qed

text \<open>The body of \<open>_get_uint64\<close> once the major type has been found to match.\<close>

definition get_arg :: "bytes \<Rightarrow> nanocbor_value \<Rightarrow> u64 \<Rightarrow> byte \<Rightarrow> (int \<times> u64) run" where
  "get_arg buf v old maxb =
     run_bind (rd1 (v_cur v) buf) (\<lambda>b.
       let bytelen = b AND NANOCBOR_VALUE_MASK in
       if bytelen < NANOCBOR_SIZE_BYTE then Ret (1, store_low32 old (ucast bytelen))
       else if bytelen > maxb then Ret (NANOCBOR_ERR_OVERFLOW, old)
       else let bytes = 2 ^ unat (bytelen - NANOCBOR_SIZE_BYTE) in
         if v_cur v + bytes \<ge> v_end v then Ret (NANOCBOR_ERR_END, old)
         else run_bind (rd (v_cur v + 1) bytes buf) (\<lambda>src.
           let tmp = bswap64 (le_word (replicate (8 - bytes) 0 @ src)) in
           Ret (int (1 + bytes), if bytes = 8 then tmp else store_low32 old tmp)))"

lemma get_uint64_arg:
  "get_uint64 buf v old maxb type =
     run_bind (nanocbor_get_type buf v) (\<lambda>ctype.
     if ctype < 0 then Ret (ctype, old)
     else if type \<noteq> ctype then Ret (NANOCBOR_ERR_INVALID_TYPE, old)
     else get_arg buf v old maxb)"
  unfolding get_uint64_def get_arg_def by (rule refl)

lemma arg_width: "\<not> l < NANOCBOR_SIZE_BYTE \<Longrightarrow> \<not> l > maxb \<Longrightarrow> maxb \<le> NANOCBOR_SIZE_LONG \<Longrightarrow>
  (2 :: nat) ^ unat (l - NANOCBOR_SIZE_BYTE) \<le> 8"
proof -
  assume "\<not> l < NANOCBOR_SIZE_BYTE" "\<not> l > maxb" "maxb \<le> NANOCBOR_SIZE_LONG"
  then have "24 \<le> l" "l \<le> 27" by auto
  then have "unat (l - NANOCBOR_SIZE_BYTE) = unat l - 24" "unat l \<le> 27"
    by (simp_all add: unat_sub word_le_nat_alt)
  then have "(2 :: nat) ^ unat (l - NANOCBOR_SIZE_BYTE) \<le> 2 ^ 3" by (intro power_increasing) auto
  then show ?thesis by simp
qed

lemma get_arg_Ret:
  assumes wf: "dec_wf buf v" and maxb: "maxb \<le> NANOCBOR_SIZE_LONG" and cur: "v_cur v < v_end v"
  shows "(\<exists>res<0. get_arg buf v old maxb = Ret (res, old) \<and> -3 \<le> res) \<or>
    (\<exists>n x. get_arg buf v old maxb = Ret (int n, x) \<and> 0 < n \<and> n \<le> 9 \<and> v_cur v + n \<le> v_end v)"
proof -
  define l where "l = buf ! v_cur v AND NANOCBOR_VALUE_MASK"
  define n where "n = (2 :: nat) ^ unat (l - NANOCBOR_SIZE_BYTE)"
  have rd: "rd1 (v_cur v) buf = Ret (buf ! v_cur v)" using wf cur by (simp add: dec_wf_def)
  consider (short) "l < NANOCBOR_SIZE_BYTE" | (big) "\<not> l < NANOCBOR_SIZE_BYTE" "l > maxb"
    | (end_) "\<not> l < NANOCBOR_SIZE_BYTE" "\<not> l > maxb" "v_cur v + n \<ge> v_end v"
    | (arg) "\<not> l < NANOCBOR_SIZE_BYTE" "\<not> l > maxb" "v_cur v + n < v_end v"
    by linarith
  then show ?thesis
  proof cases
    case arg
    then have "n \<le> 8" using arg_width maxb by (simp add: n_def)
    moreover have "rd (v_cur v + 1) n buf = Ret (sub_bytes (v_cur v + 1) n buf)"
      using arg wf by (simp add: dec_wf_def)
    ultimately show ?thesis
      using arg by (intro disjI2 exI [of _ "1 + n"]) (simp add: get_arg_def rd Let_def flip: l_def n_def)
  qed (use cur in \<open>auto simp: get_arg_def rd Let_def simp flip: l_def n_def intro: exI [of _ 1]\<close>)
qed

text \<open>The head of an item: an error, or \<open>n\<close> bytes that lie in the buffer.\<close>

lemma get_uint64_Ret:
  assumes wf: "dec_wf buf v" and maxb: "maxb \<le> NANOCBOR_SIZE_LONG"
  obtains (err) res where "get_uint64 buf v old maxb type = Ret (res, old)" and "res < 0" and "-3 \<le> res"
  | (ok) n x where "get_uint64 buf v old maxb type = Ret (int n, x)" and "0 < n" and "n \<le> 9"
      and "v_cur v + n \<le> v_end v"
  using wf
proof (cases rule: get_type_Ret)
  case at_end
  then show ?thesis using err by (simp add: get_uint64_arg)
next
  case item
  then show ?thesis
    using err ok get_arg_Ret [OF wf maxb item(2), of old] major_type_range(1) [of "buf ! v_cur v"]
    by (cases "type = major_type (buf ! v_cur v)") (fastforce simp: get_uint64_arg)+
qed

text \<open>The size of a head, from its first byte: five bits hold a small argument, the mark of an indefinite
  length, or the number of argument bytes that follow.\<close>

definition head_size :: "byte \<Rightarrow> nat" where
  "head_size b = (let l = unat (b AND NANOCBOR_VALUE_MASK) in if l < 24 \<or> l = 31 then 1 else 1 + 2 ^ (l - 24))"

lemma get_arg_size:
  assumes eq: "get_arg buf v old maxb = Ret (int n, x)" and maxb: "maxb \<le> NANOCBOR_SIZE_LONG"
  shows "n = head_size (buf ! v_cur v)"
proof -
  define l where "l = buf ! v_cur v AND NANOCBOR_VALUE_MASK"
  have in_buf: "v_cur v < length buf" using eq by (auto simp: get_arg_def)
  show ?thesis
  proof (cases "l < NANOCBOR_SIZE_BYTE")
    case True
    then show ?thesis
      using eq in_buf by (simp add: get_arg_def head_size_def word_less_nat_alt flip: l_def)
  next
    case False
    define k where "k = (2 :: nat) ^ unat (l - NANOCBOR_SIZE_BYTE)"
    have "\<not> l > maxb" and n: "n = 1 + k"
      using eq False in_buf unfolding get_arg_def by (auto simp: Let_def simp flip: l_def k_def split: if_splits)
    then have "24 \<le> l" "l \<le> 27" using False maxb by auto
    then have "unat (l - NANOCBOR_SIZE_BYTE) = unat l - 24" "24 \<le> unat l" "unat l \<le> 27"
      by (simp_all add: unat_sub word_le_nat_alt)
    then show ?thesis using n by (simp add: head_size_def k_def Let_def flip: l_def)
  qed
qed

lemma get_uint64_size:
  assumes "get_uint64 buf v old maxb type = Ret (int n, x)" and "maxb \<le> NANOCBOR_SIZE_LONG"
  shows "n = head_size (buf ! v_cur v)"
proof -
  have "get_arg buf v old maxb = Ret (int n, x)"
    using assms(1) by (auto simp: get_uint64_arg split: if_splits)
  then show ?thesis using assms(2) by (rule get_arg_size)
qed

text \<open>
  A reader with the status \<open>st\<close> for success: an error leaves the context where it is, and success takes
  exactly \<open>k\<close> bytes, which lie in the buffer.
\<close>

definition took :: "nanocbor_value \<Rightarrow> nat \<Rightarrow> nanocbor_value \<Rightarrow> bool" where
  "took v k v' \<longleftrightarrow> 0 < k \<and> v_cur v + k \<le> v_end v \<and> v_cur v' = v_cur v + k \<and> v_end v' = v_end v"

definition reads :: "nanocbor_value \<Rightarrow> int \<Rightarrow> nat \<Rightarrow> int \<Rightarrow> nanocbor_value \<Rightarrow> bool" where
  "reads v st k res v' \<longleftrightarrow> (res < 0 \<and> v' = v) \<or> (res = st \<and> took v k v')"

lemma read_head:
  assumes "dec_wf buf v" and maxb: "maxb \<le> NANOCBOR_SIZE_LONG"
  defines "k \<equiv> head_size (buf ! v_cur v)"
  shows "\<exists>res x v'. get_uint64 buf v old maxb type = Ret (res, x) \<and> advance_if v res = (res, v') \<and>
    reads v (int k) k res v'"
  using assms(1,2)
proof (cases rule: get_uint64_Ret [where old = old and type = type])
  case (err res)
  then show ?thesis by (auto simp: advance_if_def reads_def)
next
  case (ok n x)
  then have "unat (word_of_int (int n) :: u32) = n" "n = k"
    using get_uint64_size [OF ok(1) maxb] by (simp_all add: unat_of_nat k_def)
  with ok show ?thesis by (auto simp: advance_if_def advance_def reads_def took_def)
qed

text \<open>The shape shared by the readers of one item.\<close>

lemma read_moved:
  assumes "dec_wf buf v" and "maxb \<le> NANOCBOR_SIZE_LONG"
  shows "\<exists>res x v'. get_uint64 buf v old maxb type = Ret (res, x) \<and> res \<le> 9 \<and>
    advance_if v res = (res, v') \<and> moved v v' \<and> (res > 0 \<longrightarrow> v_cur v < v_cur v' \<and> v_cur v' \<le> v_end v)"
  using assms
proof (cases rule: get_uint64_Ret [where old = old and type = type])
  case (err res)
  then show ?thesis by (auto simp: advance_if_def)
next
  case (ok n x)
  then have "unat (word_of_int (int n) :: u32) = n"
    by (simp add: unat_of_nat)
  with ok show ?thesis by (auto simp: advance_if_def advance_def moved_def)
qed

lemma skip_simple_moved:
  assumes wf: "dec_wf buf v"
  shows "\<exists>res v'. skip_simple buf v = Ret (res, v') \<and> moved v v' \<and>
    (res \<ge> 0 \<longrightarrow> v_cur v < v_cur v' \<and> v_cur v' \<le> v_end v)"
  using wf
proof (cases rule: get_type_Ret)
  case at_end
  then show ?thesis by (simp add: skip_simple_def get_uint64_def advance_if_def)
next
  case item
  have "\<exists>res x v'. get_uint64 buf v 0 NANOCBOR_SIZE_LONG (major_type (buf ! v_cur v)) = Ret (res, x) \<and>
      advance_if v res = (res, v') \<and> moved v v' \<and> res \<noteq> 0 \<and>
      (res > 0 \<longrightarrow> v_cur v < v_cur v' \<and> v_cur v' \<le> v_end v)"
    using wf order_refl
  proof (cases rule: get_uint64_Ret [where old = 0 and type = "major_type (buf ! v_cur v)"])
    case (err res)
    then show ?thesis by (simp add: advance_if_def)
  next
    case (ok n x)
    with read_moved [OF wf order_refl, of 0 "major_type (buf ! v_cur v)"] show ?thesis by auto
  qed
  with item show ?thesis by (fastforce simp: skip_simple_def)
qed

lemma get_int_moved:
  assumes wf: "dec_wf buf v" and maxb: "maxb \<le> NANOCBOR_SIZE_LONG"
  shows "\<exists>res x v'. get_and_advance_int32 buf v old maxb bound = Ret (res, x, v') \<and> moved v v' \<and>
    (res > 0 \<longrightarrow> v_cur v < v_cur v' \<and> v_cur v' \<le> v_end v)"
  using wf
proof (cases rule: get_type_Ret)
  case at_end
  then show ?thesis by (simp add: get_and_advance_int32_def)
next
  case item
  let ?t = "major_type (buf ! v_cur v)"
  obtain res x v' where r: "get_uint64 buf v 0 maxb ?t = Ret (res, x)" "advance_if v res = (res, v')"
    "moved v v'" "res > 0 \<longrightarrow> v_cur v < v_cur v' \<and> v_cur v' \<le> v_end v"
    using read_moved [OF wf maxb, of 0 ?t] by blast
  have neg: "advance_if v NANOCBOR_ERR_OVERFLOW = (NANOCBOR_ERR_OVERFLOW, v)"
    by (simp add: advance_if_def)
  show ?thesis
    using item r neg major_type_range(1) [of "buf ! v_cur v"]
    by (auto simp: get_and_advance_int32_def Let_def)
qed


section \<open>Strings\<close>

text \<open>
  The argument that a head announces: below \<open>2 ^ 32\<close> for the short forms, any 64 bit number
  for the form with eight argument bytes.
\<close>

lemma get_arg_value:
  assumes eq: "get_arg buf v 0 maxb = Ret (int n, x)" and maxb: "maxb \<le> NANOCBOR_SIZE_LONG"
  shows "unat x < 2 ^ 32 \<or> (n = 9 \<and> v_cur v + 9 \<le> length buf \<and>
    x = be_word (sub_bytes (v_cur v + 1) 8 buf))"
proof -
  define l where "l = buf ! v_cur v AND NANOCBOR_VALUE_MASK"
  define k where "k = (2 :: nat) ^ unat (l - NANOCBOR_SIZE_BYTE)"
  have in_buf: "v_cur v < length buf"
    using eq by (auto simp: get_arg_def)
  show ?thesis
  proof (cases "l < NANOCBOR_SIZE_BYTE")
    case True
    then have "x = ucast l" using eq in_buf by (simp add: get_arg_def store_low32_def flip: l_def)
    moreover have "unat (ucast l :: u64) < 2 ^ 32"
      using unat_byte_less [of l] by (simp add: unat_ucast_mod del: unat_byte_less)
    ultimately show ?thesis by simp
  next
    case False
    let ?src = "sub_bytes (v_cur v + 1) k buf"
    have *: "\<not> l > maxb" "\<not> v_cur v + k \<ge> v_end v" "v_cur v + 1 + k \<le> length buf"
      "n = 1 + k" "x = (if k = 8 then bswap64 (le_word (replicate (8 - k) 0 @ ?src))
        else store_low32 0 (bswap64 (le_word (replicate (8 - k) 0 @ ?src))))"
      using eq False in_buf unfolding get_arg_def
      by (auto simp: Let_def simp flip: l_def k_def split: if_splits)
    then have k8: "k \<le> 8" using arg_width False maxb by (simp add: k_def)
    have x: "x = be_word ?src"
      using * bswap64_pad [of ?src] k8 by (cases "k = 8") (simp_all add: store_low32_def)
    show ?thesis
    proof (cases "k = 8")
      case True
      then show ?thesis using * x by simp
    next
      case False
      have "k = 2 ^ unat (l - NANOCBOR_SIZE_BYTE)" by (simp add: k_def)
      moreover have "unat (l - NANOCBOR_SIZE_BYTE) \<noteq> 3" using False by (auto simp: k_def)
      moreover have "unat (l - NANOCBOR_SIZE_BYTE) \<le> 3"
      proof (rule ccontr)
        assume "\<not> ?thesis"
        then have "(2 :: nat) ^ 4 \<le> k" unfolding k_def by (intro power_increasing) auto
        then show False using k8 by simp
      qed
      ultimately have "unat (l - NANOCBOR_SIZE_BYTE) \<le> 2" by linarith
      then have "k \<le> 2 ^ 2" unfolding k_def by (intro power_increasing) auto
      then have "(2 :: nat) ^ (8 * k) \<le> 2 ^ 32" by (intro power_increasing) auto
      moreover have "unat x < 2 ^ (8 * k)"
        using unat_be_word_less [of ?src] * x by simp
      ultimately show ?thesis by simp
    qed
  qed
qed

text \<open>
  A string head whose announced length, added to the nine bytes of the head in \<open>size_t\<close>,
  wraps around. \<open>no_wrap\<close> says that the buffer holds none.
\<close>

definition head_wraps :: "bytes \<Rightarrow> nat \<Rightarrow> bool" where
  "head_wraps buf i \<longleftrightarrow> i + 9 \<le> length buf \<and>
     major_type (buf ! i) \<in> {NANOCBOR_TYPE_BSTR, NANOCBOR_TYPE_TSTR} \<and>
     2 ^ 64 \<le> unat (be_word (sub_bytes (i + 1) 8 buf) :: u64) + 9"

definition no_wrap :: "bytes \<Rightarrow> bool" where
  "no_wrap buf \<longleftrightarrow> (\<forall>i < length buf. \<not> head_wraps buf i)"

lemma unat_avail: "dec_wf buf v \<Longrightarrow> unat (word_of_nat (v_end v - v_cur v) :: u64) = v_end v - v_cur v"
  by (intro unat_word_of_nat) (auto simp: dec_wf_def)

lemma get_str_Ret:
  assumes wf: "dec_wf buf v"
  obtains (err) len where "get_str buf v ptr type = Ret (NANOCBOR_ERR_END, ptr, len, v)"
  | (ok) n len where "get_str buf v ptr type = Ret (NANOCBOR_OK, Some (v_cur v + n), len,
        v\<lparr>v_cur := v_cur v + unat (of_nat n + len), v_remaining := v_remaining v - 1\<rparr>)"
      and "0 < n" and "n \<le> 9" and "v_cur v + n \<le> v_end v"
      and "unat (of_nat n + len) \<le> v_end v - v_cur v"
      and "get_uint64 buf v 0 NANOCBOR_SIZE_SIZET type = Ret (int n, len)"
proof -
  let ?avail = "word_of_nat (v_end v - v_cur v) :: u64"
  have small: "unat ?avail < 2 ^ 31"
    unfolding unat_avail [OF wf] using wf by (auto simp: dec_wf_def)
  show ?thesis
    using wf order_refl
  proof (cases rule: get_uint64_Ret [where old = 0 and type = type])
    case (err res)
    then have "res \<in> {- 1, - 2, - 3}" by auto
    then have "word_of_int res \<in> {- 1, - 2, - 3 :: u64}" by auto
    moreover have "unat (- 1 :: u64) = 2 ^ 64 - 1" by (simp add: unsigned_minus_1_eq_mask mask_eq_exp_minus_1)
    ultimately have "2 ^ 64 - 3 \<le> unat (word_of_int res :: u64)" by auto
    then have "?avail < 0 + word_of_int res"
      using small by (simp add: word_less_nat_alt)
    with err show ?thesis by (intro that(1) [of 0]) (auto simp: get_str_def)
  next
    case (ok n len)
    show ?thesis
    proof (cases "v_end v < v_cur v \<or> ?avail < len + word_of_int (int n)")
      case True
      with ok show ?thesis by (intro that(1) [of len]) (auto simp: get_str_def)
    next
      case False
      then have le: "unat (of_nat n + len) \<le> v_end v - v_cur v"
        using unat_avail [OF wf] by (simp add: not_less word_le_nat_alt add.commute)
      then have "unat (ucast (of_nat n + len) :: u32) = unat (of_nat n + len)"
        using wf unfolding unat_ucast_mod dec_wf_def by (intro mod_less) auto
      then show ?thesis
        using ok False le by (intro that(2) [of n len]) (auto simp: get_str_def advance_def)
    qed
  qed
qed


lemma get_str_moved:
  assumes wf: "dec_wf buf v"
  shows "\<exists>res p len v'. get_str buf v ptr type = Ret (res, p, len, v') \<and> moved v v' \<and> res \<le> 0"
  using wf by (cases rule: get_str_Ret [where ptr = ptr and type = type]) (auto simp: moved_def)

text \<open>Without wrap-around a string that was read lies in the buffer, behind its head.\<close>

lemma get_str_slice:
  assumes wf: "dec_wf buf v" and nw: "no_wrap buf"
    and type: "type \<in> {NANOCBOR_TYPE_BSTR, NANOCBOR_TYPE_TSTR}"
    and eq: "get_str buf v ptr type = Ret (NANOCBOR_OK, p, len, v')"
  shows "\<exists>n. p = Some (v_cur v + n) \<and> 0 < n \<and> v_cur v + n + unat len \<le> v_end v \<and>
    v_cur v' = v_cur v + n + unat len"
  using wf
proof (cases rule: get_str_Ret [where ptr = ptr and type = type])
  case (err l)
  then show ?thesis using eq by simp
next
  case (ok n l)
  have [simp]: "l = len" using eq ok by simp
  have n: "unat (of_nat n :: u64) = n" using ok by (intro unat_word_of_nat) simp
  have arg: "get_arg buf v 0 NANOCBOR_SIZE_SIZET = Ret (int n, len)"
    and major: "major_type (buf ! v_cur v) = type" and cur: "v_cur v < v_end v"
    using wf ok by (cases rule: get_type_Ret; auto simp: get_uint64_arg split: if_splits)+
  have "n + unat len < 2 ^ 64"
    using get_arg_value [OF arg order_refl]
  proof
    assume "unat len < 2 ^ 32" then show ?thesis using ok by simp
  next
    assume *: "n = 9 \<and> v_cur v + 9 \<le> length buf \<and> len = be_word (sub_bytes (v_cur v + 1) 8 buf)"
    then have "\<not> head_wraps buf (v_cur v)"
      using nw cur wf by (auto simp: no_wrap_def dec_wf_def)
    then show ?thesis using * major type by (auto simp: head_wraps_def)
  qed
  then have "unat (of_nat n + len) = n + unat len"
    by (simp add: unat_word_ariths n)
  then show ?thesis using ok eq by auto
qed

text \<open>The argument of a head: the five bits themselves, or the bytes that follow in big endian order.\<close>

definition head_value :: "bytes \<Rightarrow> nat \<Rightarrow> nat" where
  "head_value buf i = (let l = unat (buf ! i AND NANOCBOR_VALUE_MASK) in
     if l < 24 then l else unat (be_word (sub_bytes (i + 1) (head_size (buf ! i) - 1) buf) :: u64))"

lemma get_arg_head_value:
  assumes eq: "get_arg buf v 0 maxb = Ret (int n, x)" and maxb: "maxb \<le> NANOCBOR_SIZE_LONG"
  shows "unat x = head_value buf (v_cur v)"
proof -
  define l where "l = buf ! v_cur v AND NANOCBOR_VALUE_MASK"
  define k where "k = (2 :: nat) ^ unat (l - NANOCBOR_SIZE_BYTE)"
  have in_buf: "v_cur v < length buf" using eq by (auto simp: get_arg_def)
  show ?thesis
  proof (cases "l < NANOCBOR_SIZE_BYTE")
    case True
    then have "x = ucast l" using eq in_buf by (simp add: get_arg_def store_low32_def flip: l_def)
    moreover have "unat (ucast l :: u64) = unat l"
      using unat_byte_less [of l] by (simp add: unat_ucast_mod del: unat_byte_less)
    ultimately show ?thesis using True by (simp add: head_value_def word_less_nat_alt flip: l_def)
  next
    case False
    let ?src = "sub_bytes (v_cur v + 1) k buf"
    have *: "\<not> l > maxb" "v_cur v + 1 + k \<le> length buf" "n = 1 + k"
      "x = (if k = 8 then bswap64 (le_word (replicate (8 - k) 0 @ ?src))
        else store_low32 0 (bswap64 (le_word (replicate (8 - k) 0 @ ?src))))"
      using eq False in_buf unfolding get_arg_def
      by (auto simp: Let_def simp flip: l_def k_def split: if_splits)
    have "k \<le> 8" using arg_width False maxb * by (simp add: k_def)
    then have "x = be_word ?src"
      using * bswap64_pad [of ?src] by (cases "k = 8") (simp_all add: store_low32_def)
    moreover have "k = head_size (buf ! v_cur v) - 1" using get_arg_size [OF eq maxb] *(3) by simp
    ultimately show ?thesis
      using False by (simp add: head_value_def Let_def word_less_nat_alt flip: l_def)
  qed
qed

lemma get_str_head:
  assumes wf: "dec_wf buf v" and eq: "get_str buf v ptr type = Ret (NANOCBOR_OK, p, len, v')"
  shows "p = Some (v_cur v + head_size (buf ! v_cur v))" and "unat len = head_value buf (v_cur v)"
    and "v_end v' = v_end v"
proof -
  obtain n where n: "p = Some (v_cur v + n)" "get_uint64 buf v 0 NANOCBOR_SIZE_SIZET type = Ret (int n, len)" "v_end v' = v_end v"
    using wf eq by (cases rule: get_str_Ret [where ptr = ptr and type = type]) auto
  have arg: "get_arg buf v 0 NANOCBOR_SIZE_SIZET = Ret (int n, len)"
    using n(2) by (auto simp: get_uint64_arg split: if_splits)
  show "p = Some (v_cur v + head_size (buf ! v_cur v))" "unat len = head_value buf (v_cur v)" "v_end v' = v_end v"
    using n get_arg_size [OF arg] get_arg_head_value [OF arg] by simp_all
qed

section \<open>Constants, tags and containers\<close>

lemma size_word_le: "NANOCBOR_SIZE_WORD \<le> NANOCBOR_SIZE_LONG"
  by simp

lemma enter_container_Ret:
  assumes wf: "dec_wf buf it"
  shows "\<exists>res c. enter_container buf it c0 type = Ret (res, c) \<and> v_end c = v_end it \<and> res \<le> 0 \<and>
    (res = 0 \<longrightarrow> v_cur it < v_cur c \<and> v_cur c \<le> v_end it)"
proof -
  let ?mark = "NANOCBOR_MASK type OR NANOCBOR_SIZE_INDEFINITE"
  show ?thesis
  proof (cases "\<not> over_end it \<and> buf ! v_cur it = ?mark")
    case True
    with rd1_in [OF wf] show ?thesis
      by (simp add: enter_container_def Let_def over_end_def)
  next
    case False
    show ?thesis
      using wf size_word_le
    proof (cases rule: get_uint64_Ret [where old = 0 and type = type])
      case (err res)
      with False rd1_in [OF wf] show ?thesis
        by (cases "over_end it") (auto simp: enter_container_def Let_def)
    next
      case (ok n x)
      with False rd1_in [OF wf] show ?thesis
        by (cases "over_end it") (auto simp: enter_container_def Let_def)
    qed
  qed
qed

lemma enter_array_Ret:
  assumes wf: "dec_wf buf it"
  shows "\<exists>res c. nanocbor_enter_array buf it c0 = Ret (res, c) \<and> v_end c = v_end it \<and> res \<le> 0 \<and>
    (res = 0 \<longrightarrow> v_cur it < v_cur c \<and> v_cur c \<le> v_end it)"
  unfolding nanocbor_enter_array_def by (rule enter_container_Ret [OF wf])

lemma enter_map_Ret:
  assumes wf: "dec_wf buf it"
  shows "\<exists>res c. nanocbor_enter_map buf it c0 = Ret (res, c) \<and> v_end c = v_end it \<and> res \<le> 0 \<and>
    (res = 0 \<longrightarrow> v_cur it < v_cur c \<and> v_cur c \<le> v_end it)"
proof -
  obtain res c where *: "enter_container buf it c0 NANOCBOR_TYPE_MAP = Ret (res, c)"
    "v_end c = v_end it" "res \<le> 0" "res = 0 \<longrightarrow> v_cur it < v_cur c \<and> v_cur c \<le> v_end it"
    using enter_container_Ret [OF wf, of c0 NANOCBOR_TYPE_MAP] by blast
  then show ?thesis by (cases "v_remaining c > 0x7FFFFFFF") (auto simp: nanocbor_enter_map_def)
qed

lemma leave_moved:
  assumes "v_end c = v_end it" and "v_cur it \<le> v_cur c"
  shows "moved it (nanocbor_leave_container it c)"
    and "v_cur c \<le> v_cur (nanocbor_leave_container it c)"
  using assms by (auto simp: nanocbor_leave_container_def moved_def Let_def)


section \<open>How far the readers move\<close>

lemma uint_reader_reads:
  assumes "dec_wf buf v" and "maxb \<le> NANOCBOR_SIZE_LONG"
  defines "k \<equiv> head_size (buf ! v_cur v)"
  shows "\<exists>res x v'. run_bind (get_uint64 buf v old maxb type) (\<lambda>(res, tmp).
      let (res, v) = advance_if v res in Ret (res, f tmp, v)) = Ret (res, x, v') \<and> reads v (int k) k res v'"
  using read_head [OF assms(1,2), of old type] unfolding k_def by fastforce

lemma get_int_reads:
  assumes wf: "dec_wf buf v" and maxb: "maxb \<le> NANOCBOR_SIZE_LONG"
  defines "k \<equiv> head_size (buf ! v_cur v)"
  shows "\<exists>res x v'. get_and_advance_int32 buf v old maxb bound = Ret (res, x, v') \<and> reads v (int k) k res v'"
  using wf
proof (cases rule: get_type_Ret)
  case at_end
  then show ?thesis by (simp add: get_and_advance_int32_def reads_def)
next
  case item
  let ?t = "major_type (buf ! v_cur v)"
  obtain res x v' where r: "get_uint64 buf v 0 maxb ?t = Ret (res, x)" "advance_if v res = (res, v')"
    "reads v (int k) k res v'"
    using read_head [OF wf maxb, of 0 ?t] unfolding k_def by blast
  have neg: "advance_if v NANOCBOR_ERR_OVERFLOW = (NANOCBOR_ERR_OVERFLOW, v)" "reads v (int k) k NANOCBOR_ERR_OVERFLOW v"
    "reads v (int k) k NANOCBOR_ERR_INVALID_TYPE v" by (simp_all add: advance_if_def reads_def)
  show ?thesis
    using item r neg major_type_range(1) [of "buf ! v_cur v"]
    by (auto simp: get_and_advance_int32_def Let_def)
qed

lemma uint_readers:
  assumes "dec_wf buf v"
  defines "k \<equiv> head_size (buf ! v_cur v)"
  shows "\<exists>res x v'. nanocbor_get_uint8 buf v = Ret (res, x, v') \<and> reads v (int k) k res v'"
    and "\<exists>res x v'. nanocbor_get_uint16 buf v = Ret (res, x, v') \<and> reads v (int k) k res v'"
    and "\<exists>res x v'. nanocbor_get_uint32 buf v = Ret (res, x, v') \<and> reads v (int k) k res v'"
  unfolding k_def nanocbor_get_uint8_def nanocbor_get_uint16_def nanocbor_get_uint32_def
    get_and_advance_uint8_def get_and_advance_uint16_def get_and_advance_uint32_def
  by (rule uint_reader_reads [OF assms(1)], simp)+

lemma int_readers:
  assumes wf: "dec_wf buf v"
  defines "k \<equiv> head_size (buf ! v_cur v)"
  shows "\<exists>res x v'. nanocbor_get_int8 buf v = Ret (res, x, v') \<and> reads v (int k) k res v'"
    and "\<exists>res x v'. nanocbor_get_int16 buf v = Ret (res, x, v') \<and> reads v (int k) k res v'"
    and "\<exists>res x v'. nanocbor_get_int32 buf v old = Ret (res, x, v') \<and> reads v (int k) k res v'"
proof -
  have sizes: "NANOCBOR_SIZE_BYTE \<le> NANOCBOR_SIZE_LONG" "NANOCBOR_SIZE_SHORT \<le> NANOCBOR_SIZE_LONG" by simp_all
  show "\<exists>res x v'. nanocbor_get_int8 buf v = Ret (res, x, v') \<and> reads v (int k) k res v'"
    using get_int_reads [OF wf sizes(1), of 0 127] by (auto simp: nanocbor_get_int8_def k_def)
  show "\<exists>res x v'. nanocbor_get_int16 buf v = Ret (res, x, v') \<and> reads v (int k) k res v'"
    using get_int_reads [OF wf sizes(2), of 0 32767] by (auto simp: nanocbor_get_int16_def k_def)
  show "\<exists>res x v'. nanocbor_get_int32 buf v old = Ret (res, x, v') \<and> reads v (int k) k res v'"
    unfolding nanocbor_get_int32_def k_def by (rule get_int_reads [OF wf size_word_le])
qed

lemma skip_simple_reads:
  assumes wf: "dec_wf buf v"
  defines "k \<equiv> head_size (buf ! v_cur v)"
  shows "\<exists>res v'. nanocbor_skip_simple buf v = Ret (res, v') \<and> reads v (int k) k res v'"
proof -
  obtain t where t: "nanocbor_get_type buf v = Ret t" using wf by (cases rule: get_type_Ret) auto
  then show ?thesis
    using read_head [OF wf order_refl, of 0 t] by (auto simp: nanocbor_skip_simple_def skip_simple_def k_def)
qed

lemma value_match_reads:
  "dec_wf buf v \<Longrightarrow> \<exists>res v'. value_match_exact buf v b = Ret (res, v') \<and> reads v 0 1 res v'"
  by (auto simp: value_match_exact_def over_end_def dec_wf_def advance_def reads_def took_def)

lemma get_bool_reads:
  assumes wf: "dec_wf buf v"
  shows "\<exists>res b v'. nanocbor_get_bool buf v = Ret (res, b, v') \<and> reads v 0 1 res v'"
proof -
  obtain r w where w: "value_match_exact buf v (NANOCBOR_MASK NANOCBOR_TYPE_FLOAT OR NANOCBOR_SIMPLE_FALSE) = Ret (r, w)"
    "reads v 0 1 r w" using value_match_reads [OF wf] by blast
  obtain r' w' where w': "value_match_exact buf v (NANOCBOR_MASK NANOCBOR_TYPE_FLOAT OR NANOCBOR_SIMPLE_TRUE) = Ret (r', w')"
    "reads v 0 1 r' w'" using value_match_reads [OF wf] by blast
  show ?thesis using w w' by (auto simp: nanocbor_get_bool_def reads_def)
qed

lemma get_tag_reads:
  assumes wf: "dec_wf buf v"
  shows "\<exists>res t v'. nanocbor_get_tag buf v old = Ret (res, t, v') \<and> reads v 0 (head_size (buf ! v_cur v)) res v'"
  using wf size_word_le
proof (cases rule: get_uint64_Ret [where maxb = NANOCBOR_SIZE_WORD and old = "ucast old" and type = NANOCBOR_TYPE_TAG])
  case (err res)
  then show ?thesis by (simp add: nanocbor_get_tag_def reads_def)
next
  case (ok n x)
  then show ?thesis
    using get_uint64_size [OF ok(1) size_word_le] by (simp add: nanocbor_get_tag_def reads_def took_def)
qed

lemma get_str_within:
  assumes wf: "dec_wf buf v"
  shows "\<exists>res p len v'. get_str buf v ptr type = Ret (res, p, len, v') \<and>
    (res < 0 \<and> v' = v \<or> res = 0 \<and> moved v v' \<and> v_cur v' \<le> v_end v)"
  using wf
proof (cases rule: get_str_Ret [where ptr = ptr and type = type])
  case (err len)
  then show ?thesis by simp
next
  case (ok n len)
  then show ?thesis by (simp add: moved_def)
qed

lemma low_bits: "b AND 0x1F = take_bit 5 (b :: byte)"
  by (rule and_mask_take_bit) (simp add: mask_eq_exp_minus_1)

lemma mark_size: "head_size (NANOCBOR_MASK t OR NANOCBOR_SIZE_INDEFINITE) = 1"
proof -
  have "(NANOCBOR_MASK t OR NANOCBOR_SIZE_INDEFINITE) AND NANOCBOR_VALUE_MASK = NANOCBOR_SIZE_INDEFINITE"
    unfolding low_bits NANOCBOR_MASK_def by (simp add: take_bit_or take_bit_push_bit)
  then show ?thesis unfolding head_size_def by simp
qed

lemma enter_container_took:
  assumes wf: "dec_wf buf it"
  shows "\<exists>res c. enter_container buf it c0 type = Ret (res, c) \<and> res \<le> 0 \<and>
    (res = 0 \<longrightarrow> took it (head_size (buf ! v_cur it)) c)"
proof -
  let ?mark = "NANOCBOR_MASK type OR NANOCBOR_SIZE_INDEFINITE"
  show ?thesis
  proof (cases "\<not> over_end it \<and> buf ! v_cur it = ?mark")
    case True
    with rd1_in [OF wf] show ?thesis
      by (simp add: enter_container_def Let_def over_end_def took_def mark_size)
  next
    case False
    show ?thesis
      using wf size_word_le
    proof (cases rule: get_uint64_Ret [where old = 0 and type = type])
      case (err res)
      with False rd1_in [OF wf] show ?thesis
        by (cases "over_end it") (auto simp: enter_container_def Let_def)
    next
      case (ok n x)
      with False rd1_in [OF wf] get_uint64_size [OF ok(1) size_word_le] show ?thesis
        by (cases "over_end it") (auto simp: enter_container_def Let_def took_def)
    qed
  qed
qed

lemma enter_took:
  assumes wf: "dec_wf buf it"
  shows "\<exists>res c. nanocbor_enter_array buf it c0 = Ret (res, c) \<and> res \<le> 0 \<and> (res = 0 \<longrightarrow> took it (head_size (buf ! v_cur it)) c)"
    and "\<exists>res c. nanocbor_enter_map buf it c0 = Ret (res, c) \<and> res \<le> 0 \<and> (res = 0 \<longrightarrow> took it (head_size (buf ! v_cur it)) c)"
proof -
  show "\<exists>res c. nanocbor_enter_array buf it c0 = Ret (res, c) \<and> res \<le> 0 \<and> (res = 0 \<longrightarrow> took it (head_size (buf ! v_cur it)) c)"
    unfolding nanocbor_enter_array_def by (rule enter_container_took [OF wf])
  obtain res c where *: "enter_container buf it c0 NANOCBOR_TYPE_MAP = Ret (res, c)" "res \<le> 0"
    "res = 0 \<longrightarrow> took it (head_size (buf ! v_cur it)) c"
    using enter_container_took [OF wf, of c0 NANOCBOR_TYPE_MAP] by blast
  then show "\<exists>res c. nanocbor_enter_map buf it c0 = Ret (res, c) \<and> res \<le> 0 \<and> (res = 0 \<longrightarrow> took it (head_size (buf ! v_cur it)) c)"
    by (cases "v_remaining c > 0x7FFFFFFF") (auto simp: nanocbor_enter_map_def took_def)
qed

text \<open>
  Leaving a container of indefinite length steps over its last byte without looking whether it is there, so
  a context can end up behind the end of the buffer, by one byte for each container that is left.
\<close>

definition within :: "nat \<Rightarrow> nanocbor_value \<Rightarrow> nanocbor_value \<Rightarrow> bool" where
  "within d v v' \<longleftrightarrow> moved v v' \<and> v_cur v' \<le> max (v_cur v) (v_end v + d)"

lemma within_trans: "within d u v \<Longrightarrow> within d v w \<Longrightarrow> within d u w"
  by (auto simp: within_def moved_def)

lemma within_refl [simp]: "within d v v"
  by (simp add: within_def)

lemma within_took: "took v k v' \<Longrightarrow> within d v v'"
  by (simp add: within_def moved_def took_def)

lemma within_reads: "reads v st k res v' \<Longrightarrow> within d v v'"
  using within_took by (auto simp: reads_def)

lemma within_leave: "took v k c \<Longrightarrow> within d c c' \<Longrightarrow> within (Suc d) v (nanocbor_leave_container v c')"
  by (auto simp: within_def moved_def took_def nanocbor_leave_container_def Let_def)

lemma decimal_frac_within:
  assumes wf: "dec_wf buf v"
  shows "\<exists>res x y v'. nanocbor_get_decimal_frac buf v e m arr = Ret (res, x, y, v') \<and> within 1 v v'"
proof -
  obtain r t w where t: "nanocbor_get_tag buf v 0xFFFFFFFF = Ret (r, t, w)" "reads v 0 (head_size (buf ! v_cur v)) r w"
    using get_tag_reads [OF wf] by blast
  have w: "within 1 v w" using t(2) by (rule within_reads)
  have wfw: "dec_wf buf w" using dec_wf_moved [OF wf] w by (simp add: within_def)
  obtain r' c where c: "nanocbor_enter_array buf w arr = Ret (r', c)" "r' = 0 \<longrightarrow> took w (head_size (buf ! v_cur w)) c"
    using enter_took(1) [OF wfw] by blast
  show ?thesis
  proof (cases "r' = 0")
    case False
    then show ?thesis using t w c by (auto simp: nanocbor_get_decimal_frac_def)
  next
    case True
    note took = c(2) [rule_format, OF True]
    have wfc: "dec_wf buf c" using wfw took by (simp add: dec_wf_def took_def)
    obtain s x c1 where x: "nanocbor_get_int32 buf c e = Ret (s, x, c1)" "reads c (int (head_size (buf ! v_cur c))) (head_size (buf ! v_cur c)) s c1"
      unfolding nanocbor_get_int32_def using get_int_reads [OF wfc size_word_le] by blast
    have c1: "within 0 c c1" using x(2) by (rule within_reads)
    have wfc1: "dec_wf buf c1" using dec_wf_moved [OF wfc] c1 by (simp add: within_def)
    obtain q y c2 where y: "nanocbor_get_int32 buf c1 m = Ret (q, y, c2)" "reads c1 (int (head_size (buf ! v_cur c1))) (head_size (buf ! v_cur c1)) q c2"
      unfolding nanocbor_get_int32_def using get_int_reads [OF wfc1 size_word_le] by blast
    have c2: "within 0 c c2" using within_trans [OF c1 within_reads [OF y(2)]] .
    have "within 1 w (nanocbor_leave_container w c1)" "within 1 w (nanocbor_leave_container w c2)"
      using within_leave [OF took c1] within_leave [OF took c2] by simp_all
    then show ?thesis
      using t w c True x(1) y(1) within_trans [OF w] by (auto simp: nanocbor_get_decimal_frac_def)
  qed
qed

section \<open>Skipping nested items\<close>

text \<open>
  What \<open>nanocbor_skip\<close> guarantees. On any contents it either runs out of fuel or returns a
  status with the context moved forward. Without wrapping heads it does not run out when the
  fuel covers the rest of the buffer, and success means that at least one byte was consumed.
\<close>

definition skip_ok :: "bytes \<Rightarrow> nat \<Rightarrow> nanocbor_value \<Rightarrow> (int \<times> nanocbor_value) run \<Rightarrow> bool" where
  "skip_ok buf fuel v r \<longleftrightarrow>
     (r = NoFuel \<and> \<not> (no_wrap buf \<and> v_end v - v_cur v \<le> fuel)) \<or>
     (\<exists>res v'. r = Ret (res, v') \<and> moved v v' \<and> res \<le> 0 \<and>
        (no_wrap buf \<and> res = 0 \<longrightarrow> v_cur v < v_cur v'))"

definition loop_ok :: "bytes \<Rightarrow> nat \<Rightarrow> nanocbor_value \<Rightarrow> (int \<times> nanocbor_value) run \<Rightarrow> bool" where
  "loop_ok buf fuel v r \<longleftrightarrow>
     (r = NoFuel \<and> \<not> (no_wrap buf \<and> v_end v - v_cur v < fuel)) \<or>
     (\<exists>res v'. r = Ret (res, v') \<and> moved v v' \<and> res \<le> 0)"

lemma skip_ok_string:
  assumes wf: "dec_wf buf it" and t: "type \<in> {NANOCBOR_TYPE_BSTR, NANOCBOR_TYPE_TSTR}"
  shows "skip_ok buf fuel it (run_bind (get_str buf it None type) (\<lambda>(res, _, _, it).
    Ret (if res < 0 then res else NANOCBOR_OK, it)))"
proof -
  obtain res p len v' where r: "get_str buf it None type = Ret (res, p, len, v')" "moved it v'" "res \<le> 0"
    using get_str_moved [OF wf, of None type] by blast
  then show ?thesis
    using get_str_slice [OF wf _ t, of None p len v'] by (auto simp: skip_ok_def)
qed

lemma skip_ok_simple:
  assumes wf: "dec_wf buf it"
  shows "skip_ok buf fuel it (run_bind (skip_simple buf it) (\<lambda>(res, it).
    Ret (if res < 0 then res else NANOCBOR_OK, it)))"
proof -
  obtain res v' where "skip_simple buf it = Ret (res, v')" "moved it v'"
    "res \<ge> 0 \<longrightarrow> v_cur it < v_cur v' \<and> v_cur v' \<le> v_end it" using skip_simple_moved [OF wf] by blast
  then show ?thesis by (simp add: skip_ok_def)
qed

lemma skip_ok_container:
  assumes enter: "\<exists>r c. e = Ret (r, c) \<and> v_end c = v_end it \<and> r \<le> 0 \<and>
      (r = 0 \<longrightarrow> v_cur it < v_cur c \<and> v_cur c \<le> v_end it)"
    and loop: "\<And>c. e = Ret (0, c) \<Longrightarrow> v_end c = v_end it \<Longrightarrow> loop_ok buf fuel c (L c)"
  shows "skip_ok buf fuel it (run_bind e (\<lambda>(res, recurse).
    if res = NANOCBOR_OK then
      run_bind (L recurse) (\<lambda>(res, recurse).
        Ret (if res < 0 then res else NANOCBOR_OK, nanocbor_leave_container it recurse))
    else Ret (if res < 0 then res else NANOCBOR_OK, it)))"
proof -
  obtain r c where c: "e = Ret (r, c)" "v_end c = v_end it" "r \<le> 0"
    "r = 0 \<longrightarrow> v_cur it < v_cur c \<and> v_cur c \<le> v_end it" using enter by blast
  show ?thesis
  proof (cases "r = 0")
    case False
    then show ?thesis using c by (simp add: skip_ok_def)
  next
    case True
    then have cur: "v_cur it < v_cur c" "v_cur c \<le> v_end it" and e: "e = Ret (0, c)" using c by auto
    from loop [OF e c(2)] show ?thesis
      unfolding loop_ok_def
    proof (elim disjE exE conjE)
      assume "L c = NoFuel" "\<not> (no_wrap buf \<and> v_end c - v_cur c < fuel)"
      then show ?thesis using e cur c(2) by (auto simp: skip_ok_def)
    next
      fix res v' assume r: "L c = Ret (res, v')" "moved c v'" "res \<le> 0"
      then have "moved it (nanocbor_leave_container it v')"
        and "v_cur it < v_cur (nanocbor_leave_container it v')"
        using leave_moved [of v' it] cur c(2) by (auto simp: moved_def)
      then show ?thesis using r e by (simp add: skip_ok_def)
    qed
  qed
qed

lemma loop_ok_step:
  assumes skip: "skip_ok buf fuel v r" and cur: "v_cur v < v_end v"
    and rest: "\<And>res v'. r = Ret (res, v') \<Longrightarrow> res = 0 \<Longrightarrow> moved v v' \<Longrightarrow> loop_ok buf fuel v' (L res v')"
  shows "loop_ok buf (Suc fuel) v (run_bind r (\<lambda>(res, v). if res < 0 then Ret (res, v) else L res v))"
  using skip unfolding skip_ok_def
proof (elim disjE exE conjE)
  assume "r = NoFuel" "\<not> (no_wrap buf \<and> v_end v - v_cur v \<le> fuel)"
  then show ?thesis by (auto simp: loop_ok_def)
next
  fix res v' assume r: "r = Ret (res, v')" "moved v v'" "res \<le> 0"
    "no_wrap buf \<and> res = 0 \<longrightarrow> v_cur v < v_cur v'"
  show ?thesis
  proof (cases "res < 0")
    case True
    then show ?thesis using r by (simp add: loop_ok_def)
  next
    case False
    then have "loop_ok buf fuel v' (L res v')" using rest r by simp
    then show ?thesis
      unfolding loop_ok_def using r False cur by (fastforce simp: moved_def)
  qed
qed

lemma skip_loop_Suc:
  "skip_loop (Suc n) buf rec limit res uninit =
     run_bind (nanocbor_at_end buf rec) (\<lambda>e.
     if e then Ret (res, rec)
     else run_bind (skip_limited n buf rec uninit limit) (\<lambda>(res, rec).
       if res < 0 then Ret (res, rec) else skip_loop n buf rec limit res uninit))"
  by (subst skip_loop.simps) (simp only: diff_Suc_1 Suc_not_Zero if_False)

lemma skip_limited_ok:
  assumes wf: "dec_wf buf it"
    and loop: "\<And>c. limit \<noteq> 0 \<Longrightarrow> nanocbor_get_type buf it = Ret t \<Longrightarrow> t \<in> {4, 5} \<Longrightarrow>
      (if t = NANOCBOR_TYPE_MAP then nanocbor_enter_map buf it uninit else nanocbor_enter_array buf it uninit) = Ret (0, c) \<Longrightarrow>
      v_end c = v_end it \<Longrightarrow> loop_ok buf fuel c (skip_loop fuel buf c (limit - 1) 0 uninit)"
    and limit: "limit \<noteq> 0" and t: "nanocbor_get_type buf it = Ret t" "t = major_type (buf ! v_cur it)" "v_cur it < v_end it"
  shows "skip_ok buf fuel it (skip_limited fuel buf it uninit limit)"
proof -
  let ?e = "if t = NANOCBOR_TYPE_MAP then nanocbor_enter_map buf it uninit else nanocbor_enter_array buf it uninit"
  consider (str) "t \<in> {2, 3}" | (cont) "t \<in> {4, 5}" | (simple) "t \<notin> {2, 3, 4, 5}" by blast
  then show ?thesis
  proof cases
    case str
    then show ?thesis using limit t skip_ok_string [OF wf, of t] by (auto simp: skip_limited.simps)
  next
    case cont
    have "\<exists>r c. ?e = Ret (r, c) \<and> v_end c = v_end it \<and> r \<le> 0 \<and> (r = 0 \<longrightarrow> v_cur it < v_cur c \<and> v_cur c \<le> v_end it)"
      using enter_array_Ret [OF wf] enter_map_Ret [OF wf] by simp
    then have "skip_ok buf fuel it (run_bind ?e (\<lambda>(res, recurse).
      if res = NANOCBOR_OK then
        run_bind (skip_loop fuel buf recurse (limit - 1) 0 uninit) (\<lambda>(res, recurse).
          Ret (if res < 0 then res else NANOCBOR_OK, nanocbor_leave_container it recurse))
      else Ret (if res < 0 then res else NANOCBOR_OK, it)))"
      by (rule skip_ok_container) (rule loop [OF limit t(1) cont])
    then show ?thesis using limit t(1) cont by (subst skip_limited.simps) auto
  next
    case simple
    then show ?thesis
      using limit t skip_ok_simple [OF wf] major_type_range(1) by (auto simp: skip_limited.simps)
  qed
qed

lemma skip_correct:
  "dec_wf buf it \<Longrightarrow> skip_ok buf fuel it (skip_limited fuel buf it uninit limit)"
  "dec_wf buf rec \<Longrightarrow> res \<le> 0 \<Longrightarrow> loop_ok buf fuel rec (skip_loop fuel buf rec limit res uninit)"
proof (induction fuel buf it uninit limit and fuel buf rec limit res uninit
    rule: skip_limited_skip_loop.induct)
  case (1 fuel buf it uninit limit)
  note wf = "1.prems"
  show ?case
    using wf
  proof (cases rule: get_type_Ret)
    case at_end
    then show ?thesis by (simp add: skip_limited.simps skip_ok_def)
  next
    case item
    show ?thesis
    proof (cases "limit = 0")
      case True
      then show ?thesis by (simp add: skip_limited.simps skip_ok_def)
    next
      case False
      show ?thesis
      proof (rule skip_limited_ok [OF wf _ False item(1) refl])
        fix c assume c: "major_type (buf ! v_cur it) \<in> {4, 5}"
          "(if major_type (buf ! v_cur it) = NANOCBOR_TYPE_MAP then nanocbor_enter_map buf it uninit
            else nanocbor_enter_array buf it uninit) = Ret (0, c)" "v_end c = v_end it"
        then show "loop_ok buf fuel c (skip_loop fuel buf c (limit - 1) 0 uninit)"
          using "1.IH" [OF False item(1) _ _ c(2) refl refl] wf by (auto simp: dec_wf_def)
      qed (use item in simp)
    qed
  qed
next
  case (2 fuel buf rec limit res uninit)
  note wf = "2.prems"(1)
  obtain e where e: "nanocbor_at_end buf rec = Ret e" "\<not> e \<longrightarrow> v_cur rec < v_end rec"
    using at_end_Ret [OF wf] by blast
  show ?case
  proof (cases "fuel = 0 \<or> e")
    case True
    then show ?thesis using e "2.prems" by (subst skip_loop.simps) (auto simp: loop_ok_def)
  next
    case False
    then obtain n where Suc: "fuel = Suc n" by (cases fuel) auto
    have "skip_ok buf n rec (skip_limited n buf rec uninit limit)"
      using "2.IH"(1) [OF _ e(1) _ wf] False Suc by simp
    then have "loop_ok buf (Suc n) rec (run_bind (skip_limited n buf rec uninit limit)
      (\<lambda>(res, rec). if res < 0 then Ret (res, rec) else skip_loop n buf rec limit res uninit))"
    proof (rule loop_ok_step)
      show "v_cur rec < v_end rec" using e False by simp
      fix r v assume "skip_limited n buf rec uninit limit = Ret (r, v)" "r = 0" "moved rec v"
      then show "loop_ok buf n v (skip_loop n buf v limit r uninit)"
        using "2.IH"(2) [OF _ e(1) _, of "(r, v)" r v] dec_wf_moved [OF wf, of v] False Suc by simp
    qed
    then show ?thesis using e False Suc by (simp add: skip_loop_Suc)
  qed
qed


lemma skip_total:
  assumes wf: "dec_wf buf it" and "no_wrap buf" and "length buf \<le> fuel"
  shows "\<exists>res it'. nanocbor_skip fuel buf it uninit = Ret (res, it') \<and> moved it it' \<and> res \<le> 0 \<and>
    (res = 0 \<longrightarrow> v_cur it < v_cur it')"
  using skip_correct(1) [OF wf, of fuel uninit NANOCBOR_RECURSION_MAX] assms
  by (auto simp: nanocbor_skip_def skip_ok_def dec_wf_def)

lemma skip_moved:
  assumes wf: "dec_wf buf it"
  shows "nanocbor_skip fuel buf it uninit = NoFuel \<or>
    (\<exists>res it'. nanocbor_skip fuel buf it uninit = Ret (res, it') \<and> moved it it')"
  using skip_correct(1) [OF wf, of fuel uninit NANOCBOR_RECURSION_MAX]
  by (auto simp: nanocbor_skip_def skip_ok_def)

text \<open>How far a skip moves: at most one byte behind the end for each level of nesting.\<close>

lemma within_limited:
  assumes wf: "dec_wf buf it" and ret: "skip_limited fuel buf it uninit limit = Ret (res, it')"
    and loop: "\<And>c r c'. limit \<noteq> 0 \<Longrightarrow> dec_wf buf c \<Longrightarrow> skip_loop fuel buf c (limit - 1) 0 uninit = Ret (r, c') \<Longrightarrow> within (limit - 1) c c'"
  shows "within limit it it'"
proof (cases "limit = 0")
  case True
  then show ?thesis using ret by (simp add: skip_limited.simps)
next
  case False
  obtain t where t: "nanocbor_get_type buf it = Ret t" using wf by (cases rule: get_type_Ret) auto
  let ?e = "if t = NANOCBOR_TYPE_MAP then nanocbor_enter_map buf it uninit else nanocbor_enter_array buf it uninit"
  consider (str) "t \<in> {2, 3}" | (cont) "t \<in> {4, 5}" | (simple) "t \<notin> {2, 3, 4, 5}" by blast
  then show ?thesis
  proof cases
    case str
    obtain r p len v' where "get_str buf it None t = Ret (r, p, len, v')" "v' = it \<or> moved it v' \<and> v_cur v' \<le> v_end it"
      using get_str_within [OF wf, of None t] by blast
    then show ?thesis using False t str ret by (auto simp: skip_limited.simps within_def)
  next
    case cont
    obtain r c where c: "?e = Ret (r, c)" "r = 0 \<longrightarrow> took it (head_size (buf ! v_cur it)) c"
      using enter_took [OF wf, of uninit] by (cases "t = 5") auto
    show ?thesis
    proof (cases "r = 0")
      case True
      note took = c(2) [rule_format, OF True]
      have wfc: "dec_wf buf c" using wf took by (simp add: dec_wf_def took_def)
      obtain q c' where "skip_loop fuel buf c (limit - 1) 0 uninit = Ret (q, c')" "it' = nanocbor_leave_container it c'"
        using ret False t cont c(1) True by (subst (asm) skip_limited.simps) auto
      then show ?thesis using within_leave [OF took loop [OF False wfc]] False by simp
    qed (use ret False t cont c(1) in \<open>subst (asm) skip_limited.simps, auto\<close>)
  next
    case simple
    obtain q v' where "skip_simple buf it = Ret (q, v')" "within limit it v'"
    proof -
      obtain q x v' where "get_uint64 buf it 0 NANOCBOR_SIZE_LONG t = Ret (q, x)" "advance_if it q = (q, v')"
        "reads it (int (head_size (buf ! v_cur it))) (head_size (buf ! v_cur it)) q v'"
        using read_head [OF wf order_refl, of 0 t] by blast
      then show ?thesis using t within_reads by (intro that [of q v']) (simp_all add: skip_simple_def)
    qed
    then show ?thesis using ret False t simple by (auto simp: skip_limited.simps split: if_splits)
  qed
qed

lemma skip_loop_within:
  "dec_wf buf rec \<Longrightarrow> skip_loop fuel buf rec limit res uninit = Ret (res', rec') \<Longrightarrow> within limit rec rec'"
proof (induction fuel arbitrary: rec limit res res' rec')
  case 0
  then show ?case by (simp add: skip_loop.simps)
next
  case (Suc n)
  obtain e where e: "nanocbor_at_end buf rec = Ret e" using at_end_Ret [OF Suc.prems(1)] by blast
  show ?case
  proof (cases e)
    case True
    then show ?thesis using Suc.prems(2) e by (simp add: skip_loop_Suc)
  next
    case False
    then obtain r v where v: "skip_limited n buf rec uninit limit = Ret (r, v)"
      "r < 0 \<and> rec' = v \<or> skip_loop n buf v limit r uninit = Ret (res', rec')"
      using Suc.prems(2) e by (auto simp: skip_loop_Suc split: if_splits)
    have w: "within limit rec v" by (rule within_limited [OF Suc.prems(1) v(1)]) (rule Suc.IH)
    then have "dec_wf buf v" using dec_wf_moved [OF Suc.prems(1)] by (simp add: within_def)
    then show ?thesis using v(2) Suc.IH w within_trans by blast
  qed
qed

lemma skip_limited_within:
  "dec_wf buf it \<Longrightarrow> skip_limited fuel buf it uninit limit = Ret (res, it') \<Longrightarrow> within limit it it'"
  by (rule within_limited) (auto intro: skip_loop_within)

lemma nanocbor_skip_within:
  assumes wf: "dec_wf buf it"
  shows "nanocbor_skip fuel buf it uninit = NoFuel \<or>
    (\<exists>res it'. nanocbor_skip fuel buf it uninit = Ret (res, it') \<and> within NANOCBOR_RECURSION_MAX it it')"
  using skip_moved [OF wf, of fuel uninit] skip_limited_within [OF wf, of fuel uninit NANOCBOR_RECURSION_MAX]
  by (auto simp: nanocbor_skip_def)

section \<open>Searching a text key\<close>

lemma strncmp_loop_Ret: "n < length l \<Longrightarrow> n < length r \<Longrightarrow> \<exists>x. strncmp_loop l r n = Ret x"
  by (induction l r n rule: strncmp_loop.induct) auto

lemma strncmp_Ret: "n \<le> length l \<Longrightarrow> n \<le> length r \<Longrightarrow> \<exists>x. strncmp l r n = Ret x"
  using strncmp_loop_Ret [of "n - 1" l r] by (auto simp: strncmp_def)

lemma get_tstr_compared:
  assumes wf: "dec_wf buf v" and key: "unat len \<le> length key" "unat len < 2 ^ 31"
    and get: "nanocbor_get_tstr buf v None = Ret (res, s, s_len, v')" "\<not> res < 0"
  shows "\<exists>c. (if s_len = len then strncmp key (drop (the s) buf) (unat len) else Ret 1) = Ret c"
proof (cases "s_len = len")
  case True
  show ?thesis
    using wf
  proof (cases rule: get_str_Ret [where ptr = None and type = NANOCBOR_TYPE_TSTR])
    case (err l)
    then show ?thesis using get by (simp add: nanocbor_get_tstr_def)
  next
    case (ok n l)
    then have eq: "s = Some (v_cur v + n)" "l = len" using get True by (auto simp: nanocbor_get_tstr_def)
    have "unat (of_nat n :: u64) = n" using ok(3) by (intro unat_word_of_nat) simp
    then have "unat (of_nat n + l) = n + unat len" using ok(3) key(2) by (simp add: unat_word_ariths eq(2))
    then have "v_cur v + n + unat len \<le> length buf" using ok(4,5) wf by (auto simp: dec_wf_def)
    then show ?thesis using True key strncmp_Ret [of "unat len" key "drop (v_cur v + n) buf"] by (simp add: eq(1))
  qed
qed simp

lemma key_loop_within:
  assumes "unat len \<le> length key" and "unat len < 2 ^ 31"
  shows "dec_wf buf v \<Longrightarrow> get_key_tstr_loop fuel buf key len v uninit r = NoFuel \<or>
    (\<exists>res v'. get_key_tstr_loop fuel buf key len v uninit r = Ret (res, v') \<and> within NANOCBOR_RECURSION_MAX v v')"
proof (induction fuel arbitrary: v r)
  case (Suc n)
  note wf = Suc.prems
  obtain e where e: "nanocbor_at_end buf v = Ret e" using at_end_Ret [OF wf] by blast
  obtain res s s_len w where w: "nanocbor_get_tstr buf v None = Ret (res, s, s_len, w)"
    "w = v \<or> moved v w \<and> v_cur w \<le> v_end v"
    unfolding nanocbor_get_tstr_def using get_str_within [OF wf, of None NANOCBOR_TYPE_TSTR] by blast
  have vw: "within NANOCBOR_RECURSION_MAX v w" using w(2) by (auto simp: within_def)
  then have wfw: "dec_wf buf w" using dec_wf_moved [OF wf] by (simp add: within_def)
  show ?case
  proof (cases "e \<or> res < 0")
    case True
    then show ?thesis using e w vw by auto
  next
    case False
    obtain c where c: "(if s_len = len then strncmp key (drop (the s) buf) (unat len) else Ret 1) = Ret c"
      using get_tstr_compared [OF wf assms w(1)] False by blast
    show ?thesis
    proof (cases "c = 0")
      case True
      then show ?thesis using e w(1) c vw False by auto
    next
      case other: False
      from nanocbor_skip_within [OF wfw, of n uninit] show ?thesis
      proof (elim disjE exE conjE)
        assume "nanocbor_skip n buf w uninit = NoFuel"
        then show ?thesis using e w(1) c False other by simp
      next
        fix q x assume x: "nanocbor_skip n buf w uninit = Ret (q, x)" "within NANOCBOR_RECURSION_MAX w x"
        note vx = within_trans [OF vw x(2)]
        have "dec_wf buf x" using dec_wf_moved [OF wf] vx by (simp add: within_def)
        from Suc.IH [OF this, of q] show ?thesis
          using e w(1) c False other x(1) vx within_trans [OF vx] by auto
      qed
    qed
  qed
qed simp

lemma c_strlen_less: "c_strlen s = Ret n \<Longrightarrow> n < length s"
  by (induction s arbitrary: n) (auto split: if_splits)

lemma get_key_tstr_within:
  assumes "dec_wf buf v" and "c_strlen key = Ret n" and "n < 2 ^ 31"
  shows "nanocbor_get_key_tstr fuel buf v key uninit = NoFuel \<or>
    (\<exists>res v'. nanocbor_get_key_tstr fuel buf v key uninit = Ret (res, v') \<and> within NANOCBOR_RECURSION_MAX v v')"
proof -
  have "unat (word_of_nat n :: u64) = n" using assms(3) by (intro unat_word_of_nat) simp
  then show ?thesis
    using key_loop_within [of "word_of_nat n" key buf v] assms c_strlen_less [OF assms(2)]
    by (simp add: nanocbor_get_key_tstr_def)
qed

section \<open>When a head wraps\<close>

text \<open>
  An indefinite array followed by a byte string head that announces \<open>2 ^ 64 - 9\<close> bytes:
  head and length add up to 0, so \<open>_get_str\<close> succeeds without advancing.
\<close>

definition wrap_input :: bytes where
  "wrap_input = [0x9F, 0x5B, 0xFF, 0xFF, 0xFF, 0xFF, 0xFF, 0xFF, 0xFF, 0xF7]"

lemma wrap_input_nth [simp]: "wrap_input ! 0 = 0x9F" "wrap_input ! Suc 0 = 0x5B" "length wrap_input = 10"
  by (simp_all add: wrap_input_def)

lemma wrap_len: "bswap64 (le_word (sub_bytes (Suc (Suc 0)) 8 wrap_input)) = 0xFFFFFFFFFFFFFFF7"
  by (simp add: wrap_input_def sub_bytes_def bswap64_def bswap32_def)

lemma wrap_at_1:
  assumes "v_cur v = 1" and "v_end v = 10" and "v_flags v = 3"
  shows "nanocbor_at_end wrap_input v = Ret False"
    and "nanocbor_get_type wrap_input v = Ret NANOCBOR_TYPE_BSTR"
    and "get_str wrap_input v None NANOCBOR_TYPE_BSTR =
      Ret (NANOCBOR_OK, Some 10, 0xFFFFFFFFFFFFFFF7, v\<lparr>v_remaining := v_remaining v - 1\<rparr>)"
proof -
  show end1: "nanocbor_at_end wrap_input v = Ret False"
    using assms by (simp add: nanocbor_at_end_def over_end_def nanocbor_container_indefinite_def)
  then show type1: "nanocbor_get_type wrap_input v = Ret NANOCBOR_TYPE_BSTR"
    using assms by (simp add: nanocbor_get_type_def get_type_def)
  have "get_uint64 wrap_input v 0 NANOCBOR_SIZE_SIZET NANOCBOR_TYPE_BSTR = Ret (9, 0xFFFFFFFFFFFFFFF7)"
    using assms wrap_len by (simp add: get_uint64_def type1 Let_def)
  then show "get_str wrap_input v None NANOCBOR_TYPE_BSTR =
      Ret (NANOCBOR_OK, Some 10, 0xFFFFFFFFFFFFFFF7, v\<lparr>v_remaining := v_remaining v - 1\<rparr>)"
    using assms by (simp add: get_str_def advance_def)
qed

lemma wrap_loop:
  assumes "v_cur v = 1" and "v_end v = 10" and "v_flags v = 3"
  shows "skip_loop fuel wrap_input v 9 0 uninit = NoFuel"
  using assms
proof (induction fuel arbitrary: v)
  case 0
  then show ?case by (simp add: skip_loop.simps)
next
  case (Suc n)
  have "skip_limited n wrap_input v uninit 9 = Ret (0, v\<lparr>v_remaining := v_remaining v - 1\<rparr>)"
    using wrap_at_1 [OF Suc.prems] by (simp add: skip_limited.simps)
  then show ?case
    using wrap_at_1(1) [OF Suc.prems] Suc.IH [of "v\<lparr>v_remaining := v_remaining v - 1\<rparr>"] Suc.prems
    by (simp add: skip_loop_Suc)
qed

lemma wrap_skip:
  assumes "v_cur v = 0" and "v_end v = 10" and "v_flags v = 0"
  shows "nanocbor_skip fuel wrap_input v uninit = NoFuel"
proof -
  have "nanocbor_get_type wrap_input v = Ret NANOCBOR_TYPE_ARR"
    using assms by (simp add: nanocbor_get_type_def nanocbor_at_end_def over_end_def get_type_def
        nanocbor_container_indefinite_def nanocbor_in_container_def)
  moreover have "nanocbor_enter_array wrap_input v uninit =
    Ret (NANOCBOR_OK, uninit\<lparr>v_end := 10, v_remaining := 0, v_flags := 3, v_cur := 1\<rparr>)"
    using assms by (simp add: nanocbor_enter_array_def enter_container_def over_end_def
        NANOCBOR_MASK_def)
  ultimately show ?thesis
    by (simp add: nanocbor_skip_def skip_limited.simps wrap_loop)
qed


section \<open>Properties\<close>

text \<open>C28: The readers of decoder.c are memory safe on arbitrary input, and how far each moves is exact. Whatever
  the bytes and the position, none accesses a byte outside of the buffer. The integer readers, \<open>nanocbor_get_tag\<close>
  and the two functions that enter a container either fail without moving or take exactly the head, whose size its first byte
  tells; booleans and null take one byte; a string stays in the buffer. The readers that leave containers
  can end behind the end of the buffer, because leaving one of indefinite length steps over a last byte that
  may be missing: \<open>nanocbor_get_decimal_frac\<close> by one byte, \<open>nanocbor_skip\<close>, \<open>nanocbor_get_subcbor\<close> and
  \<open>nanocbor_get_key_tstr\<close> (for a key with its terminating 0) by at most \<open>NANOCBOR_RECURSION_MAX\<close> bytes, in as many
  iterations as they get.\<close>

theorem decoder_memory_safe:
  assumes "dec_wf buf v" and "c_strlen key = Ret n" and "n < 2 ^ 31"
  defines "k \<equiv> head_size (buf ! v_cur v)"
  shows "(\<exists>e. nanocbor_at_end buf v = Ret e) \<and> (\<exists>t. nanocbor_get_type buf v = Ret t) \<and>
    (\<exists>res x v'. nanocbor_get_uint8 buf v = Ret (res, x, v') \<and> reads v (int k) k res v') \<and>
    (\<exists>res x v'. nanocbor_get_uint16 buf v = Ret (res, x, v') \<and> reads v (int k) k res v') \<and>
    (\<exists>res x v'. nanocbor_get_uint32 buf v = Ret (res, x, v') \<and> reads v (int k) k res v') \<and>
    (\<exists>res x v'. nanocbor_get_int8 buf v = Ret (res, x, v') \<and> reads v (int k) k res v') \<and>
    (\<exists>res x v'. nanocbor_get_int16 buf v = Ret (res, x, v') \<and> reads v (int k) k res v') \<and>
    (\<exists>res x v'. nanocbor_get_int32 buf v old = Ret (res, x, v') \<and> reads v (int k) k res v') \<and>
    (\<exists>res v'. nanocbor_skip_simple buf v = Ret (res, v') \<and> reads v (int k) k res v') \<and>
    (\<exists>res t v'. nanocbor_get_tag buf v old = Ret (res, t, v') \<and> reads v 0 k res v') \<and>
    (\<exists>res b v'. nanocbor_get_bool buf v = Ret (res, b, v') \<and> reads v 0 1 res v') \<and>
    (\<exists>res v'. nanocbor_get_null buf v = Ret (res, v') \<and> reads v 0 1 res v') \<and>
    (\<exists>res p len v'. nanocbor_get_bstr buf v ptr = Ret (res, p, len, v') \<and> (res < 0 \<and> v' = v \<or> res = 0 \<and> moved v v' \<and> v_cur v' \<le> v_end v)) \<and>
    (\<exists>res p len v'. nanocbor_get_tstr buf v ptr = Ret (res, p, len, v') \<and> (res < 0 \<and> v' = v \<or> res = 0 \<and> moved v v' \<and> v_cur v' \<le> v_end v)) \<and>
    (\<exists>res c. nanocbor_enter_array buf v c0 = Ret (res, c) \<and> res \<le> 0 \<and> (res = 0 \<longrightarrow> took v k c)) \<and>
    (\<exists>res c. nanocbor_enter_map buf v c0 = Ret (res, c) \<and> res \<le> 0 \<and> (res = 0 \<longrightarrow> took v k c)) \<and>
    (\<exists>res e m v'. nanocbor_get_decimal_frac buf v old old' c0 = Ret (res, e, m, v') \<and> within 1 v v') \<and>
    (nanocbor_skip fuel buf v c0 = NoFuel \<or>
      (\<exists>res v'. nanocbor_skip fuel buf v c0 = Ret (res, v') \<and> within NANOCBOR_RECURSION_MAX v v')) \<and>
    (nanocbor_get_subcbor fuel buf v c0 = NoFuel \<or>
      (\<exists>res p len v'. nanocbor_get_subcbor fuel buf v c0 = Ret (res, p, len, v') \<and> within NANOCBOR_RECURSION_MAX v v')) \<and>
    (nanocbor_get_key_tstr fuel buf v key c0 = NoFuel \<or>
      (\<exists>res v'. nanocbor_get_key_tstr fuel buf v key c0 = Ret (res, v') \<and> within NANOCBOR_RECURSION_MAX v v'))"
proof (intro conjI)
  note wf = assms(1)
  show "\<exists>e. nanocbor_at_end buf v = Ret e" using at_end_Ret [OF wf] by blast
  show "\<exists>t. nanocbor_get_type buf v = Ret t" using wf by (cases rule: get_type_Ret) auto
  show "nanocbor_get_subcbor fuel buf v c0 = NoFuel \<or>
      (\<exists>res p len v'. nanocbor_get_subcbor fuel buf v c0 = Ret (res, p, len, v') \<and> within NANOCBOR_RECURSION_MAX v v')"
    using nanocbor_skip_within [OF wf, of fuel c0] by (auto simp: nanocbor_get_subcbor_def Let_def)
qed (unfold k_def nanocbor_get_null_def nanocbor_get_bstr_def nanocbor_get_tstr_def,
  (rule int_readers [OF assms(1)] uint_readers [OF assms(1)] skip_simple_reads [OF assms(1)] get_tag_reads [OF assms(1)]
    get_bool_reads [OF assms(1)] value_match_reads [OF assms(1)] get_str_within [OF assms(1)] enter_took [OF assms(1)]
    decimal_frac_within [OF assms(1)] nanocbor_skip_within [OF assms(1)] get_key_tstr_within [OF assms(1-3)])+)

definition example_ctx :: nanocbor_value where
  "example_ctx = \<lparr>v_cur = 0, v_end = 3, v_remaining = 0, v_flags = 0\<rparr>"

lemma example_ctx_sel [simp]:
  "v_cur example_ctx = 0" "v_end example_ctx = 3" "v_remaining example_ctx = 0" "v_flags example_ctx = 0"
  by (simp_all add: example_ctx_def)

theorem decoder_memory_safe_witness:
  "(\<exists>res x v'. nanocbor_get_uint8 [0x18, 200, 1] example_ctx = Ret (res, x, v') \<and> reads example_ctx 2 2 res v') \<and>
   (\<exists>res v'. nanocbor_get_null [0x18, 200, 1] example_ctx = Ret (res, v') \<and> reads example_ctx 0 1 res v')"
proof -
  have wf: "dec_wf [0x18, 200, 1] example_ctx" by (simp add: dec_wf_def)
  have key: "c_strlen [0x61, 0] = Ret 1" "(1 :: nat) < 2 ^ 31" by simp_all
  have k: "head_size ([0x18, 200, 1] ! v_cur example_ctx) = 2" by (simp add: head_size_def)
  from decoder_memory_safe [OF wf key, of 0 None example_ctx 0 3, unfolded k of_nat_numeral]
  show ?thesis by (elim conjE) (intro conjI)
qed

text \<open>C30: When no string head of the buffer wraps around, a byte or text string that the decoder
  returns with \<open>NANOCBOR_OK\<close> has the length that its head announces, lies inside the buffer directly behind
  the head, and the context continues right after it. The size of the head and the announced length are
  read off the bytes by the format of CBOR.\<close>

theorem string_slice_in_buffer:
  assumes "dec_wf buf v" and "no_wrap buf" and "get \<in> {nanocbor_get_bstr, nanocbor_get_tstr}"
    and "get buf v ptr = Ret (NANOCBOR_OK, p, len, v')"
  shows "p = Some (v_cur v + head_size (buf ! v_cur v)) \<and> unat len = head_value buf (v_cur v) \<and>
    v_cur v' = v_cur v + head_size (buf ! v_cur v) + unat len \<and> v_cur v' \<le> v_end v \<and> v_end v' = v_end v"
proof -
  obtain type where type: "type \<in> {NANOCBOR_TYPE_BSTR, NANOCBOR_TYPE_TSTR}"
    and eq: "get_str buf v ptr type = Ret (NANOCBOR_OK, p, len, v')"
    using assms(3,4) by (auto simp: nanocbor_get_bstr_def nanocbor_get_tstr_def) blast+
  from get_str_slice [OF assms(1,2) type eq] get_str_head [OF assms(1) eq] show ?thesis by auto
qed

lemmas dec_eval = get_str_def get_uint64_def nanocbor_get_type_def
  nanocbor_at_end_def over_end_def nanocbor_container_indefinite_def nanocbor_in_container_def
  get_type_def store_low32_def advance_def advance_if_def

lemma example_bstr:
  "nanocbor_get_bstr [0x42, 7, 9] example_ctx None =
     Ret (NANOCBOR_OK, Some 1, 2, example_ctx\<lparr>v_cur := 3, v_remaining := - 1\<rparr>)"
  by (simp add: nanocbor_get_bstr_def dec_eval)

theorem string_slice_in_buffer_witness:
  "Some 1 = Some (v_cur example_ctx + head_size 0x42) \<and> unat (2 :: u64) = head_value [0x42, 7, 9] (v_cur example_ctx) \<and>
   3 = v_cur example_ctx + head_size 0x42 + unat (2 :: u64)"
  using string_slice_in_buffer [where get = nanocbor_get_bstr, OF _ _ _ example_bstr] by (simp add: dec_wf_def no_wrap_def head_wraps_def)

text \<open>C29: \<open>nanocbor_skip\<close> ends and is memory safe on every buffer without a wrapping string head:
  as many loop iterations as the buffer has bytes are enough at any nesting, the context only
  moves forward, and \<open>NANOCBOR_OK\<close> means that it moved.\<close>

theorem skip_terminates:
  assumes "dec_wf buf it" and "no_wrap buf" and "length buf \<le> fuel"
  shows "\<exists>res it'. nanocbor_skip fuel buf it uninit = Ret (res, it') \<and> moved it it' \<and> res \<le> 0 \<and>
    (res = 0 \<longrightarrow> v_cur it < v_cur it')"
  using assms by (rule skip_total)

theorem skip_terminates_witness:
  "\<exists>res it'. nanocbor_skip 3 [0x9F, 1, 0xFF] example_ctx example_ctx = Ret (res, it') \<and>
    moved example_ctx it' \<and> res \<le> 0 \<and> (res = 0 \<longrightarrow> v_cur example_ctx < v_cur it')"
  using skip_terminates [of "[0x9F, 1, 0xFF]" example_ctx 3 example_ctx]
  by (simp add: dec_wf_def no_wrap_def head_wraps_def)

text \<open>C40: Without that assumption \<open>nanocbor_skip\<close> need not end. On the ten bytes of
  \<open>wrap_input\<close>, an indefinite array with a byte string head of length \<open>2 ^ 64 - 9\<close>, no number of
  iterations is enough, because \<open>_get_str\<close> adds head and length in \<open>size_t\<close>, gets 0, and
  reports success without advancing.\<close>

theorem skip_diverges_on_wrap:
  "nanocbor_skip fuel wrap_input
     (nanocbor_decoder_init \<lparr>v_cur = 0, v_end = 0, v_remaining = 0, v_flags = 0\<rparr> 10) uninit = NoFuel"
  by (rule wrap_skip) (simp_all add: nanocbor_decoder_init_def)

text \<open>\<open>nanocbor_get_key_tstr\<close> reports success for a key that is not in the map: the status of the
  last \<open>nanocbor_skip\<close> overwrites \<open>NANOCBOR_NOT_FOUND\<close>. Here the only key is "a" and the one
  looked for is "b".\<close>

theorem get_key_tstr_ok_on_missing_key:
  "nanocbor_get_key_tstr (Suc (Suc fuel)) [0x61, 0x61, 0x01] example_ctx [0x62, 0] uninit =
     Ret (NANOCBOR_OK, example_ctx\<lparr>v_cur := 3, v_remaining := - 2\<rparr>)"
  by (simp add: nanocbor_get_key_tstr_def nanocbor_get_tstr_def nanocbor_skip_def skip_limited.simps
      skip_simple_def strncmp_def dec_eval)

end
