(* ===== verification/Nanocbor_Roundtrip.thy ===== *)
theory Nanocbor_Roundtrip
  imports Nanocbor_Encoder Nanocbor_Safety
begin

text \<open>
  The encoder against the decoder: what encoder.c writes, decoder.c reads back, and a
  sizing pass of the encoder without a buffer computes exactly the number of bytes that the
  real pass writes.
\<close>

section \<open>Reading an encoded head\<close>

lemma type_bits: "drop_bit 5 (b AND 0xE0) = drop_bit 5 (b :: byte)"
proof -
  have eq: "(0xE0 :: byte) = push_bit 5 (mask 3)" by (simp add: mask_eq_exp_minus_1)
  show ?thesis unfolding eq
    by (rule bit_word_eqI) (auto simp: bit_simps simp del: push_bit_mask_eq dest: bit_imp_le_length)
qed

lemma head_fields:
  assumes "0 \<le> t" and "t < 8" and "unat x < 32"
  shows "major_type (NANOCBOR_MASK t OR x) = t"
    and "(NANOCBOR_MASK t OR x) AND NANOCBOR_VALUE_MASK = x"
proof -
  have x: "take_bit 5 x = x" by (rule take_bit_small) (simp add: assms)
  have "unat (drop_bit 5 x) = 0" unfolding unat_drop_bit using assms by (intro div_less) simp
  then have d: "drop_bit 5 x = 0" by (simp only: unat_eq_zero)
  have t: "t \<in> {0, 1, 2, 3, 4, 5, 6, 7}" using assms by auto
  then have mask: "drop_bit 5 (NANOCBOR_MASK t) = word_of_int t" "take_bit 5 (NANOCBOR_MASK t) = 0"
    "uint (word_of_int t :: byte) = t"
    by (auto simp: NANOCBOR_MASK_def)
  then show "major_type (NANOCBOR_MASK t OR x) = t"
    unfolding major_type_def type_bits by (simp add: drop_bit_or d)
  show "(NANOCBOR_MASK t OR x) AND NANOCBOR_VALUE_MASK = x"
    unfolding low_bits using x mask by (simp add: take_bit_or)
qed

text \<open>The item at the context's position starts with the bytes \<open>bs\<close>, and is not behind the end.\<close>

definition starts :: "bytes \<Rightarrow> nanocbor_value \<Rightarrow> bytes \<Rightarrow> bool" where
  "starts buf v bs \<longleftrightarrow> v_cur v + length bs \<le> v_end v \<and> sub_bytes (v_cur v) (length bs) buf = bs \<and>
     nanocbor_at_end buf v = Ret False"

lemma starts_Cons:
  assumes "dec_wf buf v" and "starts buf v (h # bs)"
  shows "buf ! v_cur v = h" and "v_cur v < v_end v" and "sub_bytes (v_cur v + 1) (length bs) buf = bs"
    and "v_cur v + 1 + length bs \<le> length buf"
proof -
  have eq: "take (Suc (length bs)) (drop (v_cur v) buf) = h # bs"
    and le: "v_cur v + Suc (length bs) \<le> length buf"
    using assms by (auto simp: starts_def sub_bytes_def dec_wf_def)
  then have "drop (v_cur v) buf = buf ! v_cur v # drop (v_cur v + 1) buf"
    by (simp add: Cons_nth_drop_Suc)
  then show "buf ! v_cur v = h" "sub_bytes (v_cur v + 1) (length bs) buf = bs"
    using eq by (simp_all add: sub_bytes_def)
  show "v_cur v < v_end v" "v_cur v + 1 + length bs \<le> length buf"
    using assms le by (auto simp: starts_def)
qed

lemma starts_get_type:
  assumes "dec_wf buf v" and "starts buf v (h # bs)"
  shows "nanocbor_get_type buf v = Ret (major_type h)"
  using starts_Cons [OF assms] assms
  by (simp add: nanocbor_get_type_def get_type_def starts_def major_type_def)

text \<open>A head with \<open>2 ^ k\<close> argument bytes.\<close>

lemma get_arg_long:
  assumes wf: "dec_wf buf v" and st: "starts buf v ((NANOCBOR_MASK t OR word_of_nat (24 + k)) # bs)"
    and t: "0 \<le> t" "t < 8" and k: "k \<le> 3" "length bs = 2 ^ k" and maxb: "24 + k \<le> unat maxb"
  shows "get_arg buf v 0 maxb = Ret (int (1 + 2 ^ k), be_word bs)"
proof -
  let ?l = "word_of_nat (24 + k) :: byte"
  have ul: "unat ?l = 24 + k" using k by (intro unat_word_of_nat) auto
  have l: "(NANOCBOR_MASK t OR ?l) AND NANOCBOR_VALUE_MASK = ?l"
    using head_fields(2) [OF t, of ?l] ul k by simp
  have "unat (word_of_nat k :: byte) = k" using k by (intro unat_word_of_nat) auto
  then have "\<not> ?l < NANOCBOR_SIZE_BYTE" "\<not> ?l > maxb" "unat (?l - NANOCBOR_SIZE_BYTE) = k"
    using ul maxb by (simp_all add: word_less_nat_alt unat_sub word_le_nat_alt)
  moreover have "\<not> v_cur v + 2 ^ k \<ge> v_end v" using st k by (simp add: starts_def)
  moreover have "bswap64 (le_word (replicate (8 - 2 ^ k) 0 @ bs)) = be_word bs"
    using bswap64_pad [of bs] k power_increasing [of k 3 "2 :: nat"] by simp
  moreover have "v_cur v + 1 + 2 ^ k \<le> length buf" "sub_bytes (v_cur v + 1) (2 ^ k) buf = bs"
    "v_cur v < length buf" "buf ! v_cur v = NANOCBOR_MASK t OR ?l"
    using starts_Cons [OF wf st] k by auto
  ultimately show ?thesis
    unfolding get_arg_def
    by (cases "2 ^ k = (8 :: nat)") (simp_all add: l Let_def store_low32_def del: of_nat_add)
qed


lemma get_arg_short:
  assumes wf: "dec_wf buf v" and st: "starts buf v [NANOCBOR_MASK t OR ucast num]"
    and t: "0 \<le> t" "t < 8" and num: "unat (num :: u64) < 24"
  shows "get_arg buf v 0 maxb = Ret (1, num)"
proof -
  have u: "unat (ucast num :: byte) = unat num" using num by (simp add: unat_ucast_mod)
  then have l: "(NANOCBOR_MASK t OR ucast num) AND NANOCBOR_VALUE_MASK = ucast num"
    using head_fields(2) [OF t, of "ucast num"] num by simp
  have "unat (ucast (ucast num :: byte) :: u64) = unat num"
    using u num by (simp add: unat_ucast_mod)
  then have ret: "(ucast (ucast num :: byte) :: u64) = num" by (simp only: word_unat_eq_iff)
  have "(ucast num :: byte) < NANOCBOR_SIZE_BYTE" using u num by (simp add: word_less_nat_alt)
  then show ?thesis
    using starts_Cons [OF wf st] l ret by (simp add: get_arg_def Let_def store_low32_def)
qed

text \<open>What a head announces is read back, when the reader accepts arguments that long.\<close>

lemma get_arg_head:
  assumes wf: "dec_wf buf v" and st: "starts buf v (head_bytes (NANOCBOR_MASK t) num)"
    and t: "0 \<le> t" "t < 8"
    and maxb: "maxb = NANOCBOR_SIZE_LONG \<or> maxb = NANOCBOR_SIZE_WORD \<and> unat num < 2 ^ 32"
  shows "get_arg buf v 0 maxb = Ret (int (length (head_bytes (NANOCBOR_MASK t) num)), num)"
proof -
  have be: "be_word (be_bytes n num) = num" if "unat num < 2 ^ (8 * n)" for n
    unfolding be_word_be_bytes_take using that by (rule take_bit_small)
  consider (h) "unat num < 24" | (b) "24 \<le> unat num" "unat num < 2 ^ 8"
    | (s) "2 ^ 8 \<le> unat num" "unat num < 2 ^ 16" | (w) "2 ^ 16 \<le> unat num" "unat num < 2 ^ 32"
    | (l) "2 ^ 32 \<le> unat num" by linarith
  then show ?thesis
  proof cases
    case h
    then show ?thesis using get_arg_short [OF wf _ t h] st by (simp add: head_bytes_def)
  next
    case b
    then show ?thesis
      using get_arg_long [OF wf _ t, of 0 "be_bytes 1 num" maxb] st be [of 1] maxb
      by (auto simp: head_bytes_def)
  next
    case s
    then show ?thesis
      using get_arg_long [OF wf _ t, of 1 "be_bytes 2 num" maxb] st be [of 2] maxb
      by (auto simp: head_bytes_def)
  next
    case w
    then show ?thesis
      using get_arg_long [OF wf _ t, of 2 "be_bytes 4 num" maxb] st be [of 4] maxb
      by (auto simp: head_bytes_def)
  next
    case l
    then show ?thesis
      using get_arg_long [OF wf _ t, of 3 "be_bytes 8 num" maxb] st be [of 8] maxb
      by (auto simp: head_bytes_def)
  qed
qed

lemma head_bytes_Cons:
  "\<exists>x bs. head_bytes (NANOCBOR_MASK t) num = (NANOCBOR_MASK t OR x) # bs \<and> unat x < 32"
  by (auto simp: head_bytes_def unat_ucast_mod)

lemma head_type:
  assumes "dec_wf buf v" and "starts buf v (head_bytes (NANOCBOR_MASK t) num)" and "0 \<le> t" and "t < 8"
  shows "nanocbor_get_type buf v = Ret t"
proof -
  obtain x bs where *: "head_bytes (NANOCBOR_MASK t) num = (NANOCBOR_MASK t OR x) # bs" "unat x < 32"
    using head_bytes_Cons by blast
  then show ?thesis
    using starts_get_type [OF assms(1), of "NANOCBOR_MASK t OR x" bs] assms(2)
      head_fields(1) [OF assms(3,4) *(2)] by simp
qed

lemma get_uint64_head:
  assumes "dec_wf buf v" and "starts buf v (head_bytes (NANOCBOR_MASK t) num)" and "0 \<le> t" and "t < 8"
    and "maxb = NANOCBOR_SIZE_LONG \<or> maxb = NANOCBOR_SIZE_WORD \<and> unat num < 2 ^ 32"
  shows "get_uint64 buf v 0 maxb t = Ret (int (length (head_bytes (NANOCBOR_MASK t) num)), num)"
  using head_type [OF assms(1-4)] get_arg_head [OF assms] assms(3) by (simp add: get_uint64_arg)


section \<open>Reading what was written\<close>

text \<open>A decoder context at the place where the encoder wrote its next item.\<close>

definition reads_at :: "nanocbor_encoder \<Rightarrow> nanocbor_encoder \<Rightarrow> nanocbor_value \<Rightarrow> bool" where
  "reads_at enc enc' v \<longleftrightarrow> dec_wf (enc_buf enc') v \<and> v_cur v = enc_cur enc \<and>
     enc_cur enc' \<le> v_end v \<and> nanocbor_at_end (enc_buf enc') v = Ret False"

lemma put_item_starts:
  assumes wf: "enc_wf enc" and eq: "put_item enc (bs @ rest) = (res, enc')" and ok: "res > 0"
    and rd: "reads_at enc enc' v"
  shows "starts (enc_buf enc') v bs" and "dec_wf (enc_buf enc') v"
    and "enc_cur enc' = v_cur v + length (bs @ rest)" and "enc_cur enc' \<le> v_end v"
    and "sub_bytes (v_cur v + length bs) (length rest) (enc_buf enc') = rest"
proof -
  have room: "enc_cur enc + length (bs @ rest) \<le> enc_end enc"
    using eq ok by (auto simp: put_item_def split: if_splits)
  then have enc': "enc_buf enc' = take (enc_cur enc) (enc_buf enc) @ bs @ rest @
      drop (enc_cur enc + length (bs @ rest)) (enc_buf enc)"
    "enc_cur enc' = enc_cur enc + length (bs @ rest)"
    using eq by (auto simp: put_item_def)
  have le: "length (take (enc_cur enc) (enc_buf enc)) = enc_cur enc"
    using wf by (simp add: enc_wf_def)
  show "enc_cur enc' = v_cur v + length (bs @ rest)" "enc_cur enc' \<le> v_end v" "dec_wf (enc_buf enc') v"
    using rd enc' by (auto simp: reads_at_def)
  have "sub_bytes (enc_cur enc) (length bs) (enc_buf enc') = bs"
    unfolding enc' using le by (intro sub_bytes_append_mid) simp_all
  then show "starts (enc_buf enc') v bs"
    using rd enc' by (auto simp: starts_def reads_at_def)
  show "sub_bytes (v_cur v + length bs) (length rest) (enc_buf enc') = rest"
    using rd le sub_bytes_append_mid [of "v_cur v + length bs" "take (enc_cur enc) (enc_buf enc) @ bs"
        "length rest" rest "drop (enc_cur enc + length (bs @ rest)) (enc_buf enc)"]
    unfolding enc' reads_at_def by simp
qed

lemma put_item_res: "put_item enc bs = (res, enc') \<Longrightarrow> res > 0 \<Longrightarrow> res = int (length bs)"
  by (auto simp: put_item_def split: if_splits)

lemma length_head [simp]: "length (head_bytes t num) \<le> 9" "head_bytes t num \<noteq> []"
  by (auto simp: head_bytes_def)

lemma advance_small: "n \<le> 9 \<Longrightarrow> 0 < n \<Longrightarrow> advance_if v (int n) =
    (int n, v\<lparr>v_cur := v_cur v + n, v_remaining := v_remaining v - 1\<rparr>)"
  by (simp add: advance_if_def advance_def unat_of_nat)

lemma length_head_pos: "0 < length (head_bytes t num)"
  by simp

lemma mask_values: "NANOCBOR_MASK 0 = 0" "NANOCBOR_MASK 1 = 0x20" "NANOCBOR_MASK 2 = 0x40"
  by (simp_all add: NANOCBOR_MASK_def)

lemma head_read:
  assumes wf: "enc_wf enc" and t: "0 \<le> t" "t < 8"
    and eq: "put_item enc (head_bytes (NANOCBOR_MASK t) num) = (res, enc')" and ok: "res > 0"
    and rd: "reads_at enc enc' v" and num: "unat num < 2 ^ 32"
  shows "get_uint64 (enc_buf enc') v 0 NANOCBOR_SIZE_WORD t = Ret (res, num)"
    and "nanocbor_get_type (enc_buf enc') v = Ret t"
    and "advance_if v res = (res, v\<lparr>v_cur := enc_cur enc', v_remaining := v_remaining v - 1\<rparr>)"
proof -
  note st = put_item_starts [where rest = "[]", unfolded append_Nil2, OF wf eq ok rd]
  note res = put_item_res [OF eq ok]
  show "get_uint64 (enc_buf enc') v 0 NANOCBOR_SIZE_WORD t = Ret (res, num)"
    using get_uint64_head [OF st(2,1) t, of NANOCBOR_SIZE_WORD] num res by simp
  show "nanocbor_get_type (enc_buf enc') v = Ret t"
    using st t by (intro head_type)
  show "advance_if v res = (res, v\<lparr>v_cur := enc_cur enc', v_remaining := v_remaining v - 1\<rparr>)"
    using advance_small [OF length_head(1) length_head_pos] st(3) res by simp
qed

lemma uint_read:
  assumes wf: "enc_wf enc" and eq: "nanocbor_fmt_uint enc num = Ret (res, enc')" and ok: "res > 0"
    and rd: "reads_at enc enc' v" and num: "unat num < 2 ^ 32"
  shows "nanocbor_get_uint32 (enc_buf enc') v =
    Ret (res, ucast num, v\<lparr>v_cur := enc_cur enc', v_remaining := v_remaining v - 1\<rparr>)"
proof -
  have "put_item enc (head_bytes (NANOCBOR_MASK 0) num) = (res, enc')"
    using eq run_op_spec [OF wf, of "OpUint num"] by (simp add: mask_values)
  from head_read [OF wf _ _ this ok rd num] show ?thesis
    by (simp add: nanocbor_get_uint32_def get_and_advance_uint32_def)
qed

lemma sint_sign_extend: "sint (scast (i :: u32) :: u64) = sint i"
  using sint_ge [of i] sint_lt [of i] by (simp add: signed_scast_eq signed_take_bit_int_eq_self)

text \<open>The magnitude that is encoded for a 32 bit integer fits 31 bits.\<close>

lemma int_magnitude:
  fixes i :: u32
  defines "x \<equiv> if sint i < 0 then NOT i else i"
  shows "(if sint i < 0 then NOT (scast i) else scast i) = (ucast x :: u64)" and "unat x < 2 ^ 31"
proof -
  have sign: "bit i 31 \<longleftrightarrow> sint i < 0" using bit_last_iff [of i] by simp
  show "(if sint i < 0 then NOT (scast i) else scast i) = (ucast x :: u64)"
  proof (rule bit_word_eqI)
    fix n assume "n < LENGTH(64)"
    then have *: "bit (scast i :: u64) n \<longleftrightarrow> bit i (min n 31)" by (simp add: bit_signed_iff min.commute)
    show "bit (if sint i < 0 then NOT (scast i) else scast i :: u64) n = bit (ucast x :: u64) n"
      using * sign by (cases "n < 32") (auto simp: x_def bit_simps min_def dest: bit_imp_le_length)
  qed
  have top: "\<not> bit x 31" using sign by (auto simp: x_def bit_simps)
  have "x = take_bit 31 x"
  proof (rule bit_word_eqI)
    fix n assume "n < LENGTH(32)"
    then show "bit x n = bit (take_bit 31 x) n"
      using top by (cases "n = 31") (auto simp: bit_simps)
  qed
  then have "unat x = unat x mod 2 ^ 31" by (metis unat_take_bit)
  then show "unat x < 2 ^ 31" by (metis mod_less_divisor zero_less_numeral zero_less_power)
qed

lemma int_read:
  fixes i :: u32
  assumes wf: "enc_wf enc" and eq: "nanocbor_fmt_int enc (scast i) = Ret (res, enc')" and ok: "res > 0"
    and rd: "reads_at enc enc' v"
  shows "nanocbor_get_int32 (enc_buf enc') v old =
    Ret (res, i, v\<lparr>v_cur := enc_cur enc', v_remaining := v_remaining v - 1\<rparr>)"
proof -
  define x where "x = (if sint i < 0 then NOT i else i)"
  define t :: int where "t = (if sint i < 0 then 1 else 0)"
  have t: "0 \<le> t" "t < 8" "t = 1 \<or> t = 0" by (auto simp: t_def)
  have small: "unat x < 2 ^ 31" using int_magnitude(2) [of i] by (simp add: x_def)
  then have "unat (ucast x :: u64) < 2 ^ 32" by (simp add: unat_ucast_mod)
  moreover have "put_item enc (head_bytes (NANOCBOR_MASK t) (ucast x)) = (res, enc')"
    using eq run_op_spec [OF wf, of "OpInt (scast i)"] int_magnitude(1) [of i]
    by (auto simp: mask_values t_def x_def sint_sign_extend split: if_splits)
  moreover have "(ucast (ucast x :: u64) :: u32) = x" by (rule bit_word_eqI) (simp add: bit_simps)
  moreover have "\<not> x > 0x7FFFFFFF" using small by (simp add: word_less_nat_alt)
  moreover have "(if t = NANOCBOR_TYPE_NINT then - x - 1 else x) = i"
    by (auto simp: t_def x_def not_eq_complement)
  ultimately show ?thesis
    using head_read [OF wf t(1,2) _ ok rd, of "ucast x"] t
    by (simp add: nanocbor_get_int32_def get_and_advance_int32_def Let_def split: if_splits)
qed


lemma put_bytes_spec:
  assumes wf: "enc_wf enc" and len: "unat len < 2 ^ 31" "unat len \<le> length str" "0 < unat len"
  shows "put_bytes enc str len = Ret (case put_item enc (take (unat len) str) of
    (res, enc') \<Rightarrow> (if res > 0 then NANOCBOR_OK else res, enc'))"
proof -
  have "0 < uint len" using len(3) by (simp only: uint_nat of_nat_0_less_iff)
  then show ?thesis
    using len wf fits_eq [OF wf len(1)]
    by (auto simp: put_bytes_def put_item_def enc_emit_def enc_wf_def)
qed

lemma length_head_le: "0 < unat len \<Longrightarrow> length (head_bytes t len) \<le> unat len"
  by (auto simp: head_bytes_def)

lemma put_bstr_spec:
  assumes wf: "enc_wf enc" and len: "unat len < 2 ^ 31" "unat len \<le> length str" "0 < unat len"
    and eq: "nanocbor_put_bstr enc str len = Ret (NANOCBOR_OK, enc')"
  shows "put_item enc (head_bytes (NANOCBOR_MASK 2) len @ take (unat len) str) =
    (int (length (head_bytes (NANOCBOR_MASK 2) len) + unat len), enc')"
proof -
  let ?h = "head_bytes (NANOCBOR_MASK 2) len" and ?s = "take (unat len) str"
  let ?e = "snd (put_item enc ?h)"
  have "nanocbor_fmt_bstr enc len = Ret (put_item enc ?h)"
    unfolding nanocbor_fmt_bstr_def by (rule fmt_uint64_spec [OF wf])
  then have r: "put_item ?e ?s = (int (unat len), enc')"
    using eq put_bytes_spec [OF enc_wf_put_item [OF wf] len, of ?h] len
    by (auto simp: nanocbor_put_bstr_def case_prod_beta put_item_def split: if_splits)
  then have "enc_cur ?e + unat len \<le> enc_end enc"
  proof -
    have "int (unat len) \<noteq> NANOCBOR_ERR_END" by linarith
    with r show ?thesis using len by (simp add: put_item_def split: if_splits)
  qed
  then have room: "enc_cur enc + length ?h + unat len \<le> enc_end enc"
    using length_head_le [OF len(3), of "NANOCBOR_MASK 2"] by (auto simp: put_item_def split: if_splits)
  then show ?thesis
    using r len wf by (auto simp: put_item_def enc_wf_def ac_simps)
qed

lemma sub_bytes_append:
  assumes "sub_bytes off (length (a @ b)) buf = a @ b"
  shows "sub_bytes off (length a) buf = a" and "sub_bytes (off + length a) (length b) buf = b"
proof -
  have *: "take (length a + length b) (drop off buf) = a @ b" using assms by (simp add: sub_bytes_def)
  from arg_cong [OF this, of "take (length a)"] show "sub_bytes off (length a) buf = a"
    by (simp add: sub_bytes_def)
  from arg_cong [OF *, of "drop (length a)"] show "sub_bytes (off + length a) (length b) buf = b"
    by (simp add: sub_bytes_def drop_take add.commute)
qed

lemma starts_append:
  assumes "starts buf v (a @ b)"
  shows "starts buf v a" and "sub_bytes (v_cur v + length a) (length b) buf = b"
    and "v_cur v + length a + length b \<le> v_end v"
  using assms sub_bytes_append [of "v_cur v" a b buf] by (simp_all add: starts_def)

text \<open>A string in the buffer is found behind its head.\<close>

lemma get_str_starts:
  assumes wf: "dec_wf buf v" and t: "0 \<le> t" "t < 8"
    and st: "starts buf v (head_bytes (NANOCBOR_MASK t) (word_of_nat (length s)) @ s)"
  defines "n \<equiv> length (head_bytes (NANOCBOR_MASK t) (word_of_nat (length s)))"
  shows "get_str buf v ptr t = Ret (NANOCBOR_OK, Some (v_cur v + n), word_of_nat (length s),
      v\<lparr>v_cur := v_cur v + n + length s, v_remaining := v_remaining v - 1\<rparr>)"
    and "sub_bytes (v_cur v + n) (length s) buf = s" and "v_cur v + n + length s \<le> v_end v"
proof -
  note a = starts_append [OF st]
  show in_buf: "v_cur v + n + length s \<le> v_end v" "sub_bytes (v_cur v + n) (length s) buf = s"
    using a(2,3) by (simp_all add: n_def)
  have len: "length s < 2 ^ 31" using in_buf(1) wf by (auto simp: dec_wf_def)
  then have u: "unat (word_of_nat (length s) :: u64) = length s" by (intro unat_word_of_nat) simp
  have n9: "n \<le> 9" by (simp add: n_def)
  then have un: "unat (word_of_nat n :: u64) = n" by (intro unat_word_of_nat) simp
  have sum: "unat (word_of_nat n + word_of_nat (length s) :: u64) = n + length s"
    using u un n9 len by (simp add: unat_word_ariths)
  have "get_uint64 buf v 0 NANOCBOR_SIZE_SIZET t = Ret (int n, word_of_nat (length s))"
    using wf a(1) t by (simp add: get_uint64_head n_def)
  moreover have "\<not> (word_of_nat (v_end v - v_cur v) :: u64) < word_of_nat (length s) + word_of_int (int n)"
    using in_buf(1) sum unat_avail [OF wf] by (simp add: word_less_nat_alt add.commute)
  moreover have "unat (ucast (word_of_nat n + word_of_nat (length s) :: u64) :: u32) = n + length s"
    unfolding unat_ucast_mod sum using n9 len by simp
  ultimately show "get_str buf v ptr t = Ret (NANOCBOR_OK, Some (v_cur v + n), word_of_nat (length s),
      v\<lparr>v_cur := v_cur v + n + length s, v_remaining := v_remaining v - 1\<rparr>)"
    using in_buf(1) by (simp add: get_str_def advance_def)
qed

lemma bstr_read:
  assumes wf: "enc_wf enc" and len: "unat len < 2 ^ 31" "unat len \<le> length str" "0 < unat len"
    and eq: "nanocbor_put_bstr enc str len = Ret (NANOCBOR_OK, enc')" and rd: "reads_at enc enc' v"
  shows "\<exists>p. nanocbor_get_bstr (enc_buf enc') v ptr =
      Ret (NANOCBOR_OK, Some p, len, v\<lparr>v_cur := enc_cur enc', v_remaining := v_remaining v - 1\<rparr>) \<and>
    sub_bytes p (unat len) (enc_buf enc') = take (unat len) str"
proof -
  let ?s = "take (unat len) str" and ?h = "head_bytes (NANOCBOR_MASK 2) len"
  have s: "length ?s = unat len" "word_of_nat (unat len) = len" using len by simp_all
  have pos: "0 < int (length ?h + unat len)" using len(3) by (simp only: of_nat_0_less_iff)
  note st = put_item_starts [where rest = "[]", unfolded append_Nil2, OF wf put_bstr_spec [OF wf len eq] pos rd]
  have t: "0 \<le> (2 :: int)" "(2 :: int) < 8" by simp_all
  have start: "starts (enc_buf enc') v (head_bytes (NANOCBOR_MASK 2) (word_of_nat (length ?s)) @ ?s)"
    using st(1) by (simp only: s)
  have "enc_cur enc' = v_cur v + length ?h + unat len" using st(3) s(1) by simp
  then show ?thesis
    using get_str_starts(1,2) [OF st(2) t start] unfolding nanocbor_get_bstr_def s by auto
qed

section \<open>Properties\<close>

text \<open>A 32 bit unsigned integer that \<open>nanocbor_fmt_uint\<close> wrote, in any of its forms, is read back
  by \<open>nanocbor_get_uint32\<close> with the same byte count, and the reader stands where the writer
  stopped.\<close>

theorem uint32_roundtrip:
  assumes "enc_wf enc" and "nanocbor_fmt_uint enc num = Ret (res, enc')" and "res > 0"
    and "reads_at enc enc' v" and "unat num < 2 ^ 32"
  shows "nanocbor_get_uint32 (enc_buf enc') v =
    Ret (res, ucast num, v\<lparr>v_cur := enc_cur enc', v_remaining := v_remaining v - 1\<rparr>)"
  using assms by (rule uint_read)

definition example_enc :: nanocbor_encoder where
  "example_enc = nanocbor_encoder_init [0, 0, 0, 0, 0] 5"

definition example_dec :: nanocbor_value where
  "example_dec = \<lparr>v_cur = 0, v_end = 5, v_remaining = 0, v_flags = 0\<rparr>"

lemma example_wf: "enc_wf example_enc"
  by (simp add: enc_wf_def example_enc_def nanocbor_encoder_init_def)

lemma example_fmt_uint:
  "nanocbor_fmt_uint example_enc 500 = Ret (3, example_enc\<lparr>enc_buf := [0x19, 1, 0xF4, 0, 0], enc_cur := 3, enc_len := 3\<rparr>)"
  using run_op_spec [OF example_wf, of "OpUint 500"]
  by (simp add: head_bytes_def put_item_def example_enc_def nanocbor_encoder_init_def be_bytes_def
      le_bytes_def upt_rec)

theorem uint32_roundtrip_witness:
  "nanocbor_get_uint32 [0x19, 1, 0xF4, 0, 0] example_dec =
    Ret (3, 500, example_dec\<lparr>v_cur := 3, v_remaining := - 1\<rparr>)"
  using uint32_roundtrip [OF example_wf example_fmt_uint, of example_dec]
  by (simp add: reads_at_def dec_wf_def example_dec_def example_enc_def nanocbor_encoder_init_def
      nanocbor_at_end_def over_end_def nanocbor_container_indefinite_def nanocbor_in_container_def)

text \<open>Every \<open>int32_t\<close>, negative ones included, that \<open>nanocbor_fmt_int\<close> wrote is read back by
  \<open>nanocbor_get_int32\<close>.\<close>

theorem int32_roundtrip:
  fixes i :: u32
  assumes "enc_wf enc" and "nanocbor_fmt_int enc (scast i) = Ret (res, enc')" and "res > 0"
    and "reads_at enc enc' v"
  shows "nanocbor_get_int32 (enc_buf enc') v old =
    Ret (res, i, v\<lparr>v_cur := enc_cur enc', v_remaining := v_remaining v - 1\<rparr>)"
  using assms by (rule int_read)

lemma example_fmt_int:
  "nanocbor_fmt_int example_enc (scast (- 3 :: u32)) = Ret (1, example_enc\<lparr>enc_buf := [0x22, 0, 0, 0, 0], enc_cur := 1, enc_len := 1\<rparr>)"
  using run_op_spec [OF example_wf, of "OpInt (- 3)"]
  by (simp add: head_bytes_def put_item_def example_enc_def nanocbor_encoder_init_def)

theorem int32_roundtrip_witness:
  "nanocbor_get_int32 [0x22, 0, 0, 0, 0] example_dec 0 =
    Ret (1, - 3, example_dec\<lparr>v_cur := 1, v_remaining := - 1\<rparr>)"
  using int32_roundtrip [OF example_wf example_fmt_int, of example_dec 0]
  by (simp add: reads_at_def dec_wf_def example_dec_def example_enc_def nanocbor_encoder_init_def
      nanocbor_at_end_def over_end_def nanocbor_container_indefinite_def nanocbor_in_container_def)

text \<open>A non-empty byte string that \<open>nanocbor_put_bstr\<close> reports as written is found by
  \<open>nanocbor_get_bstr\<close>: the slice it returns holds exactly the bytes of the string.\<close>

theorem bstr_roundtrip:
  assumes "enc_wf enc" and "unat len < 2 ^ 31" and "unat len \<le> length str" and "0 < unat len"
    and "nanocbor_put_bstr enc str len = Ret (NANOCBOR_OK, enc')" and "reads_at enc enc' v"
  shows "\<exists>p. nanocbor_get_bstr (enc_buf enc') v ptr =
      Ret (NANOCBOR_OK, Some p, len, v\<lparr>v_cur := enc_cur enc', v_remaining := v_remaining v - 1\<rparr>) \<and>
    sub_bytes p (unat len) (enc_buf enc') = take (unat len) str"
  using assms by (rule bstr_read)

lemma example_put_bstr:
  "nanocbor_put_bstr example_enc [7, 9] 2 =
     Ret (NANOCBOR_OK, example_enc\<lparr>enc_buf := [0x42, 7, 9, 0, 0], enc_cur := 3, enc_len := 3\<rparr>)"
  unfolding nanocbor_put_bstr_def nanocbor_fmt_bstr_def fmt_uint64_spec [OF example_wf]
  by (simp add: head_bytes_def put_item_def put_bytes_def fits_def enc_emit_def wr_def c_int_def
      example_enc_def nanocbor_encoder_init_def NANOCBOR_MASK_def)

theorem bstr_roundtrip_witness:
  "\<exists>p. nanocbor_get_bstr [0x42, 7, 9, 0, 0] example_dec None =
      Ret (NANOCBOR_OK, Some p, 2, example_dec\<lparr>v_cur := 3, v_remaining := - 1\<rparr>) \<and>
    sub_bytes p 2 [0x42, 7, 9, 0, 0] = [7, 9]"
  using bstr_roundtrip [OF example_wf _ _ _ example_put_bstr, of example_dec None]
  by (simp add: reads_at_def dec_wf_def example_dec_def example_enc_def nanocbor_encoder_init_def
      nanocbor_at_end_def over_end_def nanocbor_container_indefinite_def nanocbor_in_container_def)

text \<open>The empty string is different: on a full buffer \<open>nanocbor_put_bstr\<close> reports success for it
  although nothing was written, not even its head.\<close>

theorem put_bstr_empty_on_full_buffer:
  assumes "enc_wf enc" and "enc_cur enc = enc_end enc"
  shows "nanocbor_put_bstr enc [] 0 = Ret (NANOCBOR_OK, enc\<lparr>enc_len := enc_len enc + 1\<rparr>)"
  using assms fits_eq [of "enc\<lparr>enc_len := enc_len enc + 1\<rparr>" 0]
  by (simp add: nanocbor_put_bstr_def nanocbor_fmt_bstr_def fmt_uint64_spec put_item_def head_bytes_def
      put_bytes_def enc_emit_def enc_wf_def)

theorem put_bstr_empty_on_full_buffer_witness:
  "nanocbor_put_bstr (nanocbor_encoder_init [] 0) [] 0 =
     Ret (NANOCBOR_OK, (nanocbor_encoder_init [] 0)\<lparr>enc_len := 1\<rparr>)"
  using put_bstr_empty_on_full_buffer [of "nanocbor_encoder_init [] 0"]
  by (simp add: enc_wf_def nanocbor_encoder_init_def)

text \<open>C32: The size of an encoding does not depend on the buffer. A pass over any list of items with an
  empty buffer returns from \<open>nanocbor_encoded_len\<close> the number of bytes, and a second pass over a
  buffer of that size fills it completely with the concatenated items.\<close>

theorem sizing_pass_exact:
  assumes "length (ops_bytes xs) < 2 ^ 63" and "length buf = length (ops_bytes xs)"
  shows "\<exists>sized full. run_ops (nanocbor_encoder_init [] 0) xs = Ret sized \<and>
    unat (nanocbor_encoded_len sized) = length (ops_bytes xs) \<and>
    run_ops (nanocbor_encoder_init buf (nanocbor_encoded_len sized)) xs = Ret full \<and>
    enc_buf full = ops_bytes xs \<and> nanocbor_encoded_len full = nanocbor_encoded_len sized"
proof -
  let ?n = "length (ops_bytes xs)"
  have n: "unat (word_of_nat ?n :: u64) = ?n" using assms by (intro unat_word_of_nat) simp
  obtain sized where sized: "run_ops (nanocbor_encoder_init [] 0) xs = Ret sized"
    "enc_len sized = word_of_nat ?n"
    using run_ops_len [of "nanocbor_encoder_init [] 0" xs]
    by (auto simp: nanocbor_encoder_init_def enc_wf_def)
  let ?enc = "nanocbor_encoder_init buf (word_of_nat ?n)"
  have "enc_wf ?enc" "enc_cur ?enc + ?n \<le> enc_end ?enc"
    using assms n by (simp_all add: enc_wf_def nanocbor_encoder_init_def)
  then have "run_ops ?enc xs = Ret (snd (put_item ?enc (ops_bytes xs)))"
    by (rule run_ops_write)
  then show ?thesis
    using sized n assms by (simp add: nanocbor_encoded_len_def put_item_def nanocbor_encoder_init_def)
qed

theorem sizing_pass_exact_witness:
  "\<exists>sized full. run_ops (nanocbor_encoder_init [] 0) [OpArray 2, OpUint 7, OpNull] = Ret sized \<and>
    unat (nanocbor_encoded_len sized) = 3 \<and>
    run_ops (nanocbor_encoder_init [0, 0, 0] (nanocbor_encoded_len sized)) [OpArray 2, OpUint 7, OpNull] = Ret full \<and>
    enc_buf full = [0x82, 7, 0xF6] \<and> nanocbor_encoded_len full = nanocbor_encoded_len sized"
  using sizing_pass_exact [of "[OpArray 2, OpUint 7, OpNull]" "[0, 0, 0]"]
  by (simp add: ops_bytes_def head_bytes_def numeral_3_eq_3 del: run_ops.simps)


text \<open>A signalling NaN whose payload is in the low 13 bits of the fraction is encoded by
  \<open>nanocbor_fmt_float\<close> as the half-precision infinity: the test for infinities and NaNs
  skips the check that no fraction bit is lost.\<close>

theorem fmt_float_nan_to_infinity:
  assumes "enc_wf enc"
  shows "nanocbor_fmt_float enc 0x7F800001 = Ret (put_item enc [0xF9, 0x7C, 0x00]) \<and>
    nanocbor_fmt_float enc 0x7F800000 = Ret (put_item enc [0xF9, 0x7C, 0x00])"
proof -
  have low: "(31744 :: byte) = 0" by code_simp
  have "float_bytes 0x7F800001 = [0xF9, 0x7C, 0x00]" "float_bytes 0x7F800000 = [0xF9, 0x7C, 0x00]"
    by (simp_all add: float_bytes_def single_is_inf_nan_def half_of_single_def be_bytes_def
        le_bytes_def upt_rec low)
  then show ?thesis by (simp add: fmt_float_spec [OF assms])
qed

theorem fmt_float_nan_to_infinity_witness:
  "nanocbor_fmt_float example_enc 0x7F800001 = nanocbor_fmt_float example_enc 0x7F800000"
  using fmt_float_nan_to_infinity [OF example_wf] by simp

end
