(* ===== verification/Nanocbor_Item.thy ===== *)
theory Nanocbor_Item
  imports Nanocbor_Roundtrip
begin

text \<open>
  Whole CBOR documents: trees of data items, their encoding (RFC 8949, with the shortest heads, strings of
  definite length and both forms of containers), and how decoder.c enters and skips them: \<open>nanocbor_skip\<close>
  finds the end of an item exactly, up to the nesting it allows. The head of a tag is an item of its own here, because
  decoder.c takes it for one; the last property shows what that does to the skipping.
\<close>

section \<open>Data items\<close>

text \<open>The flag of a container says whether its length is indefinite. \<open>CTag\<close> is the head of a tag without its
  content, and \<open>CFloat k\<close> an item of major type 7 with \<open>2 ^ k\<close> bytes after its head: a simple value
  or a float.\<close>

datatype cbor =
    CUint u64 | CNint u64 | CBstr bytes | CTstr bytes
  | CArr bool "cbor list" | CMap bool "(cbor \<times> cbor) list"
  | CTag u64 | CSimple byte | CFloat nat bytes

definition box :: "int \<Rightarrow> bool \<Rightarrow> nat \<Rightarrow> bytes \<Rightarrow> bytes" where
  "box t indef n body =
     (if indef then (NANOCBOR_MASK t OR NANOCBOR_SIZE_INDEFINITE) # body @ [0xFF]
      else head_bytes (NANOCBOR_MASK t) (word_of_nat n) @ body)"

fun cbor_bytes :: "cbor \<Rightarrow> bytes" where
  "cbor_bytes (CUint n) = head_bytes (NANOCBOR_MASK 0) n"
| "cbor_bytes (CNint n) = head_bytes (NANOCBOR_MASK 1) n"
| "cbor_bytes (CBstr s) = head_bytes (NANOCBOR_MASK 2) (word_of_nat (length s)) @ s"
| "cbor_bytes (CTstr s) = head_bytes (NANOCBOR_MASK 3) (word_of_nat (length s)) @ s"
| "cbor_bytes (CArr indef xs) = box 4 indef (length xs) (concat (map cbor_bytes xs))"
| "cbor_bytes (CMap indef ps) = box 5 indef (length ps) (concat (map (\<lambda>(k, v). cbor_bytes k @ cbor_bytes v) ps))"
| "cbor_bytes (CTag n) = head_bytes (NANOCBOR_MASK 6) n"
| "cbor_bytes (CSimple b) = [NANOCBOR_MASK 7 OR b]"
| "cbor_bytes (CFloat k bs) = (NANOCBOR_MASK 7 OR word_of_nat (24 + k)) # bs"

fun flat :: "('a \<times> 'a) list \<Rightarrow> 'a list" where
  "flat [] = []"
| "flat ((k, v) # ps) = k # v # flat ps"

text \<open>Simple values below 24 in one byte; one, two, four or eight bytes after the other heads of type 7.\<close>

fun cbor_ok :: "cbor \<Rightarrow> bool" where
  "cbor_ok (CArr indef xs) \<longleftrightarrow> (\<forall>x \<in> set xs. cbor_ok x)"
| "cbor_ok (CMap indef ps) \<longleftrightarrow> (\<forall>(k, v) \<in> set ps. cbor_ok k \<and> cbor_ok v)"
| "cbor_ok (CSimple b) \<longleftrightarrow> unat b < 24"
| "cbor_ok (CFloat k bs) \<longleftrightarrow> k \<le> 3 \<and> length bs = 2 ^ k"
| "cbor_ok _ \<longleftrightarrow> True"

fun depth :: "cbor \<Rightarrow> nat" where
  "depth (CArr indef xs) = Suc (Max (insert 0 (set (map depth xs))))"
| "depth (CMap indef ps) = Suc (Max (insert 0 (set (map (\<lambda>(k, v). max (depth k) (depth v)) ps))))"
| "depth _ = 1"

lemma set_flat: "set (flat ps) = fst ` set ps \<union> snd ` set ps"
  by (induction ps rule: flat.induct) auto

lemma length_flat [simp]: "length (flat ps) = 2 * length ps"
  by (induction ps rule: flat.induct) auto

lemma concat_flat: "concat (map (\<lambda>(k, v). f k @ f v) ps) = concat (map f (flat ps))"
  by (induction ps rule: flat.induct) auto

text \<open>Induction with one hypothesis for all members of a container.\<close>

lemma cbor_induct [case_names atom arr map]:
  assumes atom: "\<And>x. (\<And>i xs. x \<noteq> CArr i xs) \<Longrightarrow> (\<And>i ps. x \<noteq> CMap i ps) \<Longrightarrow> P x"
    and arr: "\<And>i xs. (\<And>x. x \<in> set xs \<Longrightarrow> P x) \<Longrightarrow> P (CArr i xs)"
    and map: "\<And>i ps. (\<And>x. x \<in> set (flat ps) \<Longrightarrow> P x) \<Longrightarrow> P (CMap i ps)"
  shows "P x"
proof (induction x)
  case (CArr i xs)
  then show ?case by (rule arr)
next
  case (CMap i ps)
  show ?case
  proof (rule map)
    fix x assume "x \<in> set (flat ps)"
    then obtain p where "p \<in> set ps" "x \<in> Basic_BNFs.fsts p \<or> x \<in> Basic_BNFs.snds p"
      by (auto simp: set_flat)
    then show "P x" using CMap.IH by blast
  qed
qed (rule atom; simp)+

lemma depth_members:
  "x \<in> set xs \<Longrightarrow> depth (CArr i xs) \<le> Suc n \<Longrightarrow> depth x \<le> n"
  "x \<in> set (flat ps) \<Longrightarrow> depth (CMap i ps) \<le> Suc n \<Longrightarrow> depth x \<le> n"
  by (auto simp: set_flat)

lemma depth_pos: "0 < depth x"
  by (cases x) auto

lemma ok_members:
  "x \<in> set xs \<Longrightarrow> cbor_ok (CArr i xs) \<Longrightarrow> cbor_ok x"
  "x \<in> set (flat ps) \<Longrightarrow> cbor_ok (CMap i ps) \<Longrightarrow> cbor_ok x"
  by (auto simp: set_flat)

section \<open>Items in a buffer\<close>

text \<open>The context behind an item of \<open>n\<close> bytes. Leaving a container does not count down from 0.\<close>

definition past :: "nanocbor_value \<Rightarrow> nat \<Rightarrow> nanocbor_value \<Rightarrow> bool" where
  "past v n v' \<longleftrightarrow> v_cur v' = v_cur v + n \<and> v_end v' = v_end v \<and> v_flags v' = v_flags v \<and>
     (v_remaining v \<noteq> 0 \<longrightarrow> v_remaining v' = v_remaining v - 1)"

lemma skip_limited_str:
  assumes "0 < limit" and "nanocbor_get_type buf v = Ret t" and "t = 2 \<or> t = 3"
    and "get_str buf v None t = Ret (0, p, len, v')"
  shows "skip_limited fuel buf v u limit = Ret (0, v')"
  using assms by (auto simp: skip_limited.simps)

lemma skip_limited_simple:
  assumes "0 < limit" and "nanocbor_get_type buf v = Ret t" and "t \<in> {0, 1, 6, 7}"
    and "get_uint64 buf v 0 NANOCBOR_SIZE_LONG t = Ret (int n, x)" and "0 < n" and "n \<le> 9"
  shows "skip_limited fuel buf v u limit = Ret (0, v\<lparr>v_cur := v_cur v + n, v_remaining := v_remaining v - 1\<rparr>)"
  using assms advance_small [of n v] by (auto simp: skip_limited.simps skip_simple_def)

lemma past_advance: "past v n (v\<lparr>v_cur := v_cur v + n, v_remaining := v_remaining v - 1\<rparr>)"
  by (simp add: past_def)

lemma skip_head:
  assumes "dec_wf buf v" and "0 < limit" and "t \<in> {0, 1, 6}" and "starts buf v (head_bytes (NANOCBOR_MASK t) n)"
  shows "\<exists>v'. skip_limited fuel buf v u limit = Ret (0, v') \<and> past v (length (head_bytes (NANOCBOR_MASK t) n)) v'"
proof -
  have t: "0 \<le> t" "t < 8" using assms(3) by auto
  note head = get_uint64_head [OF assms(1,4) t, of NANOCBOR_SIZE_LONG] head_type [OF assms(1,4) t]
  then show ?thesis
    using skip_limited_simple [OF assms(2) head(2) _ _ length_head_pos length_head(1)] assms(3) past_advance by blast
qed

lemma skip_str:
  assumes "dec_wf buf v" and "0 < limit" and "t = 2 \<or> t = 3"
    and st: "starts buf v (head_bytes (NANOCBOR_MASK t) (word_of_nat (length s)) @ s)"
  shows "\<exists>v'. skip_limited fuel buf v u limit = Ret (0, v') \<and>
    past v (length (head_bytes (NANOCBOR_MASK t) (word_of_nat (length s)) @ s)) v'"
proof -
  have t: "0 \<le> t" "t < 8" using assms(3) by auto
  have "nanocbor_get_type buf v = Ret t" using assms(1) starts_append(1) [OF st] t by (rule head_type)
  from skip_limited_str [OF assms(2) this assms(3) get_str_starts(1) [OF assms(1) t st]]
  show ?thesis by (simp add: past_def)
qed

lemma skip_simple_value:
  assumes "dec_wf buf v" and "0 < limit" and "unat b < 24" and st: "starts buf v [NANOCBOR_MASK 7 OR b]"
  shows "\<exists>v'. skip_limited fuel buf v u limit = Ret (0, v') \<and> past v 1 v'"
proof -
  have "unat (ucast b :: u64) = unat b" using assms(3) by (simp add: unat_ucast_mod)
  moreover have "ucast (ucast b :: u64) = b" by (rule bit_word_eqI) (auto simp: bit_simps)
  ultimately have "head_bytes (NANOCBOR_MASK 7) (ucast b) = [NANOCBOR_MASK 7 OR b]"
    using assms(3) by (simp add: head_bytes_def)
  then have st: "starts buf v (head_bytes (NANOCBOR_MASK 7) (ucast b))" "length (head_bytes (NANOCBOR_MASK 7) (ucast b)) = 1"
    using st by simp_all
  have t: "nanocbor_get_type buf v = Ret 7" using assms(1) st(1) by (rule head_type) simp_all
  have "get_uint64 buf v 0 NANOCBOR_SIZE_LONG 7 = Ret (int 1, ucast b)"
    using get_uint64_head [OF assms(1) st(1), of NANOCBOR_SIZE_LONG] st(2) by simp
  from skip_limited_simple [OF assms(2) t _ this] show ?thesis using past_advance [of v 1] by auto
qed

lemma skip_float:
  assumes "dec_wf buf v" and "0 < limit" and k: "k \<le> 3" "length bs = 2 ^ k"
    and st: "starts buf v ((NANOCBOR_MASK 7 OR word_of_nat (24 + k)) # bs)"
  shows "\<exists>v'. skip_limited fuel buf v u limit = Ret (0, v') \<and> past v (1 + 2 ^ k) v'"
proof -
  have small: "unat (word_of_nat (24 + k) :: byte) < 32" using k by (subst unat_word_of_nat) auto
  have t: "nanocbor_get_type buf v = Ret 7"
    using starts_get_type [OF assms(1) st] head_fields(1) [OF _ _ small, of 7] by simp
  have "get_arg buf v 0 NANOCBOR_SIZE_LONG = Ret (int (1 + 2 ^ k), be_word bs)"
    using k by (intro get_arg_long [OF assms(1) st]) auto
  then have g: "get_uint64 buf v 0 NANOCBOR_SIZE_LONG 7 = Ret (int (1 + 2 ^ k), be_word bs)"
    using t by (simp add: get_uint64_arg)
  have "(2 :: nat) ^ k \<le> 2 ^ 3" using k(1) by (intro power_increasing) auto
  then have "0 < 1 + (2 :: nat) ^ k" "1 + (2 :: nat) ^ k \<le> 9" by simp_all
  from skip_limited_simple [OF assms(2) t _ g this] show ?thesis using past_advance [of v "1 + 2 ^ k"] by auto
qed

section \<open>Containers\<close>

lemma cbor_bytes_nonempty [simp]: "cbor_bytes x \<noteq> []"
  by (cases x) (simp_all add: box_def)

abbreviation body :: "cbor list \<Rightarrow> bytes" where
  "body xs \<equiv> concat (map cbor_bytes xs)"

abbreviation tail :: "bool \<Rightarrow> bytes" where
  "tail indef \<equiv> (if indef then [0xFF] else [])"

lemma length_body: "length xs \<le> length (body xs)"
proof (induction xs)
  case (Cons x xs)
  moreover have "0 < length (cbor_bytes x)" by simp
  ultimately show ?case by (simp del: cbor_bytes_nonempty length_greater_0_conv)
qed simp

text \<open>A context that stands in a container before the items \<open>xs\<close>.\<close>

definition inside :: "bytes \<Rightarrow> nanocbor_value \<Rightarrow> bool \<Rightarrow> cbor list \<Rightarrow> bool" where
  "inside buf c indef xs \<longleftrightarrow> v_flags c = (if indef then 3 else 1) \<and>
     (\<not> indef \<longrightarrow> v_remaining c = word_of_nat (length xs)) \<and>
     v_cur c + length (body xs @ tail indef) \<le> v_end c \<and>
     sub_bytes (v_cur c) (length (body xs @ tail indef)) buf = body xs @ tail indef"

lemma not_mark: "unat x < 31 \<Longrightarrow> 0 \<le> t \<Longrightarrow> t < 8 \<Longrightarrow> NANOCBOR_MASK t OR x \<noteq> NANOCBOR_MASK t' OR NANOCBOR_SIZE_INDEFINITE"
proof
  assume a: "unat x < 31" "0 \<le> t" "t < 8" "NANOCBOR_MASK t OR x = NANOCBOR_MASK t' OR NANOCBOR_SIZE_INDEFINITE"
  have "x = (NANOCBOR_MASK t OR x) AND NANOCBOR_VALUE_MASK" using a head_fields(2) [of t x] by simp
  also have "\<dots> = (NANOCBOR_MASK t' OR NANOCBOR_SIZE_INDEFINITE) AND NANOCBOR_VALUE_MASK" using a by simp
  also have "\<dots> = NANOCBOR_SIZE_INDEFINITE"
    unfolding low_bits NANOCBOR_MASK_def by (simp add: take_bit_or take_bit_push_bit)
  finally show False using a by simp
qed

lemma head_bytes_short: "\<exists>x bs. head_bytes t num = (t OR x) # bs \<and> unat x < 28"
  by (auto simp: head_bytes_def unat_ucast_mod)

lemma mask_7: "NANOCBOR_MASK 7 OR NANOCBOR_SIZE_INDEFINITE = 0xFF"
  by (simp add: NANOCBOR_MASK_def)

text \<open>No item starts with the byte that ends an indefinite container.\<close>

lemma hd_cbor_bytes:
  assumes "cbor_ok x"
  shows "hd (cbor_bytes x) \<noteq> 0xFF"
proof -
  have head: "hd (head_bytes (NANOCBOR_MASK t) n @ bs) \<noteq> 0xFF" if "0 \<le> t" "t < 8" for t n bs
    using head_bytes_short [of "NANOCBOR_MASK t" n] not_mark [of _ t 7] that mask_7 by force
  have cont: "NANOCBOR_MASK t OR NANOCBOR_SIZE_INDEFINITE \<noteq> 0xFF" if "t = 4 \<or> t = 5" for t
    using that by (auto simp: NANOCBOR_MASK_def)
  have float: "NANOCBOR_MASK 7 OR word_of_nat (24 + k) \<noteq> 0xFF" if "k \<le> 3" for k
  proof -
    have "unat (word_of_nat (24 + k) :: byte) < 31" using that by (subst unat_word_of_nat) auto
    then show ?thesis using not_mark [of "word_of_nat (24 + k)" 7 7] mask_7 by simp
  qed
  show ?thesis
    using assms head [of _ _ "[]"] head cont float not_mark [of _ 7 7] mask_7
    by (cases x) (auto simp: box_def simp del: of_nat_add)
qed

lemma inside_Nil: "dec_wf buf c \<Longrightarrow> inside buf c indef [] \<Longrightarrow> nanocbor_at_end buf c = Ret True"
  by (cases indef) (auto simp: inside_def nanocbor_at_end_def nanocbor_container_indefinite_def
      nanocbor_in_container_def sub_bytes_def over_end_def dec_wf_def take_Suc_conv_app_nth hd_drop_conv_nth
      simp flip: hd_drop_conv_nth)

lemma inside_Cons:
  assumes wf: "dec_wf buf c" and ins: "inside buf c indef (x # xs)" and ok: "cbor_ok x"
  shows "starts buf c (cbor_bytes x)"
    and "past c (length (cbor_bytes x)) c' \<Longrightarrow> inside buf c' indef xs"
proof -
  let ?b = "cbor_bytes x" and ?r = "body xs @ tail indef"
  have bytes: "sub_bytes (v_cur c) (length (?b @ ?r)) buf = ?b @ ?r" "v_cur c + length (?b @ ?r) \<le> v_end c"
    using ins by (simp_all add: inside_def)
  note split = sub_bytes_append [OF bytes(1)]
  have len: "length (x # xs) < 2 ^ 31"
    using length_body [of "x # xs"] bytes(2) wf by (simp add: dec_wf_def)
  have "length ?b \<noteq> 0" by simp
  then have pos: "v_cur c < v_end c" "v_cur c < length buf"
    using bytes(2) wf unfolding dec_wf_def length_append by linarith+
  have "buf ! v_cur c = hd ?b"
    using split(1) pos by (cases ?b) (auto simp: sub_bytes_def take_Suc_conv_app_nth hd_drop_conv_nth
        dest!: arg_cong [of _ _ hd])
  then have "indef \<Longrightarrow> buf ! v_cur c \<noteq> 0xFF" using hd_cbor_bytes [OF ok] by simp
  moreover have nz: "\<not> indef \<Longrightarrow> v_remaining c \<noteq> 0"
  proof -
    assume "\<not> indef"
    then have "v_remaining c = word_of_nat (length (x # xs))" using ins by (simp add: inside_def)
    moreover have "unat (word_of_nat (length (x # xs)) :: u32) = length (x # xs)"
      using len by (intro unat_word_of_nat) simp
    ultimately have "unat (v_remaining c) = length (x # xs)" by simp
    then show ?thesis by auto
  qed
  ultimately have "nanocbor_at_end buf c = Ret False"
    using pos ins by (cases indef) (auto simp: inside_def nanocbor_at_end_def over_end_def
        nanocbor_container_indefinite_def nanocbor_in_container_def)
  then show "starts buf c ?b" using bytes(2) split(1) by (simp add: starts_def)
  show "inside buf c' indef xs" if "past c (length ?b) c'"
    using that ins split(2) bytes(2) nz by (auto simp: inside_def past_def)
qed

text \<open>Entering a container.\<close>

definition entered :: "nanocbor_value \<Rightarrow> nanocbor_value \<Rightarrow> int \<Rightarrow> bool \<Rightarrow> nat \<Rightarrow> nanocbor_value" where
  "entered v u t indef n = u\<lparr>v_end := v_end v, v_remaining := if indef then 0 else word_of_nat n,
     v_flags := if indef then 3 else 1,
     v_cur := v_cur v + (if indef then 1 else length (head_bytes (NANOCBOR_MASK t) (word_of_nat n)))\<rparr>"

lemma enter_container_box:
  assumes wf: "dec_wf buf v" and t: "t = 4 \<or> t = 5" and n: "n < 2 ^ 31" and st: "starts buf v (box t indef n bs)"
  shows "enter_container buf v u t = Ret (0, entered v u t indef n)" and "nanocbor_get_type buf v = Ret t"
proof -
  have t8: "0 \<le> t" "t < 8" using t by auto
  have not_end: "\<not> over_end v" using st by (auto simp: starts_def nanocbor_at_end_def)
  note rd = rd1_in [OF wf not_end]
  have "enter_container buf v u t = Ret (0, entered v u t indef n) \<and> nanocbor_get_type buf v = Ret t"
  proof (cases indef)
    case True
    then have st: "starts buf v ((NANOCBOR_MASK t OR NANOCBOR_SIZE_INDEFINITE) # bs @ [0xFF])"
      using st by (simp add: box_def)
    have "major_type (NANOCBOR_MASK t OR NANOCBOR_SIZE_INDEFINITE) = t" using t8 by (intro head_fields) simp_all
    then show ?thesis
      using True starts_Cons(1) [OF wf st] starts_get_type [OF wf st] rd not_end
      by (simp add: enter_container_def entered_def Let_def)
  next
    case False
    let ?h = "head_bytes (NANOCBOR_MASK t) (word_of_nat n)"
    have st: "starts buf v ?h" using st False starts_append(1) by (simp add: box_def)
    obtain x b where h: "?h = (NANOCBOR_MASK t OR x) # b" "unat x < 28" using head_bytes_short by blast
    have mark: "buf ! v_cur v \<noteq> NANOCBOR_MASK t OR NANOCBOR_SIZE_INDEFINITE"
      using starts_Cons(1) [OF wf st [unfolded h(1)]] not_mark [OF _ t8, of x t] h(2) by simp
    have un: "unat (word_of_nat n :: u64) = n" using n by (intro unat_word_of_nat) simp
    have "get_uint64 buf v 0 NANOCBOR_SIZE_WORD t = Ret (int (length ?h), word_of_nat n)"
      using n un by (intro get_uint64_head [OF wf st t8]) auto
    moreover have "(ucast (word_of_nat n :: u64) :: u32) = word_of_nat n"
      using n by (simp add: unsigned_of_nat take_bit_nat_eq_self)
    ultimately show ?thesis
      using False mark rd not_end head_type [OF wf st t8]
      by (simp add: enter_container_def entered_def Let_def)
  qed
  then show "enter_container buf v u t = Ret (0, entered v u t indef n)" "nanocbor_get_type buf v = Ret t" by simp_all
qed

lemma entered_inside:
  assumes st: "starts buf v (box t indef n (body xs))" and "length xs = k"
    and c: "c = (entered v u t indef n)\<lparr>v_remaining := if indef then 0 else word_of_nat k\<rparr>"
  shows "inside buf c indef xs" and "v_end c = v_end v"
    and "v_cur c + length (body xs @ tail indef) = v_cur v + length (box t indef n (body xs))"
proof -
  let ?h = "if indef then [NANOCBOR_MASK t OR NANOCBOR_SIZE_INDEFINITE]
    else head_bytes (NANOCBOR_MASK t) (word_of_nat n)"
  have "box t indef n (body xs) = ?h @ body xs @ tail indef" by (simp add: box_def)
  then have st: "starts buf v (?h @ body xs @ tail indef)" using st by simp
  note a = starts_append [OF st]
  have cur: "v_cur c = v_cur v + length ?h" by (simp add: c entered_def)
  show "inside buf c indef xs"
    unfolding inside_def cur using a(2,3) assms(2) by (auto simp: c entered_def)
  show "v_end c = v_end v" by (simp add: c entered_def)
  show "v_cur c + length (body xs @ tail indef) = v_cur v + length (box t indef n (body xs))"
    unfolding cur by (simp add: box_def)
qed

lemma starts_members:
  assumes "dec_wf buf v" and "starts buf v (box t indef n (body xs))"
  shows "length xs < 2 ^ 31"
  using assms length_body [of xs] by (auto simp: starts_def dec_wf_def box_def split: if_splits)

lemma enter_array_inside:
  assumes wf: "dec_wf buf v" and st: "starts buf v (cbor_bytes (CArr indef xs))"
  obtains c where "nanocbor_enter_array buf v u = Ret (0, c)" and "inside buf c indef xs" and "v_end c = v_end v"
    and "v_cur c + length (body xs @ tail indef) = v_cur v + length (cbor_bytes (CArr indef xs))"
    and "nanocbor_get_type buf v = Ret 4"
proof -
  let ?c = "entered v u 4 indef (length xs)"
  have st: "starts buf v (box 4 indef (length xs) (body xs))" using st by simp
  have "?c = ?c\<lparr>v_remaining := if indef then 0 else word_of_nat (length xs)\<rparr>" by (simp add: entered_def)
  note ins = entered_inside [OF st refl this]
  from enter_container_box(1) [OF wf _ starts_members [OF wf st] st, of u] ins
    enter_container_box(2) [OF wf _ starts_members [OF wf st] st] show ?thesis
    by (intro that [of ?c]) (simp_all add: nanocbor_enter_array_def)
qed

lemma enter_map_inside:
  assumes wf: "dec_wf buf v" and st: "starts buf v (cbor_bytes (CMap indef ps))"
  obtains c where "nanocbor_enter_map buf v u = Ret (0, c)" and "inside buf c indef (flat ps)" and "v_end c = v_end v"
    and "v_cur c + length (body (flat ps) @ tail indef) = v_cur v + length (cbor_bytes (CMap indef ps))"
    and "nanocbor_get_type buf v = Ret 5"
proof -
  let ?n = "length ps"
  let ?c = "(entered v u 5 indef ?n)\<lparr>v_remaining := if indef then 0 else word_of_nat (2 * ?n)\<rparr>"
  have st: "starts buf v (box 5 indef ?n (body (flat ps)))" using st by (simp add: concat_flat)
  have n: "2 * ?n < 2 ^ 31" using starts_members [OF wf st] by simp
  then have "unat (word_of_nat ?n :: u32) = ?n" by (intro unat_word_of_nat) simp
  then have small: "\<not> (word_of_nat ?n :: u32) > 0x7FFFFFFF" using n by (simp add: word_less_nat_alt)
  have "nanocbor_enter_map buf v u = Ret (0, ?c)" "nanocbor_get_type buf v = Ret 5"
    using enter_container_box(1) [OF wf _ _ st, of u] enter_container_box(2) [OF wf _ _ st] n small
    by (auto simp: nanocbor_enter_map_def entered_def mult.commute)
  with entered_inside [OF st, of "2 * ?n" ?c] show ?thesis by (intro that [of ?c]) (simp_all add: concat_flat)
qed

section \<open>Skipping an item\<close>

text \<open>\<open>skip_limited\<close> stands behind the item when the nesting is within its limit.\<close>

definition skips :: "bytes \<Rightarrow> nanocbor_value \<Rightarrow> cbor \<Rightarrow> bool" where
  "skips buf u x \<longleftrightarrow> (\<forall>v limit fuel. dec_wf buf v \<longrightarrow> starts buf v (cbor_bytes x) \<longrightarrow> depth x \<le> limit \<longrightarrow>
     length (cbor_bytes x) \<le> fuel \<longrightarrow>
     (\<exists>v'. skip_limited fuel buf v u limit = Ret (0, v') \<and> past v (length (cbor_bytes x)) v'))"

lemma skipsD:
  "skips buf u x \<Longrightarrow> dec_wf buf v \<Longrightarrow> starts buf v (cbor_bytes x) \<Longrightarrow> depth x \<le> limit \<Longrightarrow>
     length (cbor_bytes x) \<le> fuel \<Longrightarrow>
     \<exists>v'. skip_limited fuel buf v u limit = Ret (0, v') \<and> past v (length (cbor_bytes x)) v'"
  unfolding skips_def by blast

lemma skip_loop_members:
  assumes "\<And>x. x \<in> set xs \<Longrightarrow> skips buf u x \<and> cbor_ok x \<and> depth x \<le> limit"
    and "dec_wf buf c" and "inside buf c indef xs" and "length (body xs) < fuel"
  shows "\<exists>c'. skip_loop fuel buf c limit 0 u = Ret (0, c') \<and> v_cur c' = v_cur c + length (body xs) \<and>
    v_end c' = v_end c \<and> v_flags c' = v_flags c"
  using assms
proof (induction xs arbitrary: c fuel)
  case Nil
  then obtain n where "fuel = Suc n" by (cases fuel) auto
  with inside_Nil [OF Nil.prems(2,3)] show ?case by (simp add: skip_loop_Suc)
next
  case (Cons x xs)
  let ?n = "length (cbor_bytes x)"
  obtain m where m: "fuel = Suc m" using Cons.prems(4) by (cases fuel) auto
  have pos: "?n \<noteq> 0" by simp
  have "length (body (x # xs)) = ?n + length (body xs)" by simp
  then have fuel: "?n \<le> m" "length (body xs) < m" using Cons.prems(4) pos m by linarith+
  have x: "skips buf u x" "cbor_ok x" "depth x \<le> limit" using Cons.prems(1) [of x] by auto
  note ins = inside_Cons [OF Cons.prems(2,3) x(2)]
  obtain c1 where c1: "skip_limited m buf c u limit = Ret (0, c1)" "past c ?n c1"
    using skipsD [OF x(1) Cons.prems(2) ins(1) x(3) fuel(1)] by blast
  have wf: "dec_wf buf c1" using Cons.prems(2) c1(2) by (simp add: dec_wf_def past_def)
  have "\<exists>c'. skip_loop m buf c1 limit 0 u = Ret (0, c') \<and> v_cur c' = v_cur c1 + length (body xs) \<and>
    v_end c' = v_end c1 \<and> v_flags c' = v_flags c1"
    using Cons.prems(1) wf ins(2) [OF c1(2)] fuel(2) by (intro Cons.IH) auto
  then show ?case using c1 ins(1) m by (auto simp: skip_loop_Suc starts_def past_def)
qed

lemma skip_container:
  assumes members: "\<And>x. x \<in> set xs \<Longrightarrow> skips buf u x \<and> cbor_ok x \<and> depth x \<le> limit"
    and wf: "dec_wf buf v" and t: "nanocbor_get_type buf v = Ret t" "t = 4 \<or> t = 5"
    and enter: "(if t = 5 then nanocbor_enter_map buf v u else nanocbor_enter_array buf v u) = Ret (0, c)"
    and c: "inside buf c indef xs" "v_end c = v_end v" "v_cur c + length (body xs @ tail indef) = v_cur v + n"
    and fuel: "length (body xs) < fuel"
  shows "\<exists>v'. skip_limited fuel buf v u (Suc limit) = Ret (0, v') \<and> past v n v'"
proof -
  have wf': "dec_wf buf c" using wf c(2) by (simp add: dec_wf_def)
  obtain c' where c': "skip_loop fuel buf c limit 0 u = Ret (0, c')" "v_cur c' = v_cur c + length (body xs)"
    "v_end c' = v_end c" "v_flags c' = v_flags c"
    using skip_loop_members [OF members wf' c(1) fuel] by blast
  let ?v = "nanocbor_leave_container v c'"
  have "past v n ?v"
    using c c' by (auto simp: past_def nanocbor_leave_container_def nanocbor_container_indefinite_def inside_def
        Let_def split: if_splits)
  moreover have "skip_limited fuel buf v u (Suc limit) = Ret (0, ?v)"
    using t enter c' by (subst skip_limited.simps) auto
  ultimately show ?thesis by blast
qed

lemma body_less: "length (body xs) < length (box t indef n (body xs))"
  by (simp add: box_def)

lemma skip_atom:
  assumes ok: "cbor_ok x" and atom: "\<And>i xs. x \<noteq> CArr i xs" "\<And>i ps. x \<noteq> CMap i ps"
  shows "skips buf u x"
  unfolding skips_def
proof (intro allI impI)
  fix v limit fuel
  assume wf: "dec_wf buf v" and st: "starts buf v (cbor_bytes x)" and d: "depth x \<le> limit"
  have l: "0 < limit" using d depth_pos [of x] by simp
  show "\<exists>v'. skip_limited fuel buf v u limit = Ret (0, v') \<and> past v (length (cbor_bytes x)) v'"
  proof (cases x)
    case (CUint n)
    then show ?thesis using skip_head [OF wf l] st by simp
  next
    case (CNint n)
    then show ?thesis using skip_head [OF wf l] st by simp
  next
    case (CTag n)
    then show ?thesis using skip_head [OF wf l] st by simp
  next
    case (CBstr b)
    then show ?thesis using skip_str [OF wf l, of 2 b] st by simp
  next
    case (CTstr b)
    then show ?thesis using skip_str [OF wf l, of 3 b] st by simp
  next
    case (CSimple b)
    then show ?thesis using skip_simple_value [OF wf l, of b] st ok by simp
  next
    case (CFloat k bs)
    then show ?thesis using skip_float [OF wf l, of k bs] st ok by (simp del: of_nat_add)
  qed (use atom in blast)+
qed

lemma skip_arr:
  assumes mem: "\<And>x. x \<in> set xs \<Longrightarrow> skips buf u x" and ok: "cbor_ok (CArr i xs)"
  shows "skips buf u (CArr i xs)"
  unfolding skips_def
proof (intro allI impI)
  fix v limit fuel
  assume wf: "dec_wf buf v" and st: "starts buf v (cbor_bytes (CArr i xs))" and d: "depth (CArr i xs) \<le> limit"
    and fuel: "length (cbor_bytes (CArr i xs)) \<le> fuel"
  obtain l where l: "limit = Suc l" using d by (cases limit) auto
  have m: "skips buf u x \<and> cbor_ok x \<and> depth x \<le> l" if "x \<in> set xs" for x
    using mem [OF that] ok_members(1) [OF that ok] depth_members(1) [OF that, of i l] d l by blast
  have "length (body xs) < fuel" using fuel body_less [of xs 4 i "length xs"] by simp
  moreover obtain c where c: "nanocbor_enter_array buf v u = Ret (0, c)" "inside buf c i xs" "v_end c = v_end v"
    "v_cur c + length (body xs @ tail i) = v_cur v + length (cbor_bytes (CArr i xs))" "nanocbor_get_type buf v = Ret 4"
    by (rule enter_array_inside [OF wf st])
  ultimately show "\<exists>v'. skip_limited fuel buf v u limit = Ret (0, v') \<and> past v (length (cbor_bytes (CArr i xs))) v'"
    unfolding l by (intro skip_container [OF m wf c(5) _ _ c(2-4)]) (simp_all add: c(1))
qed

lemma skip_map:
  assumes mem: "\<And>x. x \<in> set (flat ps) \<Longrightarrow> skips buf u x" and ok: "cbor_ok (CMap i ps)"
  shows "skips buf u (CMap i ps)"
  unfolding skips_def
proof (intro allI impI)
  fix v limit fuel
  assume wf: "dec_wf buf v" and st: "starts buf v (cbor_bytes (CMap i ps))" and d: "depth (CMap i ps) \<le> limit"
    and fuel: "length (cbor_bytes (CMap i ps)) \<le> fuel"
  obtain l where l: "limit = Suc l" using d by (cases limit) auto
  have m: "skips buf u x \<and> cbor_ok x \<and> depth x \<le> l" if "x \<in> set (flat ps)" for x
    using mem [OF that] ok_members(2) [OF that ok] depth_members(2) [OF that, of i l] d l by blast
  have "length (body (flat ps)) < fuel"
    using fuel body_less [of "flat ps" 5 i "length ps"] by (simp add: concat_flat)
  moreover obtain c where c: "nanocbor_enter_map buf v u = Ret (0, c)" "inside buf c i (flat ps)" "v_end c = v_end v"
    "v_cur c + length (body (flat ps) @ tail i) = v_cur v + length (cbor_bytes (CMap i ps))" "nanocbor_get_type buf v = Ret 5"
    by (rule enter_map_inside [OF wf st])
  ultimately show "\<exists>v'. skip_limited fuel buf v u limit = Ret (0, v') \<and> past v (length (cbor_bytes (CMap i ps))) v'"
    unfolding l by (intro skip_container [OF m wf c(5) _ _ c(2-4)]) (simp_all add: c(1))
qed

lemma skip_item: "cbor_ok x \<Longrightarrow> skips buf u x"
proof (induction x rule: cbor_induct)
  case (arr i xs)
  then show ?case by (intro skip_arr) (blast intro: ok_members)+
next
  case (map i ps)
  then show ?case by (intro skip_map) (blast intro: ok_members)+
qed (rule skip_atom)

text \<open>An item that is nested deeper than the limit is refused.\<close>

definition refuses :: "bytes \<Rightarrow> nanocbor_value \<Rightarrow> cbor \<Rightarrow> bool" where
  "refuses buf u x \<longleftrightarrow> (\<forall>v limit fuel. dec_wf buf v \<longrightarrow> starts buf v (cbor_bytes x) \<longrightarrow> limit < depth x \<longrightarrow>
     length (cbor_bytes x) \<le> fuel \<longrightarrow> (\<exists>v'. skip_limited fuel buf v u limit = Ret (NANOCBOR_ERR_RECURSION, v')))"

lemma refusesD:
  "refuses buf u x \<Longrightarrow> dec_wf buf v \<Longrightarrow> starts buf v (cbor_bytes x) \<Longrightarrow> limit < depth x \<Longrightarrow>
     length (cbor_bytes x) \<le> fuel \<Longrightarrow> \<exists>v'. skip_limited fuel buf v u limit = Ret (NANOCBOR_ERR_RECURSION, v')"
  unfolding refuses_def by blast

lemma skip_loop_refuses:
  assumes "\<And>x. x \<in> set xs \<Longrightarrow> refuses buf u x \<and> cbor_ok x" and "\<exists>x \<in> set xs. limit < depth x"
    and "dec_wf buf c" and "inside buf c indef xs" and "length (body xs) < fuel"
  shows "\<exists>c'. skip_loop fuel buf c limit 0 u = Ret (NANOCBOR_ERR_RECURSION, c')"
  using assms
proof (induction xs arbitrary: c fuel)
  case (Cons x xs)
  let ?n = "length (cbor_bytes x)"
  obtain m where m: "fuel = Suc m" using Cons.prems(5) by (cases fuel) auto
  have pos: "?n \<noteq> 0" by simp
  have "length (body (x # xs)) = ?n + length (body xs)" by simp
  then have fuel: "?n \<le> m" "length (body xs) < m" using Cons.prems(5) pos m by linarith+
  have x: "refuses buf u x" "cbor_ok x" using Cons.prems(1) [of x] by auto
  note ins = inside_Cons [OF Cons.prems(3,4) x(2)]
  show ?case
  proof (cases "limit < depth x")
    case True
    obtain c' where "skip_limited m buf c u limit = Ret (NANOCBOR_ERR_RECURSION, c')"
      using refusesD [OF x(1) Cons.prems(3) ins(1) True fuel(1)] by blast
    then show ?thesis using ins(1) m by (simp add: skip_loop_Suc starts_def)
  next
    case False
    then obtain c1 where c1: "skip_limited m buf c u limit = Ret (0, c1)" "past c ?n c1"
      using skipsD [OF skip_item [OF x(2)] Cons.prems(3) ins(1) _ fuel(1), of limit u] by auto
    have wf: "dec_wf buf c1" using Cons.prems(3) c1(2) by (simp add: dec_wf_def past_def)
    have "\<exists>c'. skip_loop m buf c1 limit 0 u = Ret (NANOCBOR_ERR_RECURSION, c')"
      using Cons.prems(1,2) False wf ins(2) [OF c1(2)] fuel(2) by (intro Cons.IH) auto
    then show ?thesis using c1 ins(1) m by (auto simp: skip_loop_Suc starts_def)
  qed
qed simp

lemma container_refuses:
  assumes members: "\<And>x. x \<in> set xs \<Longrightarrow> refuses buf u x \<and> cbor_ok x"
    and deep: "limit = 0 \<or> (\<exists>x \<in> set xs. limit < Suc (depth x))" and wf: "dec_wf buf v"
    and t: "nanocbor_get_type buf v = Ret t" "t = 4 \<or> t = 5"
    and enter: "(if t = 5 then nanocbor_enter_map buf v u else nanocbor_enter_array buf v u) = Ret (0, c)"
    and c: "inside buf c indef xs" "v_end c = v_end v" and fuel: "length (body xs) < fuel"
  shows "\<exists>v'. skip_limited fuel buf v u limit = Ret (NANOCBOR_ERR_RECURSION, v')"
proof (cases limit)
  case 0
  then show ?thesis by (simp add: skip_limited.simps)
next
  case (Suc l)
  have "dec_wf buf c" using wf c(2) by (simp add: dec_wf_def)
  moreover have "\<exists>x \<in> set xs. l < depth x" using deep Suc by auto
  ultimately obtain c' where "skip_loop fuel buf c l 0 u = Ret (NANOCBOR_ERR_RECURSION, c')"
    using skip_loop_refuses [OF members] c(1) fuel by blast
  then show ?thesis using Suc t enter by (subst skip_limited.simps) auto
qed

lemma depth_exceeded:
  "limit < depth (CArr i xs) \<Longrightarrow> limit = 0 \<or> (\<exists>x \<in> set xs. limit < Suc (depth x))"
  "limit < depth (CMap i ps) \<Longrightarrow> limit = 0 \<or> (\<exists>x \<in> set (flat ps). limit < Suc (depth x))"
proof -
  have mx: "\<exists>y \<in> A. limit < Suc y" if "limit < Suc (Max (insert 0 A))" "limit \<noteq> 0" "finite A" for A
  proof -
    have "Max (insert 0 A) \<in> insert 0 A" using that(3) by (intro Max_in) auto
    then show ?thesis using that by auto
  qed
  show "limit < depth (CArr i xs) \<Longrightarrow> limit = 0 \<or> (\<exists>x \<in> set xs. limit < Suc (depth x))"
    using mx [of "set (map depth xs)"] by auto
  show "limit < depth (CMap i ps) \<Longrightarrow> limit = 0 \<or> (\<exists>x \<in> set (flat ps). limit < Suc (depth x))"
  proof -
    assume d: "limit < depth (CMap i ps)"
    let ?A = "set (map (\<lambda>(k, v). max (depth k) (depth v)) ps)"
    have "\<exists>x \<in> set (flat ps). limit < Suc (depth x)" if z: "limit \<noteq> 0"
    proof -
      have "\<exists>y \<in> ?A. limit < Suc y" using d by (intro mx z) simp_all
      then obtain k v where kv: "(k, v) \<in> set ps" "limit < Suc (max (depth k) (depth v))" by auto
      then have "k \<in> set (flat ps)" "v \<in> set (flat ps)" by (force simp: set_flat)+
      then show ?thesis using kv(2) by (auto simp: max_def split: if_splits)
    qed
    then show ?thesis by blast
  qed
qed

lemma deep_item: "cbor_ok x \<Longrightarrow> refuses buf u x"
proof (induction x rule: cbor_induct)
  case (atom x)
  then have "depth x = 1" by (cases x) (simp_all, blast+)
  then show ?case by (simp add: refuses_def skip_limited.simps)
next
  case (arr i xs)
  show ?case
    unfolding refuses_def
  proof (intro allI impI)
    fix v limit fuel
    assume wf: "dec_wf buf v" and st: "starts buf v (cbor_bytes (CArr i xs))" and d: "limit < depth (CArr i xs)"
      and fuel: "length (cbor_bytes (CArr i xs)) \<le> fuel"
    have m: "refuses buf u x \<and> cbor_ok x" if "x \<in> set xs" for x using that arr ok_members(1) [OF that] by blast
    obtain c where c: "nanocbor_enter_array buf v u = Ret (0, c)" "inside buf c i xs" "v_end c = v_end v"
      "nanocbor_get_type buf v = Ret 4" by (rule enter_array_inside [OF wf st])
    have "length (body xs) < fuel" using fuel body_less [of xs 4 i "length xs"] by simp
    then show "\<exists>v'. skip_limited fuel buf v u limit = Ret (NANOCBOR_ERR_RECURSION, v')"
      by (intro container_refuses [OF m depth_exceeded(1) [OF d] wf c(4) _ _ c(2,3)]) (simp_all add: c(1))
  qed
next
  case (map i ps)
  show ?case
    unfolding refuses_def
  proof (intro allI impI)
    fix v limit fuel
    assume wf: "dec_wf buf v" and st: "starts buf v (cbor_bytes (CMap i ps))" and d: "limit < depth (CMap i ps)"
      and fuel: "length (cbor_bytes (CMap i ps)) \<le> fuel"
    have m: "refuses buf u x \<and> cbor_ok x" if "x \<in> set (flat ps)" for x using that map ok_members(2) [OF that] by blast
    obtain c where c: "nanocbor_enter_map buf v u = Ret (0, c)" "inside buf c i (flat ps)" "v_end c = v_end v"
      "nanocbor_get_type buf v = Ret 5" by (rule enter_map_inside [OF wf st])
    have "length (body (flat ps)) < fuel"
      using fuel body_less [of "flat ps" 5 i "length ps"] by (simp add: concat_flat)
    then show "\<exists>v'. skip_limited fuel buf v u limit = Ret (NANOCBOR_ERR_RECURSION, v')"
      by (intro container_refuses [OF m depth_exceeded(2) [OF d] wf c(4) _ _ c(2,3)]) (simp_all add: c(1))
  qed
qed

lemma nanocbor_skip_item:
  assumes "dec_wf buf v" and "starts buf v (cbor_bytes x)" and "cbor_ok x" and "depth x \<le> NANOCBOR_RECURSION_MAX"
    and "length (cbor_bytes x) \<le> fuel"
  obtains v' where "nanocbor_skip fuel buf v u = Ret (NANOCBOR_OK, v')" and "past v (length (cbor_bytes x)) v'"
  using skipsD [OF skip_item [OF assms(3)] assms(1,2,4,5)] unfolding nanocbor_skip_def by blast

section \<open>Properties\<close>

text \<open>C19: On a complete CBOR item made of integers, strings of definite length, arrays and maps of definite or
  indefinite length, simple values and floats, with heads in their shortest form, \<open>nanocbor_skip\<close> stops exactly behind the
  item, and counts it once in the container around it, if the nesting is at most
  \<open>NANOCBOR_RECURSION_MAX\<close>; a deeper item gives \<open>NANOCBOR_ERR_RECURSION\<close>. The head of a tag counts as an item of its
  own. As many loop iterations as the item has bytes are enough. (Strings in chunks are not among these items;
  \<open>nanocbor_skip\<close> refuses them.)\<close>

theorem skip_exact:
  assumes "dec_wf buf v" and "starts buf v (cbor_bytes x)" and "cbor_ok x" and "length (cbor_bytes x) \<le> fuel"
  shows "if depth x \<le> NANOCBOR_RECURSION_MAX
    then \<exists>v'. nanocbor_skip fuel buf v u = Ret (NANOCBOR_OK, v') \<and> past v (length (cbor_bytes x)) v'
    else \<exists>v'. nanocbor_skip fuel buf v u = Ret (NANOCBOR_ERR_RECURSION, v')"
  using skipsD [OF skip_item [OF assms(3)] assms(1,2) _ assms(4), of NANOCBOR_RECURSION_MAX]
    refusesD [OF deep_item [OF assms(3)] assms(1,2) _ assms(4), of NANOCBOR_RECURSION_MAX]
  by (simp add: nanocbor_skip_def not_le)

definition item_ctx :: nanocbor_value where
  "item_ctx = \<lparr>v_cur = 1, v_end = 8, v_remaining = 0, v_flags = 0\<rparr>"

definition item_buf :: bytes where
  "item_buf = [0, 0x9F, 0xA1, 0x00, 0x41, 0x07, 0xFF, 0x05]"

theorem skip_exact_witness:
  "\<exists>v'. nanocbor_skip 6 item_buf item_ctx item_ctx = Ret (NANOCBOR_OK, v') \<and> past item_ctx 6 v'"
proof -
  let ?x = "CArr True [CMap False [(CUint 0, CBstr [7])]]"
  have x: "cbor_bytes ?x = [0x9F, 0xA1, 0x00, 0x41, 0x07, 0xFF]"
    by (simp add: box_def head_bytes_def NANOCBOR_MASK_def)
  have st: "starts item_buf item_ctx (cbor_bytes ?x)" unfolding x by code_simp
  have wf: "dec_wf item_buf item_ctx" by (simp add: dec_wf_def item_buf_def item_ctx_def)
  have len: "length (cbor_bytes ?x) = 6" unfolding x by simp
  have d: "depth ?x \<le> NANOCBOR_RECURSION_MAX" and ok: "cbor_ok ?x" by simp_all
  from skip_exact [OF wf st ok eq_refl [OF len], of item_ctx] show ?thesis by (simp only: len d if_True)
qed

text \<open>C38: Tags are not counted as part of the item they belong to, so an array with a tagged element is not skipped:
  in an array of any length with one element \<open>x\<close> under a tag, wherever it stands and whatever the other elements are
  (nested within the limit), \<open>nanocbor_skip\<close> reports success but stops one item too early, before the
  last element of the array (before the content of the tag, if the tagged element is the last).\<close>

theorem skip_stops_at_tag:
  fixes pre post :: "cbor list" and x :: cbor and t :: u64
  defines "arr \<equiv> head_bytes (NANOCBOR_MASK 4) (word_of_nat (length (pre @ [x] @ post))) @ body (pre @ CTag t # x # post)"
  assumes "dec_wf buf v" and "starts buf v arr" and "\<forall>y \<in> set (pre @ x # post). cbor_ok y \<and> depth y < NANOCBOR_RECURSION_MAX"
    and "length arr \<le> fuel"
  shows "\<exists>v'. nanocbor_skip fuel buf v u = Ret (NANOCBOR_OK, v') \<and>
    v_cur v' + length (cbor_bytes (last (x # post))) = v_cur v + length arr"
proof -
  let ?ys = "pre @ CTag t # butlast (x # post)"
  let ?a = "CArr False ?ys"
  have "x # post = butlast (x # post) @ [last (x # post)]" by (simp del: butlast.simps last.simps)
  from arg_cong [OF this, of body]
  have last: "cbor_bytes x @ body post = body (butlast (x # post)) @ cbor_bytes (last (x # post))"
    by (simp only: map_append concat_append list.map concat.simps append_Nil2)
  have arr: "arr = cbor_bytes ?a @ cbor_bytes (last (x # post))"
    unfolding arr_def by (simp add: box_def last del: butlast.simps last.simps)
  have ok: "cbor_ok y \<and> depth y < 10" if "y \<in> set ?ys" for y
    using that assms(4) in_set_butlastD [of y "x # post"] by (auto simp del: butlast.simps)
  have st: "starts buf v (cbor_bytes ?a)" using assms(3) unfolding arr by (rule starts_append(1))
  have "Max (insert 0 (set (map depth ?ys))) < 10" using ok by (subst Max_less_iff) auto
  then have d: "depth ?a \<le> NANOCBOR_RECURSION_MAX" unfolding depth.simps by linarith
  have a: "cbor_ok ?a" using ok by simp
  have "length (cbor_bytes ?a) \<le> fuel" using assms(5) unfolding arr by simp
  then obtain v' where "nanocbor_skip fuel buf v u = Ret (NANOCBOR_OK, v')" "past v (length (cbor_bytes ?a)) v'"
    by (rule nanocbor_skip_item [OF assms(2) st a d])
  then show ?thesis unfolding arr past_def by (auto simp del: cbor_bytes.simps)
qed

theorem skip_stops_at_tag_witness:
  "\<exists>v'. nanocbor_skip 3 [0x81, 0xC1, 0x05] example_ctx example_ctx = Ret (NANOCBOR_OK, v') \<and> v_cur v' = 2"
proof -
  let ?arr = "head_bytes (NANOCBOR_MASK 4) (word_of_nat (length ([] @ [CUint 5] @ []))) @ body ([] @ CTag 1 # CUint 5 # [])"
  have arr: "?arr = [0x81, 0xC1, 0x05]" by (simp add: head_bytes_def NANOCBOR_MASK_def)
  have st: "starts [0x81, 0xC1, 0x05] example_ctx ?arr" unfolding arr by code_simp
  have wf: "dec_wf [0x81, 0xC1, 0x05] example_ctx" by (simp add: dec_wf_def)
  have len: "length ?arr = 3" "length (cbor_bytes (last [CUint 5])) = 1" by (simp_all add: head_bytes_def)
  from skip_stops_at_tag [OF wf st _ eq_refl [OF len(1)], of example_ctx] show ?thesis
    unfolding len by simp
qed

end
