(* ===== verification/Nanocbor_Document.thy ===== *)
theory Nanocbor_Document
  imports Nanocbor_Item
begin

text \<open>
  Clients of the CBOR library on whole documents: the search for a text key in a map by
  \<open>nanocbor_get_key_tstr\<close> of decoder.c, and a tree written call by call with encoder.c and found again by
  \<open>nanocbor_get_subcbor\<close>.
\<close>

section \<open>Looking up a key\<close>

lemma strncmp_loop_key:
  assumes "length k = length key" and "key \<noteq> []" and "0 \<notin> set key"
  shows "\<exists>c. strncmp_loop (key @ z) (k @ rest) (length key - 1) = Ret c \<and> (c = 0 \<longleftrightarrow> k = key)"
  using assms
proof (induction key arbitrary: k)
  case (Cons a key)
  then obtain b k' where k: "k = b # k'" "length k' = length key" by (cases k) auto
  have a: "a \<noteq> 0" using Cons.prems(3) by auto
  show ?case
  proof (cases "a = b \<and> key \<noteq> []")
    case True
    then have "length (a # key) - 1 \<noteq> 0" "length (a # key) - 1 - 1 = length key - 1" by auto
    then show ?thesis using Cons.IH [OF k(2)] Cons.prems(3) True a k(1) by auto
  next
    case False
    then have "strncmp_loop ((a # key) @ z) (k @ rest) (length (a # key) - 1) = Ret (uint a - uint b)"
      using k(1) by auto
    moreover have "uint a - uint b = 0 \<longleftrightarrow> k = a # key" using False k by (auto simp: word_uint_eq_iff)
    ultimately show ?thesis by blast
  qed
qed simp

lemma strncmp_key:
  assumes "length k = length key" and "0 \<notin> set key"
  shows "\<exists>c. strncmp (key @ z) (k @ rest) (length key) = Ret c \<and> (c = 0 \<longleftrightarrow> k = key)"
proof (cases "key = []")
  case True
  then show ?thesis using assms by (simp add: strncmp_def)
next
  case False
  then show ?thesis using strncmp_loop_key [OF assms(1) False assms(2), of z rest] by (simp add: strncmp_def)
qed

text \<open>The head of the loop of \<open>nanocbor_get_key_tstr\<close> on a text string.\<close>

lemma key_step:
  assumes wf: "dec_wf buf c" and ins: "inside buf c indef (CTstr k # xs)"
    and key: "0 \<notin> set key" "length key < 2 ^ 31"
  obtains c' where "inside buf c' indef xs" and "v_end c' = v_end c" and "v_cur c < v_cur c'"
    and "\<And>fuel res. get_key_tstr_loop (Suc fuel) buf (key @ [0]) (word_of_nat (length key)) c u res =
      (if k = key then Ret (NANOCBOR_OK, c')
       else run_bind (nanocbor_skip fuel buf c' u) (\<lambda>(res, value).
         if res < 0 then Ret (res, value)
         else get_key_tstr_loop fuel buf (key @ [0]) (word_of_nat (length key)) value u res))"
proof -
  let ?h = "head_bytes (NANOCBOR_MASK 3) (word_of_nat (length k))"
  let ?c = "c\<lparr>v_cur := v_cur c + length ?h + length k, v_remaining := v_remaining c - 1\<rparr>"
  have st: "starts buf c (?h @ k)" using inside_Cons(1) [OF wf ins] by simp
  have t: "0 \<le> (3 :: int)" "(3 :: int) < 8" by simp_all
  note str = get_str_starts [OF wf t st]
  have p: "past c (length (cbor_bytes (CTstr k))) ?c" by (simp add: past_def)
  let ?p = "v_cur c + length ?h"
  have drop: "drop ?p buf = k @ drop (length k) (drop ?p buf)"
    using str(2) unfolding sub_bytes_def by (metis append_take_drop_id)
  have small: "length k < 2 ^ 31" using str(3) wf by (auto simp: dec_wf_def)
  have u: "unat (word_of_nat (length k) :: u64) = length k" "unat (word_of_nat (length key) :: u64) = length key"
    using small key(2) by (simp_all add: unat_word_of_nat)
  then have eq: "(word_of_nat (length k) :: u64) = word_of_nat (length key) \<longleftrightarrow> length k = length key" by metis
  have cmp: "\<exists>x. (if (word_of_nat (length k) :: u64) = word_of_nat (length key)
      then strncmp (key @ [0]) (drop ?p buf) (unat (word_of_nat (length key) :: u64)) else Ret 1) = Ret x \<and>
      (x = 0 \<longleftrightarrow> k = key)"
  proof (cases "length k = length key")
    case True
    then show ?thesis using strncmp_key [OF True key(1), of "[0]" "drop (length k) (drop ?p buf)"] eq drop u by simp
  next
    case False
    then show ?thesis using eq by auto
  qed
  have "nanocbor_at_end buf c = Ret False" using st by (simp add: starts_def)
  then show ?thesis
  proof (intro that [of ?c])
    show "inside buf ?c indef xs" using inside_Cons(2) [OF wf ins _ p] by simp
    show "v_end ?c = v_end c" "v_cur c < v_cur ?c" using length_head_pos by (auto intro: trans_less_add1)
  qed (use str(1) cmp in \<open>auto simp: nanocbor_get_tstr_def\<close>)
qed

lemma key_search:
  assumes "dec_wf buf c" and "inside buf c indef (flat (pre @ (CTstr key, x) # post))"
    and "\<forall>(k, v) \<in> set pre. \<exists>s. k = CTstr s \<and> s \<noteq> key \<and> cbor_ok v \<and> depth v \<le> NANOCBOR_RECURSION_MAX"
    and "0 \<notin> set key" and "length key < 2 ^ 31" and "v_end c - v_cur c < fuel"
  shows "\<exists>v. get_key_tstr_loop fuel buf (key @ [0]) (word_of_nat (length key)) c u res = Ret (NANOCBOR_OK, v) \<and>
    inside buf v indef (x # flat post) \<and> dec_wf buf v"
  using assms
proof (induction pre arbitrary: c fuel res)
  case Nil
  obtain n where n: "fuel = Suc n" using Nil.prems(6) by (cases fuel) auto
  have ins: "inside buf c indef (CTstr key # x # flat post)" using Nil.prems(2) by simp
  obtain c1 where c1: "inside buf c1 indef (x # flat post)" "v_end c1 = v_end c"
    and step: "\<And>fuel res. get_key_tstr_loop (Suc fuel) buf (key @ [0]) (word_of_nat (length key)) c u res =
      (if key = key then Ret (NANOCBOR_OK, c1)
       else run_bind (nanocbor_skip fuel buf c1 u) (\<lambda>(res, value).
         if res < 0 then Ret (res, value)
         else get_key_tstr_loop fuel buf (key @ [0]) (word_of_nat (length key)) value u res))"
    using key_step [OF Nil.prems(1) ins Nil.prems(4,5)] by blast
  have "dec_wf buf c1" using Nil.prems(1) c1(2) by (simp add: dec_wf_def)
  then show ?case using c1 n step by (simp del: get_key_tstr_loop.simps)
next
  case (Cons p pre)
  then obtain s y where p: "p = (CTstr s, y)" "s \<noteq> key" "cbor_ok y" "depth y \<le> NANOCBOR_RECURSION_MAX"
    by (cases p) auto
  let ?rest = "flat (pre @ (CTstr key, x) # post)"
  obtain n where n: "fuel = Suc n" using Cons.prems(6) by (cases fuel) auto
  have ins: "inside buf c indef (CTstr s # y # ?rest)" using Cons.prems(2) p(1) by simp
  obtain c1 where c1: "inside buf c1 indef (y # ?rest)" "v_end c1 = v_end c" "v_cur c < v_cur c1"
    and step: "\<And>fuel res. get_key_tstr_loop (Suc fuel) buf (key @ [0]) (word_of_nat (length key)) c u res =
      (if s = key then Ret (NANOCBOR_OK, c1)
       else run_bind (nanocbor_skip fuel buf c1 u) (\<lambda>(res, value).
         if res < 0 then Ret (res, value)
         else get_key_tstr_loop fuel buf (key @ [0]) (word_of_nat (length key)) value u res))"
    using key_step [OF Cons.prems(1) ins Cons.prems(4,5)] by blast
  have wf1: "dec_wf buf c1" using Cons.prems(1) c1(2) by (simp add: dec_wf_def)
  note in1 = inside_Cons [OF wf1 c1(1) p(3)]
  have len: "v_cur c1 + length (cbor_bytes y) \<le> v_end c1" using in1(1) by (simp add: starts_def)
  then have fuel: "length (cbor_bytes y) \<le> n" using Cons.prems(6) n c1 by simp
  obtain c2 where c2: "nanocbor_skip n buf c1 u = Ret (NANOCBOR_OK, c2)" "past c1 (length (cbor_bytes y)) c2"
    by (rule nanocbor_skip_item [OF wf1 in1(1) p(3,4) fuel])
  have "dec_wf buf c2" "v_end c2 - v_cur c2 < n"
    using wf1 c1 c2(2) len Cons.prems(6) n by (auto simp: dec_wf_def past_def)
  then have "\<exists>v. get_key_tstr_loop n buf (key @ [0]) (word_of_nat (length key)) c2 u 0 = Ret (NANOCBOR_OK, v) \<and>
    inside buf v indef (x # flat post) \<and> dec_wf buf v"
    using Cons.prems(3-5) in1(2) [OF c2(2)] by (intro Cons.IH) auto
  then show ?case using n step p(2) c2(1) by simp
qed

section \<open>Writing an item\<close>

text \<open>The calls of encoder.c that a client makes to write an item.\<close>

type_synonym enc_call = "nanocbor_encoder \<Rightarrow> (int \<times> nanocbor_encoder) run"

fun calls :: "cbor \<Rightarrow> enc_call list" where
  "calls (CUint n) = [\<lambda>enc. nanocbor_fmt_uint enc n]"
| "calls (CNint n) = [\<lambda>enc. nanocbor_fmt_int enc (NOT n)]"
| "calls (CBstr s) = [\<lambda>enc. nanocbor_put_bstr enc s (word_of_nat (length s))]"
| "calls (CTstr s) = [\<lambda>enc. nanocbor_put_tstrn enc s (word_of_nat (length s))]"
| "calls (CArr indef xs) =
     (if indef then nanocbor_fmt_array_indefinite # concat (map calls xs) @ [nanocbor_fmt_end_indefinite]
      else (\<lambda>enc. nanocbor_fmt_array enc (word_of_nat (length xs))) # concat (map calls xs))"
| "calls (CMap indef ps) =
     (if indef then nanocbor_fmt_map_indefinite # concat (map (\<lambda>(k, v). calls k @ calls v) ps) @ [nanocbor_fmt_end_indefinite]
      else (\<lambda>enc. nanocbor_fmt_map enc (word_of_nat (length ps))) # concat (map (\<lambda>(k, v). calls k @ calls v) ps))"
| "calls (CTag n) = [\<lambda>enc. nanocbor_fmt_tag enc n]"
| "calls (CSimple b) = [\<lambda>enc. if b = NANOCBOR_SIMPLE_NULL then nanocbor_fmt_null enc
     else nanocbor_fmt_bool enc (b = NANOCBOR_SIMPLE_TRUE)]"
| "calls (CFloat k bs) = []"

fun run_calls :: "nanocbor_encoder \<Rightarrow> enc_call list \<Rightarrow> nanocbor_encoder run" where
  "run_calls enc [] = Ret enc"
| "run_calls enc (f # fs) = run_bind (f enc) (\<lambda>(_, enc). run_calls enc fs)"

text \<open>Booleans and null are the simple values, and negative numbers those of \<open>int64_t\<close>, that the encoder can write. Tags
  are left out: a tag and its content are not one item for the decoder.\<close>

fun writable :: "cbor \<Rightarrow> bool" where
  "writable (CNint n) \<longleftrightarrow> unat n < 2 ^ 63"
| "writable (CArr indef xs) \<longleftrightarrow> (\<forall>x \<in> set xs. writable x)"
| "writable (CMap indef ps) \<longleftrightarrow> (\<forall>(k, v) \<in> set ps. writable k \<and> writable v)"
| "writable (CTag n) \<longleftrightarrow> False"
| "writable (CSimple b) \<longleftrightarrow> b \<in> {NANOCBOR_SIMPLE_FALSE, NANOCBOR_SIMPLE_TRUE, NANOCBOR_SIMPLE_NULL}"
| "writable (CFloat k bs) \<longleftrightarrow> False"
| "writable _ \<longleftrightarrow> True"

lemma writable_ok: "writable x \<Longrightarrow> cbor_ok x"
  by (induction x rule: cbor_ok.induct) auto

lemma put_item_append:
  assumes "enc_wf enc" and "enc_cur enc + length (a @ b) \<le> enc_end enc"
  shows "snd (put_item (snd (put_item enc a)) b) = snd (put_item enc (a @ b))"
    and "enc_cur (snd (put_item enc a)) + length b \<le> enc_end (snd (put_item enc a))"
  using assms by (auto simp: put_item_def enc_wf_def algebra_simps)

definition writes :: "enc_call list \<Rightarrow> bytes \<Rightarrow> bool" where
  "writes fs bs \<longleftrightarrow> (\<forall>enc. enc_wf enc \<longrightarrow> enc_end enc < 2 ^ 31 \<longrightarrow> enc_cur enc + length bs \<le> enc_end enc \<longrightarrow>
     run_calls enc fs = Ret (snd (put_item enc bs)))"

lemma writesD:
  "writes fs bs \<Longrightarrow> enc_wf enc \<Longrightarrow> enc_end enc < 2 ^ 31 \<Longrightarrow> enc_cur enc + length bs \<le> enc_end enc \<Longrightarrow>
     run_calls enc fs = Ret (snd (put_item enc bs))"
  unfolding writes_def by blast

lemma run_calls_append: "run_calls enc (fs @ gs) = run_bind (run_calls enc fs) (\<lambda>enc. run_calls enc gs)"
  by (induction fs arbitrary: enc) (auto simp: run_bind_assoc intro!: run_bind_cong split: prod.splits)

lemma writes_Nil: "writes [] []"
  by (auto simp: writes_def put_item_def)

lemma writes_append: "writes fs a \<Longrightarrow> writes gs b \<Longrightarrow> writes (fs @ gs) (a @ b)"
  unfolding writes_def run_calls_append
proof (intro allI impI)
  fix enc
  assume fs: "\<forall>enc. enc_wf enc \<longrightarrow> enc_end enc < 2 ^ 31 \<longrightarrow> enc_cur enc + length a \<le> enc_end enc \<longrightarrow>
      run_calls enc fs = Ret (snd (put_item enc a))"
    and gs: "\<forall>enc. enc_wf enc \<longrightarrow> enc_end enc < 2 ^ 31 \<longrightarrow> enc_cur enc + length b \<le> enc_end enc \<longrightarrow>
      run_calls enc gs = Ret (snd (put_item enc b))"
    and enc: "enc_wf enc" "enc_end enc < 2 ^ 31" "enc_cur enc + length (a @ b) \<le> enc_end enc"
  note app = put_item_append [OF enc(1,3)]
  have "run_calls (snd (put_item enc a)) gs = Ret (snd (put_item enc (a @ b)))"
    using gs enc_wf_put_item [OF enc(1), of a] enc(2) app by simp
  then show "run_bind (run_calls enc fs) (\<lambda>enc. run_calls enc gs) = Ret (snd (put_item enc (a @ b)))"
    using fs enc by simp
qed

lemma writes_concat: "(\<And>x. x \<in> set xs \<Longrightarrow> writes (f x) (g x)) \<Longrightarrow> writes (concat (map f xs)) (concat (map g xs))"
  by (induction xs) (simp_all add: writes_Nil writes_append)

lemma writes_op: "writes [\<lambda>enc. run_op enc x] (op_bytes x)"
  by (simp add: writes_def run_op_spec case_prod_beta)

lemma writes_str:
  assumes "f = (\<lambda>enc. run_bind (run_op enc x) (\<lambda>(_, enc). put_bytes enc s (word_of_nat (length s))))"
  shows "writes [f] (op_bytes x @ s)"
  unfolding writes_def
proof (intro allI impI)
  fix enc assume enc: "enc_wf enc" "enc_end enc < 2 ^ 31" "enc_cur enc + length (op_bytes x @ s) \<le> enc_end enc"
  let ?e = "snd (put_item enc (op_bytes x))"
  have wf: "enc_wf ?e" by (rule enc_wf_put_item [OF enc(1)])
  note app = put_item_append [OF enc(1,3)]
  have len: "unat (word_of_nat (length s) :: u64) = length s" "length s < 2 ^ 31"
    using enc by (simp_all add: unat_word_of_nat)
  have "\<exists>r. put_bytes ?e s (word_of_nat (length s)) = Ret (r, snd (put_item ?e s))"
    using wf app(2) len fits_eq [OF wf, of "word_of_nat (length s)"]
    by (auto simp: put_bytes_def put_item_def enc_emit_def enc_wf_def)
  then show "run_calls enc [f] = Ret (snd (put_item enc (op_bytes x @ s)))"
    using app(1) run_op_spec [OF enc(1), of x] by (auto simp: assms case_prod_beta)
qed

lemma sint_not: "unat (n :: u64) < 2 ^ 63 \<Longrightarrow> sint (NOT n) < 0"
proof -
  assume n: "unat n < 2 ^ 63"
  have "n = take_bit 63 n" using take_bit_small [of n 63] n by simp
  then have "\<not> bit n 63" by (metis bit_take_bit_iff less_irrefl)
  then have "bit (NOT n) 63" by (simp add: bit_not_iff)
  then show ?thesis using bit_last_iff [of "NOT n"] by simp
qed

lemma mask_values_all:
  "NANOCBOR_MASK 3 = 0x60" "NANOCBOR_MASK 4 = 0x80" "NANOCBOR_MASK 5 = 0xA0" "NANOCBOR_MASK 7 = 0xE0"
  by (simp_all add: NANOCBOR_MASK_def)

lemmas writes_ops =
  writes_op [of "OpUint _", simplified] writes_op [of "OpArray _", simplified] writes_op [of "OpMap _", simplified]
  writes_op [of OpArrayIndef, simplified] writes_op [of OpMapIndef, simplified] writes_op [of OpEndIndef, simplified]

lemma writes_box:
  assumes "writes cs bs" and "writes [f] [NANOCBOR_MASK t OR NANOCBOR_SIZE_INDEFINITE]"
    and "writes [g] (head_bytes (NANOCBOR_MASK t) (word_of_nat n))"
  shows "writes (if indef then f # cs @ [nanocbor_fmt_end_indefinite] else g # cs) (box t indef n bs)"
proof (cases indef)
  case True
  then show ?thesis
    using writes_append [OF assms(2) writes_append [OF assms(1) writes_ops(6)]] by (simp add: box_def)
next
  case False
  then show ?thesis using writes_append [OF assms(3,1)] by (simp add: box_def)
qed

lemma writable_members: "x \<in> set (flat ps) \<Longrightarrow> writable (CMap i ps) \<Longrightarrow> writable x"
  by (auto simp: set_flat)

lemma writes_item: "writable x \<Longrightarrow> writes (calls x) (cbor_bytes x)"
proof (induction x rule: cbor_induct)
  case (atom x)
  show ?case
  proof (cases x)
    case (CUint n)
    then show ?thesis using writes_ops(1) [of n] by (simp add: mask_values)
  next
    case (CNint n)
    then show ?thesis using writes_op [of "OpInt (NOT n)"] sint_not [of n] atom.prems by (simp add: mask_values)
  next
    case (CBstr s)
    have "writes (calls x) (op_bytes (OpFmtBstr (word_of_nat (length s))) @ s)"
      unfolding CBstr calls.simps by (rule writes_str) (simp add: fun_eq_iff nanocbor_put_bstr_def)
    then show ?thesis using CBstr by (simp add: mask_values)
  next
    case (CTstr s)
    have "writes (calls x) (op_bytes (OpFmtTstr (word_of_nat (length s))) @ s)"
      unfolding CTstr calls.simps by (rule writes_str) (simp add: fun_eq_iff nanocbor_put_tstrn_def)
    then show ?thesis using CTstr by (simp add: mask_values_all)
  next
    case (CSimple b)
    then show ?thesis
      using writes_op [of OpNull] writes_op [of "OpBool True"] writes_op [of "OpBool False"] atom.prems
      by (auto simp: mask_values_all)
  qed (use atom in auto)
next
  case (arr i xs)
  then have "writes (concat (map calls xs)) (body xs)" by (intro writes_concat) simp
  then show ?case
    using writes_box [of _ _ nanocbor_fmt_array_indefinite 4 "\<lambda>enc. nanocbor_fmt_array enc (word_of_nat (length xs))"
        "length xs" i] writes_ops by (simp add: mask_values_all)
next
  case (map i ps)
  have "writes (concat (map calls (flat ps))) (body (flat ps))"
    using map.IH writable_members [OF _ map.prems] by (intro writes_concat) blast
  then show ?case
    using writes_box [of _ _ nanocbor_fmt_map_indefinite 5 "\<lambda>enc. nanocbor_fmt_map enc (word_of_nat (length ps))"
        "length ps" i] writes_ops by (simp add: mask_values_all concat_flat)
qed

section \<open>Properties\<close>

text \<open>C20: What a client writes with the encoder, the decoder finds again as one item: the calls of encoder.c for a
  tree of integers, strings, booleans, nulls, arrays and maps fill the buffer with its encoding, and, if the tree is
  nested at most \<open>NANOCBOR_RECURSION_MAX\<close> deep, \<open>nanocbor_get_subcbor\<close> at the place where the writing began returns
  exactly these bytes and leaves the context where the writing ended. A deeper tree is written as well, but reading it gives
  \<open>NANOCBOR_ERR_RECURSION\<close>.\<close>

theorem document_roundtrip:
  assumes "enc_wf enc" and "length (enc_buf enc) < 2 ^ 31" and "writable x"
    and "enc_cur enc + length (cbor_bytes x) \<le> enc_end enc" and "length (cbor_bytes x) \<le> fuel"
  shows "\<exists>enc'. run_calls enc (calls x) = Ret enc' \<and> enc_cur enc' = enc_cur enc + length (cbor_bytes x) \<and>
    sub_bytes (enc_cur enc) (length (cbor_bytes x)) (enc_buf enc') = cbor_bytes x \<and>
    (\<forall>v. reads_at enc enc' v \<longrightarrow> (\<exists>res off len v'. nanocbor_get_subcbor fuel (enc_buf enc') v u = Ret (res, off, len, v') \<and>
       (if depth x \<le> NANOCBOR_RECURSION_MAX
        then res = NANOCBOR_OK \<and> sub_bytes off (unat len) (enc_buf enc') = cbor_bytes x \<and> v_cur v' = enc_cur enc'
        else res = NANOCBOR_ERR_RECURSION)))"
proof -
  let ?bs = "cbor_bytes x"
  define enc' where "enc' = snd (put_item enc ?bs)"
  have put: "put_item enc (?bs @ []) = (int (length ?bs), enc')"
    using assms(4) by (simp add: enc'_def put_item_def)
  have "run_calls enc (calls x) = Ret enc'"
    unfolding enc'_def using assms by (intro writesD [OF writes_item]) (auto simp: enc_wf_def)
  moreover have "enc_cur enc' = enc_cur enc + length ?bs" using assms(4) by (simp add: enc'_def put_item_def)
  moreover have "sub_bytes (enc_cur enc) (length ?bs) (enc_buf enc') = ?bs"
    using assms(1,4) by (auto simp: enc'_def put_item_def enc_wf_def sub_bytes_def)
  moreover have "\<exists>res off len v'. nanocbor_get_subcbor fuel (enc_buf enc') v u = Ret (res, off, len, v') \<and>
      (if depth x \<le> NANOCBOR_RECURSION_MAX
       then res = NANOCBOR_OK \<and> sub_bytes off (unat len) (enc_buf enc') = ?bs \<and> v_cur v' = enc_cur enc'
       else res = NANOCBOR_ERR_RECURSION)" if rd: "reads_at enc enc' v" for v
  proof -
    have "0 < int (length ?bs)" by simp
    note st = put_item_starts [OF assms(1) put this rd]
    note ok = writable_ok [OF assms(3)]
    show ?thesis
    proof (cases "depth x \<le> NANOCBOR_RECURSION_MAX")
      case True
      obtain v' where v': "nanocbor_skip fuel (enc_buf enc') v u = Ret (NANOCBOR_OK, v')" "past v (length ?bs) v'"
        by (rule nanocbor_skip_item [OF st(2,1) ok True assms(5)])
      let ?len = "word_of_nat (v_cur v') - word_of_nat (v_cur v) :: u64"
      have "length ?bs < 2 ^ 31" using st(1,2) by (auto simp: starts_def dec_wf_def)
      then have "unat (word_of_nat (length ?bs) :: u64) = length ?bs" by (intro unat_word_of_nat) simp
      then have "unat ?len = length ?bs" using v'(2) by (simp add: past_def)
      then show ?thesis using True v' st by (auto simp: nanocbor_get_subcbor_def past_def starts_def)
    next
      case False
      then show ?thesis
        using refusesD [OF deep_item [OF ok] st(2,1) _ assms(5), of NANOCBOR_RECURSION_MAX u]
        by (auto simp: nanocbor_get_subcbor_def nanocbor_skip_def Let_def)
    qed
  qed
  ultimately show ?thesis by blast
qed

definition document_ctx :: nanocbor_value where
  "document_ctx = \<lparr>v_cur = 0, v_end = 3, v_remaining = 0, v_flags = 0\<rparr>"

theorem document_roundtrip_witness:
  "\<exists>enc'. run_calls example_enc (calls (CArr False [CUint 7, CSimple 22])) = Ret enc' \<and>
    (\<exists>off len v'. nanocbor_get_subcbor 3 (enc_buf enc') document_ctx document_ctx = Ret (NANOCBOR_OK, off, len, v') \<and>
       sub_bytes off (unat len) (enc_buf enc') = [0x82, 7, 0xF6] \<and> v_cur v' = 3)"
proof -
  let ?x = "CArr False [CUint 7, CSimple 22]"
  have x: "cbor_bytes ?x = [0x82, 7, 0xF6]" by (simp add: box_def head_bytes_def NANOCBOR_MASK_def)
  have e: "length (enc_buf example_enc) < 2 ^ 31" "enc_cur example_enc = 0" "enc_end example_enc = 5"
    by (simp_all add: example_enc_def nanocbor_encoder_init_def)
  have len: "length (cbor_bytes ?x) = 3" unfolding x by simp
  have room: "enc_cur example_enc + length (cbor_bytes ?x) \<le> enc_end example_enc" by (simp only: e len)
  have w: "writable ?x" and d: "depth ?x \<le> NANOCBOR_RECURSION_MAX" by simp_all
  from document_roundtrip [OF example_wf e(1) w room eq_refl [OF len], of document_ctx, unfolded if_P [OF d]] obtain enc'
    where run: "run_calls example_enc (calls ?x) = Ret enc'" and cur: "enc_cur enc' = enc_cur example_enc + length (cbor_bytes ?x)"
      and read: "\<forall>v. reads_at example_enc enc' v \<longrightarrow> (\<exists>res off len v'.
         nanocbor_get_subcbor 3 (enc_buf enc') v document_ctx = Ret (res, off, len, v') \<and>
         res = NANOCBOR_OK \<and> sub_bytes off (unat len) (enc_buf enc') = cbor_bytes ?x \<and> v_cur v' = enc_cur enc')"
    by blast
  have small: "enc_end example_enc < 2 ^ 31" unfolding e(3) by simp
  have "enc' = snd (put_item example_enc (cbor_bytes ?x))"
    using trans [OF run [symmetric] writesD [OF writes_item [OF w] example_wf small room]] by (rule run.inject(1) [THEN iffD1])
  then have "enc' = snd (put_item example_enc [0x82, 7, 0xF6])" unfolding x .
  then have "reads_at example_enc enc' document_ctx"
    by (simp add: reads_at_def document_ctx_def put_item_def example_enc_def nanocbor_encoder_init_def dec_wf_def
        nanocbor_at_end_def over_end_def nanocbor_in_container_def nanocbor_container_indefinite_def)
  with read run cur show ?thesis unfolding x e(2) by fastforce
qed

text \<open>C31: \<open>nanocbor_get_key_tstr\<close> finds a key: in a map of definite or indefinite length it stops at the value of
  the pair with the given key, if all pairs before it have other text keys, and values that \<open>nanocbor_skip\<close> can pass:
  items as in \<open>cbor\<close>, with shortest heads, strings of definite length and no tagged content, nested at most
  \<open>NANOCBOR_RECURSION_MAX\<close> deep. One loop iteration more than the map has bytes is enough.\<close>

theorem get_key_tstr_finds:
  assumes "dec_wf buf c" and "inside buf c indef (flat (pre @ (CTstr key, x) # post))"
    and "\<forall>(k, v) \<in> set pre. \<exists>s. k = CTstr s \<and> s \<noteq> key \<and> cbor_ok v \<and> depth v \<le> NANOCBOR_RECURSION_MAX"
    and "cbor_ok x" and "0 \<notin> set key" and "length key < 2 ^ 31" and "v_end c - v_cur c < fuel"
  shows "\<exists>v. nanocbor_get_key_tstr fuel buf c (key @ [0]) u = Ret (NANOCBOR_OK, v) \<and> starts buf v (cbor_bytes x)"
proof -
  obtain v where v: "get_key_tstr_loop fuel buf (key @ [0]) (word_of_nat (length key)) c u NANOCBOR_NOT_FOUND = Ret (NANOCBOR_OK, v)"
    "inside buf v indef (x # flat post)" "dec_wf buf v"
    using key_search [OF assms(1-3,5-7), of u NANOCBOR_NOT_FOUND] by blast
  have "starts buf v (cbor_bytes x)" by (rule inside_Cons(1) [OF v(3,2) assms(4)])
  then show ?thesis using v(1) assms(5) by (simp add: nanocbor_get_key_tstr_def)
qed

definition key_buf :: bytes where
  "key_buf = [0x61, 0x61, 0x81, 0x05, 0x61, 0x62, 0x07]"

definition key_ctx :: nanocbor_value where
  "key_ctx = \<lparr>v_cur = 0, v_end = 7, v_remaining = 4, v_flags = 1\<rparr>"

theorem get_key_tstr_finds_witness:
  "\<exists>v. nanocbor_get_key_tstr 8 key_buf key_ctx ([0x62] @ [0]) key_ctx = Ret (NANOCBOR_OK, v) \<and> starts key_buf v [0x07]"
proof -
  let ?ps = "[(CTstr [0x61], CArr False [CUint 5])] @ (CTstr [0x62], CUint 7) # []"
  have b: "body (flat ?ps) = key_buf" "cbor_bytes (CUint 7) = [0x07]"
    by (simp_all add: box_def head_bytes_def NANOCBOR_MASK_def key_buf_def)
  have "inside key_buf key_ctx False (flat ?ps)"
    unfolding inside_def by (simp add: b(1) [simplified]) (simp add: key_ctx_def key_buf_def sub_bytes_def)
  moreover have "dec_wf key_buf key_ctx" by (simp add: dec_wf_def key_buf_def key_ctx_def)
  moreover have "v_end key_ctx - v_cur key_ctx < 8" by (simp add: key_ctx_def)
  ultimately show ?thesis
    using get_key_tstr_finds [of key_buf key_ctx False "[(CTstr [0x61], CArr False [CUint 5])]" "[0x62]" "CUint 7" "[]" 8 key_ctx]
    unfolding b(2) by simp
qed

end
