(* ===== verification/Auth_Env.thy ===== *)
theory Auth_Env
  imports Auth_Prelude
begin

text \<open>
  The code that ckb-auth calls and that is not part of this repository, as one record of
  parameters: the CKB system calls and their wrappers (deps/ckb-c-stdlib), libsecp256k1,
  mbedtls, BLAKE2b, the ed25519 library, and the constants of the generated
  header \<open>secp256k1_data_info_20210801.h\<close>. An opaque C struct of such a library
  (\<open>secp256k1_pubkey\<close>, \<open>blake2b_state\<close>, \<open>ge_p3\<close>, ...) is its object representation, a list of
  bytes, and each library function a function on those; what the code relies on of them is
  stated by predicates that the theorems take as hypotheses.

  Two further fields give what the C program can observe of its own memory: the contents of
  uninitialised arrays, and the addresses of the buffers handed to \<open>keccak_update\<close>, whose code
  looks at the alignment.
\<close>

section \<open>Constants of the CKB system call interface\<close>

text \<open>Status codes, sources and fields as the CKB VM system call documentation gives them.\<close>

abbreviation (input) CKB_SUCCESS :: int where "CKB_SUCCESS \<equiv> 0"
abbreviation (input) CKB_INDEX_OUT_OF_BOUND :: int where "CKB_INDEX_OUT_OF_BOUND \<equiv> 1"
abbreviation (input) CKB_ITEM_MISSING :: int where "CKB_ITEM_MISSING \<equiv> 2"
abbreviation (input) CKB_INVALID_DATA :: int where "CKB_INVALID_DATA \<equiv> 4"
abbreviation (input) CKB_SOURCE_INPUT :: u64 where "CKB_SOURCE_INPUT \<equiv> 1"
abbreviation (input) CKB_SOURCE_CELL_DEP :: u64 where "CKB_SOURCE_CELL_DEP \<equiv> 3"
abbreviation (input) CKB_SOURCE_GROUP_INPUT :: u64 where "CKB_SOURCE_GROUP_INPUT \<equiv> 0x0100000000000001"
abbreviation (input) CKB_CELL_FIELD_DATA_HASH :: u64 where "CKB_CELL_FIELD_DATA_HASH \<equiv> 1"
abbreviation (input) CKB_CELL_FIELD_LOCK_HASH :: u64 where "CKB_CELL_FIELD_LOCK_HASH \<equiv> 3"
abbreviation (input) MBEDTLS_ERR_MD_BAD_INPUT_DATA :: int where "MBEDTLS_ERR_MD_BAD_INPUT_DATA \<equiv> - 0x5100"

section \<open>Library data\<close>

datatype md_type = MBEDTLS_MD_SHA256 | MBEDTLS_MD_RIPEMD160

text \<open>A call of libsecp256k1: it returns, or it calls the illegal-argument or error callback.\<close>

datatype 'a secp = SecpRet 'a | SecpIllegal | SecpError

record secp256k1_context =
  pre_g :: bytes
  pre_g_128 :: bytes

record blake2b_param =
  digest_length :: byte
  key_length :: byte
  fanout :: byte
  depth :: byte
  leaf_length :: u32
  node_offset :: u32
  xof_length :: u32
  node_depth :: byte
  inner_length :: byte
  p_reserved :: bytes
  p_salt :: bytes
  p_personal :: bytes

text \<open>The buffers that are passed to \<open>keccak_update\<close>.\<close>

datatype site =
    EthPubkey | EthPrefix | EthMsg | TronPrefix | TronMsg
  | MoneroKey | MoneroSpend | MoneroView | MoneroMode | MoneroLen | MoneroMsg
  | ScalarMsg | ScalarKey | ScalarComm

record env =
  garbage :: "nat \<Rightarrow> byte"
  site_addr :: "site \<Rightarrow> u64"
  CKB_SECP256K1_DATA_SIZE :: u64
  CKB_SECP256K1_DATA_PRE_SIZE :: u64
  ckb_secp256k1_data_hash :: bytes
  load_cell_by_field :: "u64 \<Rightarrow> u64 \<Rightarrow> u64 \<Rightarrow> u64 \<Rightarrow> u64 \<Rightarrow> int \<times> u64 \<times> bytes"
  checked_load_cell_by_field :: "u64 \<Rightarrow> u64 \<Rightarrow> u64 \<Rightarrow> u64 \<Rightarrow> u64 \<Rightarrow> int \<times> u64 \<times> bytes"
  load_cell_data :: "u64 \<Rightarrow> u64 \<Rightarrow> u64 \<Rightarrow> u64 \<Rightarrow> int \<times> u64 \<times> bytes"
  recoverable_signature_parse_compact :: "bytes \<Rightarrow> int \<Rightarrow> bytes option secp"
  ecdsa_recover :: "secp256k1_context \<Rightarrow> bytes \<Rightarrow> bytes \<Rightarrow> bytes option secp"
  ec_pubkey_serialize :: "bytes \<Rightarrow> u64 \<Rightarrow> bool \<Rightarrow> bytes option secp"
  xonly_pubkey_parse :: "bytes \<Rightarrow> bytes option secp"
  schnorrsig_verify :: "secp256k1_context \<Rightarrow> bytes \<Rightarrow> bytes \<Rightarrow> bytes \<Rightarrow> bool secp"
  blake2b_init :: "u64 \<Rightarrow> bytes"
  blake2b_init_param :: "blake2b_param \<Rightarrow> int \<times> bytes"
  blake2b_update :: "bytes \<Rightarrow> bytes \<Rightarrow> bytes"
  blake2b_final :: "bytes \<Rightarrow> u64 \<Rightarrow> bytes"
  md_info_from_type :: "md_type \<Rightarrow> bytes option"
  md_setup :: "bytes \<Rightarrow> int \<times> bytes"
  md_starts :: "bytes \<Rightarrow> int \<times> bytes"
  md_update :: "bytes \<Rightarrow> bytes \<Rightarrow> int \<times> bytes"
  md_finish :: "bytes \<Rightarrow> int \<times> bytes"
  ed25519_verify :: "bytes \<Rightarrow> bytes \<Rightarrow> bytes \<Rightarrow> int"
  sc_check :: "bytes \<Rightarrow> int"
  sc_isnonzero :: "bytes \<Rightarrow> int"
  sc_0 :: bytes
  sc_sub :: "bytes \<Rightarrow> bytes \<Rightarrow> bytes"
  sc_reduce32 :: "bytes \<Rightarrow> bytes"
  ge_frombytes_negate_vartime :: "bytes \<Rightarrow> int \<times> bytes"
  ge_double_scalarmult_vartime :: "bytes \<Rightarrow> bytes \<Rightarrow> bytes \<Rightarrow> bytes"
  ge_tobytes :: "bytes \<Rightarrow> bytes"

text \<open>An uninitialised array of \<open>n\<close> bytes.\<close>

definition uninit :: "env \<Rightarrow> nat \<Rightarrow> bytes" where
  "uninit E n = map (garbage E) [0..<n]"

lemma length_uninit [simp]: "length (uninit E n) = n"
  by (simp add: uninit_def)

section \<open>What the code relies on\<close>

text \<open>A loading system call writes at most as many bytes as the caller offers.\<close>

definition loads_ok :: "env \<Rightarrow> bool" where
  "loads_ok E \<longleftrightarrow>
     (\<forall>len off i src f. length (snd (snd (load_cell_by_field E len off i src f))) \<le> unat len) \<and>
     (\<forall>len off i src f. length (snd (snd (checked_load_cell_by_field E len off i src f))) \<le> unat len) \<and>
     (\<forall>len off i src. length (snd (snd (load_cell_data E len off i src))) \<le> unat len)"

text \<open>A serialised public key has 33 or 65 bytes.\<close>

definition serialize_ok :: "env \<Rightarrow> bool" where
  "serialize_ok E \<longleftrightarrow> (\<forall>pk len comp bs. ec_pubkey_serialize E pk len comp = SecpRet (Some bs) \<longrightarrow>
     length bs = (if comp then 33 else 65))"

text \<open>\<open>blake2b_final\<close> writes as many bytes as it is asked for.\<close>

definition blake2b_ok :: "env \<Rightarrow> bool" where
  "blake2b_ok E \<longleftrightarrow> (\<forall>st n. unat n \<le> 64 \<longrightarrow> length (blake2b_final E st n) = unat n)"

text \<open>The digests of mbedtls have the size of their algorithm.\<close>

definition md_context :: "env \<Rightarrow> bytes \<Rightarrow> bytes \<Rightarrow> bytes" where
  "md_context E info buf =
     snd (md_update E (snd (md_starts E (snd (md_setup E info)))) buf)"

definition md_ok :: "env \<Rightarrow> bool" where
  "md_ok E \<longleftrightarrow> (\<forall>info buf. md_info_from_type E MBEDTLS_MD_SHA256 = Some info \<longrightarrow>
       length (snd (md_finish E (md_context E info buf))) = 32) \<and>
     (\<forall>info buf. md_info_from_type E MBEDTLS_MD_RIPEMD160 = Some info \<longrightarrow>
       length (snd (md_finish E (md_context E info buf))) = 20)"

text \<open>Scalars and encoded points have 32 bytes.\<close>

definition ed_ok :: "env \<Rightarrow> bool" where
  "ed_ok E \<longleftrightarrow> length (sc_0 E) = 32 \<and> (\<forall>a b. length (sc_sub E a b) = 32) \<and>
     (\<forall>a. length (sc_reduce32 E a) = 32) \<and> (\<forall>p. length (ge_tobytes E p) = 32)"

definition env_ok :: "env \<Rightarrow> bool" where
  "env_ok E \<longleftrightarrow> loads_ok E \<and> serialize_ok E \<and> blake2b_ok E \<and> md_ok E \<and> ed_ok E \<and>
     length (ckb_secp256k1_data_hash E) = 32"

text \<open>The 32 byte BLAKE2b digest with CKB's personalisation, and its first 20 bytes.\<close>

definition blake2b_256 :: "env \<Rightarrow> bytes \<Rightarrow> bytes" where
  "blake2b_256 E msg = blake2b_final E (blake2b_update E (blake2b_init E 32) msg) 32"

definition blake160 :: "env \<Rightarrow> bytes \<Rightarrow> bytes" where
  "blake160 E msg = take 20 (blake2b_256 E msg)"

lemma length_blake2b_256 [simp]: "blake2b_ok E \<Longrightarrow> length (blake2b_256 E msg) = 32"
  by (simp add: blake2b_ok_def blake2b_256_def)

lemma length_blake160 [simp]: "blake2b_ok E \<Longrightarrow> length (blake160 E msg) = 20"
  by (simp add: blake160_def)

text \<open>The hash absorbs its input piecewise.\<close>

definition blake2b_stream :: "env \<Rightarrow> bool" where
  "blake2b_stream E \<longleftrightarrow> (\<forall>st. blake2b_update E st [] = st) \<and>
     (\<forall>st a b. blake2b_update E (blake2b_update E st a) b = blake2b_update E st (a @ b))"

lemma blake2b_stream_simps:
  "blake2b_stream E \<Longrightarrow> blake2b_update E st [] = st"
  "blake2b_stream E \<Longrightarrow> blake2b_update E (blake2b_update E st a) b = blake2b_update E st (a @ b)"
  by (simp_all add: blake2b_stream_def)


section \<open>An environment that satisfies the assumptions\<close>

text \<open>
  A small executable instance, used to show that the hypotheses above can hold. Cell dep 0
  has no data hash, cell dep 1 is the one with the tables, and there is one input cell.
\<close>

definition example_env :: env where
  "example_env = \<lparr>
     garbage = (\<lambda>_. 0xAA),
     site_addr = (\<lambda>_. 0),
     CKB_SECP256K1_DATA_SIZE = 4,
     CKB_SECP256K1_DATA_PRE_SIZE = 2,
     ckb_secp256k1_data_hash = replicate 32 7,
     load_cell_by_field = (\<lambda>len off i src f.
       if i = 0 then (2, 0, []) else if i = 1 then (0, 32, take (unat len) (replicate 32 7)) else (1, 0, [])),
     checked_load_cell_by_field = (\<lambda>len off i src f.
       if i = 0 then (0, 32, take (unat len) (replicate 32 5)) else (1, 0, [])),
     load_cell_data = (\<lambda>len off i src. (0, 4, take (unat len) [1, 2, 3, 4])),
     recoverable_signature_parse_compact = (\<lambda>s recid.
       if 0 \<le> recid \<and> recid \<le> 3 then SecpRet (Some s) else SecpIllegal),
     ecdsa_recover = (\<lambda>ctx sig msg. SecpRet (Some sig)),
     ec_pubkey_serialize = (\<lambda>pk len comp.
       SecpRet (Some ((if comp then 2 else 4) # take (if comp then 32 else 64) (pk @ replicate 64 0)))),
     xonly_pubkey_parse = (\<lambda>pk. SecpRet (Some pk)),
     schnorrsig_verify = (\<lambda>ctx sig msg pk. SecpRet True),
     blake2b_init = (\<lambda>n. []),
     blake2b_init_param = (\<lambda>p. (0, [])),
     blake2b_update = (\<lambda>st msg. st @ msg),
     blake2b_final = (\<lambda>st n. take (unat n) (st @ replicate 64 0)),
     md_info_from_type = (\<lambda>t. Some [if t = MBEDTLS_MD_SHA256 then 32 else 20]),
     md_setup = (\<lambda>info. (0, info)),
     md_starts = (\<lambda>st. (0, st)),
     md_update = (\<lambda>st msg. (0, st @ msg)),
     md_finish = (\<lambda>st. (0, take (unat (hd st)) (tl st @ replicate 32 0))),
     ed25519_verify = (\<lambda>sig msg pk. 1),
     sc_check = (\<lambda>s. 0),
     sc_isnonzero = (\<lambda>s. if s = replicate 32 0 then 0 else 1),
     sc_0 = replicate 32 0,
     sc_sub = (\<lambda>a b. if a = b then replicate 32 0 else replicate 32 1),
     sc_reduce32 = (\<lambda>a. take 32 (a @ replicate 32 0)),
     ge_frombytes_negate_vartime = (\<lambda>s. (0, s)),
     ge_double_scalarmult_vartime = (\<lambda>a p b. p),
     ge_tobytes = (\<lambda>p. take 32 (p @ replicate 32 0))\<rparr>"

lemma example_loads_ok: "loads_ok example_env"
  by (auto simp: loads_ok_def example_env_def)

lemma example_hash_length: "length (ckb_secp256k1_data_hash example_env) = 32"
  by (simp add: example_env_def)

lemma example_blake2b_ok: "blake2b_ok example_env"
  by (auto simp: blake2b_ok_def example_env_def)

lemma example_stream: "blake2b_stream example_env"
  by (simp add: blake2b_stream_def example_env_def)

lemma example_serialize_ok: "serialize_ok example_env"
  by (auto simp: serialize_ok_def example_env_def)

lemma example_md_ok: "md_ok example_env"
  by (auto simp: md_ok_def md_context_def example_env_def)

lemma example_ed_ok: "ed_ok example_env"
  by (auto simp: ed_ok_def example_env_def)

lemma example_env_ok: "env_ok example_env"
  by (simp add: env_ok_def example_loads_ok example_hash_length example_blake2b_ok
      example_serialize_ok example_md_ok example_ed_ok)

end
