(* ===== verification/Secp_Helper.thy ===== *)
theory Secp_Helper
  imports Auth_Env
begin

text \<open>
  c/secp256k1_helper_20210801.h: the search for the cell dep that holds the precomputed
  tables of libsecp256k1, the verification context built from it, and the two callbacks, which
  end the program.
\<close>

section \<open>Model\<close>

abbreviation (input) CKB_SECP256K1_HELPER_ERROR_LOADING_DATA :: int where
  "CKB_SECP256K1_HELPER_ERROR_LOADING_DATA \<equiv> - 101"
abbreviation (input) CKB_SECP256K1_HELPER_ERROR_ILLEGAL_CALLBACK :: int where
  "CKB_SECP256K1_HELPER_ERROR_ILLEGAL_CALLBACK \<equiv> - 102"
abbreviation (input) CKB_SECP256K1_HELPER_ERROR_ERROR_CALLBACK :: int where
  "CKB_SECP256K1_HELPER_ERROR_ERROR_CALLBACK \<equiv> - 103"

definition secp256k1_default_illegal_callback_fn :: "'a run" where
  "secp256k1_default_illegal_callback_fn = Exit CKB_SECP256K1_HELPER_ERROR_ILLEGAL_CALLBACK"

definition secp256k1_default_error_callback_fn :: "'a run" where
  "secp256k1_default_error_callback_fn = Exit CKB_SECP256K1_HELPER_ERROR_ERROR_CALLBACK"

text \<open>A call into the library, with the callbacks of this file.\<close>

fun secp_call :: "'a secp \<Rightarrow> 'a run" where
  "secp_call (SecpRet x) = Ret x"
| "secp_call SecpIllegal = secp256k1_default_illegal_callback_fn"
| "secp_call SecpError = secp256k1_default_error_callback_fn"

abbreviation (input) SIZE_MAX :: u64 where "SIZE_MAX \<equiv> 0xFFFFFFFFFFFFFFFF"

text \<open>The \<open>while\<close> loop: the loaded data and the index at which the loop ends.\<close>

function secp_search :: "env \<Rightarrow> bytes \<Rightarrow> u64 \<Rightarrow> (bytes \<times> u64) run" where
  "secp_search E data index =
     (if index < SIZE_MAX then
        (case load_cell_by_field E 32 0 index CKB_SOURCE_CELL_DEP CKB_CELL_FIELD_DATA_HASH of
           (ret, _, out) \<Rightarrow>
           run_bind (wr 0 out (uninit E 32)) (\<lambda>hash.
           if ret = CKB_ITEM_MISSING then secp_search E data (index + 1)
           else if ret = CKB_SUCCESS then
             run_bind (memcmp_eq 0 (ckb_secp256k1_data_hash E) 0 hash 32) (\<lambda>same.
             if same then
               (case load_cell_data E (CKB_SECP256K1_DATA_SIZE E) 0 index CKB_SOURCE_CELL_DEP of
                  (ret, len, out) \<Rightarrow>
                  run_bind (wr 0 out data) (\<lambda>data.
                  if ret \<noteq> CKB_SUCCESS \<or> len \<noteq> CKB_SECP256K1_DATA_SIZE E
                  then Err CKB_SECP256K1_HELPER_ERROR_LOADING_DATA
                  else Ret (data, index)))
             else secp_search E data (index + 1))
           else Err CKB_SECP256K1_HELPER_ERROR_LOADING_DATA))
      else Ret (data, index))"
  by pat_completeness auto
termination
proof (relation "measure (\<lambda>(E, data, index). 2 ^ 64 - unat index)", goal_cases)
  case 1
  show ?case by simp
qed (auto simp: unat_word_ariths word_less_nat_alt)

declare secp_search.simps [simp del]

definition ckb_secp256k1_custom_verify_only_initialize :: "env \<Rightarrow> bytes \<Rightarrow> secp256k1_context run" where
  "ckb_secp256k1_custom_verify_only_initialize E data =
     run_bind (secp_search E data 0) (\<lambda>(data, index).
     if index = SIZE_MAX then Err CKB_SECP256K1_HELPER_ERROR_LOADING_DATA
     else Ret \<lparr>pre_g = data, pre_g_128 = drop (unat (CKB_SECP256K1_DATA_PRE_SIZE E)) data\<rparr>)"


section \<open>The search finds the first cell dep with the expected data hash\<close>

definition dep_status :: "env \<Rightarrow> u64 \<Rightarrow> int" where
  "dep_status E i = fst (load_cell_by_field E 32 0 i CKB_SOURCE_CELL_DEP CKB_CELL_FIELD_DATA_HASH)"

definition dep_hash :: "env \<Rightarrow> u64 \<Rightarrow> bytes" where
  "dep_hash E i =
     (let out = snd (snd (load_cell_by_field E 32 0 i CKB_SOURCE_CELL_DEP CKB_CELL_FIELD_DATA_HASH))
      in out @ drop (length out) (uninit E 32))"

definition dep_matches :: "env \<Rightarrow> u64 \<Rightarrow> bool" where
  "dep_matches E i \<longleftrightarrow> dep_status E i = CKB_SUCCESS \<and> dep_hash E i = ckb_secp256k1_data_hash E"

definition dep_other :: "env \<Rightarrow> u64 \<Rightarrow> bool" where
  "dep_other E i \<longleftrightarrow> dep_status E i = CKB_ITEM_MISSING \<or>
     (dep_status E i = CKB_SUCCESS \<and> dep_hash E i \<noteq> ckb_secp256k1_data_hash E)"

definition dep_data :: "env \<Rightarrow> u64 \<Rightarrow> bytes \<Rightarrow> bytes run" where
  "dep_data E i data =
     (case load_cell_data E (CKB_SECP256K1_DATA_SIZE E) 0 i CKB_SOURCE_CELL_DEP of
        (ret, len, out) \<Rightarrow>
        run_bind (wr 0 out data) (\<lambda>data.
        if ret \<noteq> CKB_SUCCESS \<or> len \<noteq> CKB_SECP256K1_DATA_SIZE E
        then Err CKB_SECP256K1_HELPER_ERROR_LOADING_DATA else Ret data))"

lemma length_dep_hash: "loads_ok E \<Longrightarrow> length (dep_hash E i) = 32"
proof -
  assume "loads_ok E"
  then have "length (snd (snd (load_cell_by_field E 32 0 i CKB_SOURCE_CELL_DEP CKB_CELL_FIELD_DATA_HASH))) \<le> unat (32 :: u64)"
    unfolding loads_ok_def by blast
  then show ?thesis by (simp add: dep_hash_def Let_def)
qed

lemma secp_search_step:
  assumes ok: "loads_ok E" "length (ckb_secp256k1_data_hash E) = 32" and i: "i < SIZE_MAX"
  shows "secp_search E data i =
    (if dep_other E i then secp_search E data (i + 1)
     else if dep_matches E i then run_bind (dep_data E i data) (\<lambda>data. Ret (data, i))
     else Err CKB_SECP256K1_HELPER_ERROR_LOADING_DATA)"
proof -
  obtain ret len out where l:
    "load_cell_by_field E 32 0 i CKB_SOURCE_CELL_DEP CKB_CELL_FIELD_DATA_HASH = (ret, len, out)"
    using prod_cases3 by blast
  have h: "dep_hash E i = out @ drop (length out) (uninit E 32)" "dep_status E i = ret"
    using l by (simp_all add: dep_hash_def dep_status_def)
  have "length out \<le> 32"
    using length_dep_hash [OF ok(1), of i] by (simp add: h)
  then have w: "wr 0 out (uninit E 32) = Ret (dep_hash E i)" by (simp add: h)
  have m: "memcmp_eq 0 (ckb_secp256k1_data_hash E) 0 (dep_hash E i) 32 =
      Ret (dep_hash E i = ckb_secp256k1_data_hash E)"
    using ok length_dep_hash [OF ok(1), of i] by (auto simp: memcmp_eq_def)
  show ?thesis
    by (subst secp_search.simps)
      (use i l w m in \<open>auto simp: dep_other_def dep_matches_def dep_data_def h(2) run_simps
        split: prod.splits intro!: run_bind_cong\<close>)
qed


lemma dep_exclusive: "dep_other E i \<Longrightarrow> \<not> dep_matches E i"
  by (auto simp: dep_other_def dep_matches_def)

lemma below_SIZE_MAX:
  assumes "(k :: u64) < SIZE_MAX"
  shows "k \<le> j \<longleftrightarrow> j = k \<or> k + 1 \<le> j"
proof -
  have "unat (k + 1) = unat k + 1"
    using assms by (simp add: unat_word_ariths word_less_nat_alt)
  then show ?thesis
    by (auto simp: word_le_nat_alt word_unat_eq_iff)
qed

lemma secp_search_found:
  assumes ok: "loads_ok E" "length (ckb_secp256k1_data_hash E) = 32"
  shows "secp_search E data k = Ret (d, n) \<and> n \<noteq> SIZE_MAX \<longleftrightarrow>
    k \<le> n \<and> n < SIZE_MAX \<and> (\<forall>j. k \<le> j \<and> j < n \<longrightarrow> dep_other E j) \<and> dep_matches E n \<and>
    dep_data E n data = Ret d"
    (is "?L k \<longleftrightarrow> ?R k")
proof (induction "2 ^ 64 - unat k" arbitrary: k rule: less_induct)
  case less
  show ?case
  proof (cases "k < SIZE_MAX")
    case False
    have "k \<le> SIZE_MAX" 
      using unat_u64_less [of k] by (simp add: word_le_nat_alt del: unat_u64_less)
    with False have "k = SIZE_MAX" by (auto simp: not_less)
    moreover have "n < SIZE_MAX \<Longrightarrow> \<not> SIZE_MAX \<le> n" by simp
    ultimately show ?thesis by (auto simp: secp_search.simps [of E data SIZE_MAX])
  next
    case True
    note step = secp_search_step [OF ok True, of data] and le = below_SIZE_MAX [OF True]
    have "unat (k + 1) = unat k + 1"
      using True by (simp add: unat_word_ariths word_less_nat_alt)
    then have IH: "?L (k + 1) \<longleftrightarrow> ?R (k + 1)"
      using unat_u64_less [of k] by (intro less) (simp del: unat_u64_less)
    have neq: "\<not> k + 1 \<le> k" using \<open>unat (k + 1) = unat k + 1\<close> by (simp add: word_le_nat_alt)
    show ?thesis
    proof (cases "dep_other E k")
      case other: True
      then show ?thesis
        using IH step le neq dep_exclusive [OF other] by (auto simp: le)
    next
      case False
      have gt: "k < j" if "k + 1 \<le> j" for j
        using that \<open>unat (k + 1) = unat k + 1\<close> by (simp add: word_le_nat_alt word_less_nat_alt)
      have "?R k \<longleftrightarrow> n = k \<and> dep_matches E k \<and> dep_data E k data = Ret d"
        using False True gt [of n] by (auto simp: le dest: gt)
      then show ?thesis using step False True by auto
    qed
  qed
qed

lemma secp_init_Ret:
  assumes ok: "loads_ok E" "length (ckb_secp256k1_data_hash E) = 32"
  shows "ckb_secp256k1_custom_verify_only_initialize E data = Ret c \<longleftrightarrow>
    (\<exists>n d. n < SIZE_MAX \<and> (\<forall>j < n. dep_other E j) \<and> dep_matches E n \<and> dep_data E n data = Ret d \<and>
       c = \<lparr>pre_g = d, pre_g_128 = drop (unat (CKB_SECP256K1_DATA_PRE_SIZE E)) d\<rparr>)"
proof -
  have "ckb_secp256k1_custom_verify_only_initialize E data = Ret c \<longleftrightarrow>
    (\<exists>n d. (secp_search E data 0 = Ret (d, n) \<and> n \<noteq> SIZE_MAX) \<and>
       c = \<lparr>pre_g = d, pre_g_128 = drop (unat (CKB_SECP256K1_DATA_PRE_SIZE E)) d\<rparr>)"
  proof (cases "secp_search E data 0")
    case (Ret x)
    obtain d n where x: "x = (d, n)" by force
    show ?thesis
      unfolding ckb_secp256k1_custom_verify_only_initialize_def Ret x
      by (cases "n = SIZE_MAX") auto
  qed (simp_all add: ckb_secp256k1_custom_verify_only_initialize_def)
  then show ?thesis unfolding secp_search_found [OF ok] by simp
qed

lemma dep_data_length: "dep_data E n data = Ret d \<Longrightarrow> length d = length data"
  by (auto simp: dep_data_def dest: wr_length split: prod.splits if_splits)

lemma secp_call_Ret_iff [simp]: "secp_call r = Ret x \<longleftrightarrow> r = SecpRet x"
  by (cases r) (simp_all add: secp256k1_default_illegal_callback_fn_def secp256k1_default_error_callback_fn_def)

lemma secp_call_defined [simp]: "well_defined (secp_call r)" "secp_call r \<noteq> Err e"
  by (cases r; simp add: secp256k1_default_illegal_callback_fn_def secp256k1_default_error_callback_fn_def)+

section \<open>Properties\<close>

text \<open>C25: \<open>ckb_secp256k1_custom_verify_only_initialize\<close> succeeds exactly if some cell dep carries the
  expected data hash and its data loads with the expected size, and every cell dep before
  it is missing the field or carries another hash; the context then points into the data of
  that first matching cell. Any other outcome of the search is an error.\<close>

theorem secp_init_first_match:
  assumes "loads_ok E" and "length (ckb_secp256k1_data_hash E) = 32"
  shows "ckb_secp256k1_custom_verify_only_initialize E data = Ret c \<longleftrightarrow>
    (\<exists>n d. n < SIZE_MAX \<and> (\<forall>j < n. dep_other E j) \<and> dep_matches E n \<and> dep_data E n data = Ret d \<and>
       c = \<lparr>pre_g = d, pre_g_128 = drop (unat (CKB_SECP256K1_DATA_PRE_SIZE E)) d\<rparr>)"
  using assms by (rule secp_init_Ret)


theorem secp_init_first_match_witness:
  "ckb_secp256k1_custom_verify_only_initialize example_env [0, 0, 0, 0] =
     Ret \<lparr>pre_g = [1, 2, 3, 4], pre_g_128 = [3, 4]\<rparr>"
proof -
  have "dep_matches example_env 1" "dep_other example_env 0"
    by (simp_all add: dep_matches_def dep_other_def dep_status_def dep_hash_def example_env_def)
  moreover have "j = 0" if "j < (1 :: u64)" for j using that by (simp add: word_less_nat_alt unat_eq_zero)
  moreover have "dep_data example_env 1 [0, 0, 0, 0] = Ret [1, 2, 3, 4]"
    by (simp add: dep_data_def example_env_def)
  ultimately show ?thesis
    unfolding secp_init_first_match [OF example_loads_ok example_hash_length]
    by (intro exI [of _ 1] exI [of _ "[1, 2, 3, 4]"]) (auto simp: example_env_def)
qed

end
