(* ===== verification/Secp_Dump.thy ===== *)
theory Secp_Dump
  imports Secp_Helper
begin

text \<open>
  c/dump_secp256k1_data_20210801.c, the build tool that writes the precomputed tables of libsecp256k1 to a
  data file and their sizes and hash to the header that c/secp256k1_helper_20210801.h includes. The tables
  are parameters, and so is whether the two files can be opened; the outcome is the exit code with the
  contents of the files. The main result connects the tool with the loader.
\<close>

section \<open>Model\<close>

abbreviation (input) ERROR_IO :: int where "ERROR_IO \<equiv> - 1"

text \<open>\<open>%ld\<close> of a size below \<open>2 ^ 63\<close> and \<open>%u\<close> of a byte: the decimal digits.\<close>

fun dec :: "nat \<Rightarrow> string" where
  "dec n = (if n < 10 then [''0123456789'' ! n] else dec (n div 10) @ [''0123456789'' ! (n mod 10)])"

declare dec.simps [simp del]

text \<open>The loop that prints the hash.\<close>

fun hash_text :: "bytes \<Rightarrow> string" where
  "hash_text [] = []"
| "hash_text [b] = dec (unat b)"
| "hash_text (b # bs) = dec (unat b) @ '', '' @ hash_text bs"

definition info_text :: "nat \<Rightarrow> nat \<Rightarrow> nat \<Rightarrow> bytes \<Rightarrow> string" where
  "info_text data_size pre_size pre128_size hash =
     ''#ifndef CKB_SECP256K1_DATA_INFO_H_'' @ CHR 0x0A #
     ''#define CKB_SECP256K1_DATA_INFO_H_'' @ CHR 0x0A #
     ''#define CKB_SECP256K1_DATA_SIZE '' @ dec data_size @ CHR 0x0A #
     ''#define CKB_SECP256K1_DATA_PRE_SIZE '' @ dec pre_size @ CHR 0x0A #
     ''#define CKB_SECP256K1_DATA_PRE128_SIZE '' @ dec pre128_size @ CHR 0x0A #
     ''static uint8_t ckb_secp256k1_data_hash[32] = {'' @ CHR 0x0A #
     ''  '' @ hash_text hash @ CHR 0x0A #
     ''};'' @ CHR 0x0A # ''#endif'' @ [CHR 0x0A]"

definition dump_main :: "env \<Rightarrow> bytes \<Rightarrow> bytes \<Rightarrow> bool \<Rightarrow> bool \<Rightarrow> int \<times> bytes option \<times> string option" where
  "dump_main E pre pre128 open_data open_info =
     (if \<not> open_data then (ERROR_IO, None, None)
      else let data = pre @ pre128 in
        if \<not> open_info then (ERROR_IO, Some data, None)
        else let ctx = blake2b_update E (blake2b_update E (blake2b_init E 32) pre) pre128;
                 hash = blake2b_final E ctx 32 in
          (0, Some data, Some (info_text (length pre + length pre128) (length pre) (length pre128) hash)))"

section \<open>Reading the header\<close>

text \<open>
  How a compiler reads the header, independently of how it was printed: the text is split into lines; the
  value of a macro is the decimal number behind \<open>#define\<close> and its name; the initializer of the array is the
  line behind its declaration, up to the closing brace, a list of decimal numbers with commas between them.
\<close>

fun split_on :: "'a \<Rightarrow> 'a list \<Rightarrow> 'a list list" where
  "split_on c [] = [[]]"
| "split_on c (x # xs) =
     (if x = c then [] # split_on c xs
      else case split_on c xs of [] \<Rightarrow> [[x]] | y # ys \<Rightarrow> (x # y) # ys)"

fun after_prefix :: "string \<Rightarrow> string \<Rightarrow> string option" where
  "after_prefix [] s = Some s"
| "after_prefix (p # ps) [] = None"
| "after_prefix (p # ps) (c # s) = (if p = c then after_prefix ps s else None)"

definition digit :: "char \<Rightarrow> nat option" where
  "digit c = (let n = of_char c :: nat in if 48 \<le> n \<and> n < 58 then Some (n - 48) else None)"

fun number_from :: "nat \<Rightarrow> string \<Rightarrow> nat option" where
  "number_from n [] = Some n"
| "number_from n (c # s) = (case digit c of None \<Rightarrow> None | Some d \<Rightarrow> number_from (10 * n + d) s)"

definition number :: "string \<Rightarrow> nat option" where
  "number s = (if s = [] then None else number_from 0 s)"

fun macro_value :: "string \<Rightarrow> string list \<Rightarrow> nat option" where
  "macro_value name [] = None"
| "macro_value name (l # ls) =
     (case after_prefix (''#define '' @ name @ '' '') l of None \<Rightarrow> macro_value name ls | Some v \<Rightarrow> number v)"

fun numbers :: "string list \<Rightarrow> nat list option" where
  "numbers [] = Some []"
| "numbers (s # ss) = (case number (dropWhile (\<lambda>c. c = CHR '' '') s) of None \<Rightarrow> None
     | Some n \<Rightarrow> (case numbers ss of None \<Rightarrow> None | Some ns \<Rightarrow> Some (n # ns)))"

fun array_value :: "string \<Rightarrow> string list \<Rightarrow> nat list option" where
  "array_value name (decl # body # close # ls) =
     (if decl = ''static uint8_t '' @ name @ ''[32] = {'' \<and> close = ''};'' then numbers (split_on (CHR '','') body)
      else array_value name (body # close # ls))"
| "array_value name ls = None"

text \<open>The loader is compiled with the constants that the header defines.\<close>

definition compiled_with :: "env \<Rightarrow> string \<Rightarrow> bool" where
  "compiled_with E text \<longleftrightarrow> (let ls = split_on (CHR 0x0A) text in
     macro_value ''CKB_SECP256K1_DATA_SIZE'' ls = Some (unat (CKB_SECP256K1_DATA_SIZE E)) \<and>
     macro_value ''CKB_SECP256K1_DATA_PRE_SIZE'' ls = Some (unat (CKB_SECP256K1_DATA_PRE_SIZE E)) \<and>
     array_value ''ckb_secp256k1_data_hash'' ls = Some (map unat (ckb_secp256k1_data_hash E)))"

section \<open>What was printed is read back\<close>

abbreviation digits :: string where "digits \<equiv> ''0123456789''"

lemma digit_digits: "n < 10 \<Longrightarrow> digit (digits ! n) = Some n"
  by (auto simp: digit_def less_Suc_eq numeral_eq_Suc)

lemma number_from_append:
  "number_from n (s @ t) = (case number_from n s of None \<Rightarrow> None | Some m \<Rightarrow> number_from m t)"
  by (induction n s rule: number_from.induct) (auto split: option.splits)

lemma dec_nonempty [simp]: "dec n \<noteq> []"
  by (subst dec.simps) simp

lemma number_from_dec: "number_from 0 (dec n) = Some n"
proof (induction n rule: dec.induct)
  case (1 n)
  show ?case
  proof (cases "n < 10")
    case True
    then show ?thesis by (simp add: dec.simps [of n] digit_digits)
  next
    case False
    then show ?thesis using 1 by (simp add: dec.simps [of n] number_from_append digit_digits)
  qed
qed

lemma number_dec [simp]: "number (dec n) = Some n"
  by (simp add: number_def number_from_dec)

lemma set_dec: "set (dec n) \<subseteq> set digits"
proof (induction n rule: dec.induct)
  case (1 n)
  have in_digits: "digits ! m \<in> set digits" if "m < 10" for m by (rule nth_mem) (use that in simp)
  then show ?case using 1 in_digits [of "n mod 10"] by (subst dec.simps) auto
qed

lemma not_in_dec [simp]: "CHR 0x0A \<notin> set (dec n)" "CHR '','' \<notin> set (dec n)" "CHR '' '' \<notin> set (dec n)"
  using set_dec [of n] by auto

lemma split_on_append: "c \<notin> set a \<Longrightarrow> split_on c (a @ c # b) = a # split_on c b"
  by (induction a) auto

lemma split_on_last: "c \<notin> set a \<Longrightarrow> split_on c a = [a]"
  by (induction a) auto

lemma newline_hash_text [simp]: "CHR 0x0A \<notin> set (hash_text h)"
  by (induction h rule: hash_text.induct) simp_all

lemma no_space_dec: "dropWhile (\<lambda>c. c = CHR '' '') (dec n @ s) = dec n @ s"
proof -
  obtain c cs where "dec n = c # cs" by (cases "dec n") auto
  then show ?thesis using not_in_dec(3) [of n] by auto
qed

lemma numbers_hash_text:
  assumes "h \<noteq> []" and "set sp \<subseteq> {CHR '' ''}"
  shows "numbers (split_on (CHR '','') (sp @ hash_text h)) = Some (map unat h)"
  using assms
proof (induction h arbitrary: sp rule: hash_text.induct)
  case (2 b)
  have "CHR '','' \<notin> set (sp @ dec (unat b))" using 2 by auto
  moreover have "dropWhile (\<lambda>c. c = CHR '' '') (sp @ dec (unat b)) = dec (unat b)"
    using 2 no_space_dec [of "unat b" "[]"] by (subst dropWhile_append2) auto
  ultimately show ?case by (simp add: split_on_last)
next
  case (3 b v vs)
  have eq: "sp @ hash_text (b # v # vs) = (sp @ dec (unat b)) @ CHR '','' # '' '' @ hash_text (v # vs)" by simp
  have "CHR '','' \<notin> set (sp @ dec (unat b))" using 3 by auto
  moreover have "dropWhile (\<lambda>c. c = CHR '' '') (sp @ dec (unat b)) = dec (unat b)"
    using 3 no_space_dec [of "unat b" "[]"] by (subst dropWhile_append2) auto
  moreover have "numbers (split_on (CHR '','') ('' '' @ hash_text (v # vs))) = Some (map unat (v # vs))"
    by (rule "3.IH") simp_all
  ultimately show ?case unfolding eq by (subst split_on_append) simp_all
qed simp

text \<open>The lines of the header.\<close>

lemma info_lines:
  "split_on (CHR 0x0A) (info_text s p q h) =
    [''#ifndef CKB_SECP256K1_DATA_INFO_H_'', ''#define CKB_SECP256K1_DATA_INFO_H_'',
     ''#define CKB_SECP256K1_DATA_SIZE '' @ dec s, ''#define CKB_SECP256K1_DATA_PRE_SIZE '' @ dec p,
     ''#define CKB_SECP256K1_DATA_PRE128_SIZE '' @ dec q, ''static uint8_t ckb_secp256k1_data_hash[32] = {'',
     ''  '' @ hash_text h, ''};'', ''#endif'', []]"
  unfolding info_text_def
  by (simp add: split_on_append [of _ "dec _"] split_on_append [of _ "hash_text _"])

lemma info_values:
  shows "macro_value ''CKB_SECP256K1_DATA_SIZE'' (split_on (CHR 0x0A) (info_text s p q h)) = Some s"
    and "macro_value ''CKB_SECP256K1_DATA_PRE_SIZE'' (split_on (CHR 0x0A) (info_text s p q h)) = Some p"
    and "h \<noteq> [] \<Longrightarrow> array_value ''ckb_secp256k1_data_hash'' (split_on (CHR 0x0A) (info_text s p q h)) = Some (map unat h)"
  unfolding info_lines using numbers_hash_text [of h "''  ''"] by simp_all

section \<open>Properties\<close>

text \<open>The constants that the loader is compiled with are those of the tables.\<close>

lemma compiled_constants:
  assumes "blake2b_ok E" "blake2b_stream E" "length pre + length pre128 < 2 ^ 63"
    and "dump_main E pre pre128 True True = (0, Some data, Some info)" "compiled_with E info"
  shows "data = pre @ pre128" "CKB_SECP256K1_DATA_SIZE E = of_nat (length data)"
    "unat (CKB_SECP256K1_DATA_PRE_SIZE E) = length pre" "ckb_secp256k1_data_hash E = blake2b_256 E data"
proof -
  show d: "data = pre @ pre128" using assms(4) by (simp add: dump_main_def Let_def)
  have info: "info = info_text (length pre + length pre128) (length pre) (length pre128) (blake2b_256 E data)"
    using assms(2,4) unfolding d
    by (simp add: dump_main_def Let_def blake2b_256_def blake2b_stream_simps)
  have "length (blake2b_256 E data) = 32" using assms(1) by simp
  then have "blake2b_256 E data \<noteq> []" by auto
  note vals = info_values(1,2) info_values(3) [OF this]
  have c: "unat (CKB_SECP256K1_DATA_SIZE E) = length data" "unat (CKB_SECP256K1_DATA_PRE_SIZE E) = length pre"
    "map unat (ckb_secp256k1_data_hash E) = map unat (blake2b_256 E data)"
    using assms(5) unfolding compiled_with_def info Let_def vals by (simp_all add: d)
  have "inj (unat :: byte \<Rightarrow> nat)" by (rule injI) (simp add: word_unat_eq_iff)
  then show "ckb_secp256k1_data_hash E = blake2b_256 E data" using c(3) inj_map_eq_map by blast
  have "CKB_SECP256K1_DATA_SIZE E = of_nat (unat (CKB_SECP256K1_DATA_SIZE E))" by simp
  then show "CKB_SECP256K1_DATA_SIZE E = of_nat (length data)" "unat (CKB_SECP256K1_DATA_PRE_SIZE E) = length pre"
    using c(1,2) by simp_all
qed

text \<open>C26: The table dumper and the loader fit together. If the loader is compiled with the header that
  the dumper printed (the constants are what stands behind their names in its lines), and the first cell dep whose data hash is the printed one holds the dumped file,
  then \<open>ckb_secp256k1_custom_verify_only_initialize\<close> gives a context whose two table pointers point to
  exactly the two tables of libsecp256k1.\<close>

theorem dumped_tables_are_loaded:
  assumes ok: "loads_ok E" "blake2b_ok E" "blake2b_stream E" "length pre + length pre128 < 2 ^ 63"
    and dump: "dump_main E pre pre128 True True = (0, Some data, Some info)"
    and compiled: "compiled_with E info"
    and n: "n < SIZE_MAX" "\<forall>j < n. dep_other E j"
    and cell: "load_cell_by_field E 32 0 n CKB_SOURCE_CELL_DEP CKB_CELL_FIELD_DATA_HASH =
        (CKB_SUCCESS, 32, blake2b_256 E data)"
      "load_cell_data E (of_nat (length data)) 0 n CKB_SOURCE_CELL_DEP =
        (CKB_SUCCESS, of_nat (length data), data)"
    and buf: "length buf = length data"
  shows "ckb_secp256k1_custom_verify_only_initialize E buf =
    Ret \<lparr>pre_g = pre @ pre128, pre_g_128 = pre128\<rparr>"
proof -
  note c = compiled_constants [OF ok(2,3,4) dump compiled]
  have h: "length (ckb_secp256k1_data_hash E) = 32" using ok(2) by (simp add: c(4))
  have "dep_hash E n = blake2b_256 E data" "dep_status E n = CKB_SUCCESS"
    using ok(2) by (simp_all add: dep_hash_def dep_status_def cell)
  then have "dep_matches E n" by (simp add: dep_matches_def c(4))
  moreover have "dep_data E n buf = Ret data"
    using buf by (simp add: dep_data_def c(2) cell)
  ultimately show ?thesis
    using n unfolding secp_init_Ret [OF ok(1) h]
    by (intro exI [of _ n] exI [of _ data]) (simp add: c(1,3))
qed

definition dumped_env :: env where
  "dumped_env = example_env\<lparr>ckb_secp256k1_data_hash := [1, 2, 3, 4] @ replicate 28 0,
     load_cell_by_field := (\<lambda>len off i src f. (0, 32, take (unat len) ([1, 2, 3, 4] @ replicate 28 0)))\<rparr>"

lemma dumped_env_ok: "loads_ok dumped_env" "blake2b_ok dumped_env" "blake2b_stream dumped_env"
  by (auto simp: loads_ok_def blake2b_ok_def blake2b_stream_def dumped_env_def example_env_def)

theorem dumped_tables_are_loaded_witness:
  "ckb_secp256k1_custom_verify_only_initialize dumped_env [0, 0, 0, 0] =
     Ret \<lparr>pre_g = [1, 2] @ [3, 4], pre_g_128 = [3, 4]\<rparr>"
proof -
  let ?hash = "[1, 2, 3, 4] @ replicate 28 (0 :: byte)"
  have n: "Suc (Suc (Suc (Suc 0))) = 4" "Suc (Suc 0) = 2" by simp_all
  have dump: "dump_main dumped_env [1, 2] [3, 4] True True = (0, Some [1, 2, 3, 4], Some (info_text 4 2 2 ?hash))"
    by (simp add: dump_main_def dumped_env_def example_env_def n)
  have "?hash \<noteq> []" by simp
  then have compiled: "compiled_with dumped_env (info_text 4 2 2 ?hash)"
    unfolding compiled_with_def Let_def info_values(1,2) info_values(3) [OF \<open>?hash \<noteq> []\<close>]
    by (simp add: dumped_env_def example_env_def)
  show ?thesis
    by (rule dumped_tables_are_loaded [OF dumped_env_ok _ dump compiled, of 0])
      (simp_all add: dumped_env_def example_env_def blake2b_256_def)
qed

end
