(* ===== verification/Ckb_Hex.thy ===== *)
theory Ckb_Hex
  imports Auth_Prelude
begin

text \<open>
  The hexadecimal codec of c/ckb_hex.h. A C string is the object that holds it, up to and
  including its terminating NUL (a byte list); a pointer that may be NULL is an option.
  Main results: decoding is total and memory safe when the output buffer holds half of
  the string, it refines the partial function \<open>unhex\<close>, and \<open>ckb_hex2bin\<close> inverts
  \<open>ckb_bin2hex\<close>.
\<close>

section \<open>Model\<close>

abbreviation (input) ERROR_HEX_OUT_OF_BOUNDS :: int where "ERROR_HEX_OUT_OF_BOUNDS \<equiv> 30"
abbreviation (input) ERROR_HEX_INVALID_HEX :: int where "ERROR_HEX_INVALID_HEX \<equiv> 31"

text \<open>Characters: \<open>'0'\<close> is 48, \<open>'9'\<close> 57, \<open>'A'\<close> 65, \<open>'F'\<close> 70, \<open>'a'\<close> 97, \<open>'f'\<close> 102, \<open>':'\<close> 58.\<close>

definition ckb_getbin :: "byte \<Rightarrow> byte run" where
  "ckb_getbin x =
     (if x \<ge> 48 \<and> x \<le> 57 then Ret (x - 48)
      else if x \<ge> 65 \<and> x \<le> 70 then Ret (x - 65 + 10)
      else if x \<ge> 97 \<and> x \<le> 102 then Ret (x - 97 + 10)
      else Err ERROR_HEX_INVALID_HEX)"

definition s_mapping :: bytes where
  "s_mapping = [48, 49, 50, 51, 52, 53, 54, 55, 56, 57, 97, 98, 99, 100, 101, 102]"

definition ckb_gethex :: "byte \<Rightarrow> bytes" where
  "ckb_gethex x =
     [s_mapping ! unat (drop_bit 4 x AND 0x0F), s_mapping ! unat (x AND 0x0F)]"

fun safe_strlen_loop :: "bytes \<Rightarrow> u32 \<Rightarrow> u32 \<Rightarrow> u32 run" where
  "safe_strlen_loop [] limit count = Fault"
| "safe_strlen_loop (c # s) limit count =
     (if c = 0 then Ret count
      else if count + 1 > limit then Err ERROR_HEX_OUT_OF_BOUNDS
      else safe_strlen_loop s limit (count + 1))"

definition ckb_safe_strlen :: "bytes option \<Rightarrow> u32 \<Rightarrow> u32 run" where
  "ckb_safe_strlen s limit =
     (case s of None \<Rightarrow> Err ERROR_HEX_OUT_OF_BOUNDS | Some s' \<Rightarrow> safe_strlen_loop s' limit 0)"

text \<open>
  The loop over \<open>i < *length\<close>; \<open>n\<close> is the number of iterations left. The index products stay
  below \<open>hex_len < 2\<^sup>3\<^sup>2\<close>.
\<close>

fun hex2bin_loop :: "bytes \<Rightarrow> bytes \<Rightarrow> nat \<Rightarrow> nat \<Rightarrow> bytes run" where
  "hex2bin_loop hex bin i 0 = Ret bin"
| "hex2bin_loop hex bin i (Suc n) =
     run_bind (rd1 (i * 2) hex) (\<lambda>c1.
     run_bind (ckb_getbin c1) (\<lambda>high.
     run_bind (rd1 (i * 2 + 1) hex) (\<lambda>c2.
     run_bind (ckb_getbin c2) (\<lambda>low.
     run_bind (wr i [push_bit 4 high OR low] bin) (\<lambda>bin'.
     hex2bin_loop hex bin' (i + 1) n)))))"

definition ckb_hex2bin :: "bytes option \<Rightarrow> bytes \<Rightarrow> u32 \<Rightarrow> (bytes \<times> u32) run" where
  "ckb_hex2bin hex bin bin_len =
     (let limit = 2 * bin_len in
      run_bind (ckb_safe_strlen hex limit) (\<lambda>hex_len.
      if hex_len mod 2 \<noteq> 0 then Err ERROR_HEX_INVALID_HEX
      else let len = hex_len div 2 in
        if len > bin_len then Err ERROR_HEX_OUT_OF_BOUNDS
        else run_bind (hex2bin_loop (the hex) bin 0 (unat len)) (\<lambda>bin'. Ret (bin', len))))"

text \<open>Here the index products stay below \<open>2\<^sup>3\<^sup>2\<close> for \<open>bin_len < 2\<^sup>3\<^sup>1\<close>, as at every caller; beyond that
  the check of the size wraps around in \<open>ckb_bin2hex\<close> as in the code, while this loop goes on where the index of the code
  would start again at 0.\<close>

fun bin2hex_loop :: "bytes \<Rightarrow> bytes \<Rightarrow> nat \<Rightarrow> nat \<Rightarrow> bytes run" where
  "bin2hex_loop bin hex i 0 = Ret hex"
| "bin2hex_loop bin hex i (Suc n) =
     run_bind (rd1 i bin) (\<lambda>x.
     run_bind (wr (2 * i) (ckb_gethex x) hex) (\<lambda>hex'.
     bin2hex_loop bin hex' (i + 1) n))"

definition ckb_bin2hex :: "bytes \<Rightarrow> u32 \<Rightarrow> bytes \<Rightarrow> u32 \<Rightarrow> bool \<Rightarrow> (bytes \<times> u32) run" where
  "ckb_bin2hex bin bin_len hex hex_len last_field =
     (if hex_len < bin_len * 2 + 1 then Err ERROR_HEX_OUT_OF_BOUNDS
      else run_bind (bin2hex_loop bin hex 0 (unat bin_len)) (\<lambda>hex'.
        run_bind (wr (unat (bin_len * 2)) [if last_field then 0 else 58] hex') (\<lambda>hex''.
        Ret (hex'', 2 * bin_len + 1))))"

section \<open>Abstract specification\<close>

definition hexdigit :: "byte \<Rightarrow> byte option" where
  "hexdigit x = (case ckb_getbin x of Ret d \<Rightarrow> Some d | _ \<Rightarrow> None)"

fun unhex :: "bytes \<Rightarrow> bytes option" where
  "unhex [] = Some []"
| "unhex [c] = None"
| "unhex (c1 # c2 # cs) =
     (case (hexdigit c1, hexdigit c2, unhex cs) of
        (Some h, Some l, Some bs) \<Rightarrow> Some ((16 * h + l) # bs) | _ \<Rightarrow> None)"

definition tohex :: "bytes \<Rightarrow> bytes" where
  "tohex bs = concat (map ckb_gethex bs)"

section \<open>Digits\<close>

lemma ckb_getbin_cases: "(\<exists>d. ckb_getbin x = Ret d) \<or> ckb_getbin x = Err ERROR_HEX_INVALID_HEX"
  by (auto simp: ckb_getbin_def)

lemma ckb_getbin_bound:
  assumes "ckb_getbin x = Ret d" shows "d < 16"
proof -
  have "unat d < 16"
    using assms by (auto simp: ckb_getbin_def split: if_splits; unat_arith)
  then show ?thesis by (simp add: word_less_nat_alt)
qed

lemma nibble_cases:
  assumes "n < 16"
  shows "n \<in> {0, 1, 2, 3, 4, 5, 6, 7, 8, 9, 10, 11, 12, 13, 14, 15 :: nat}"
proof -
  have "{..<16} = {0, 1, 2, 3, 4, 5, 6, 7, 8, 9, 10, 11, 12, 13, 14, 15 :: nat}"
    by (simp add: lessThan_nat_numeral lessThan_Suc insert_commute)
  with assms show ?thesis by blast
qed

lemma ckb_getbin_mapping: "n < 16 \<Longrightarrow> ckb_getbin (s_mapping ! n) = Ret (word_of_nat n)"
  by (drule nibble_cases) (auto simp: ckb_getbin_def s_mapping_def)

lemma s_mapping_nonzero: "n < 16 \<Longrightarrow> s_mapping ! n \<noteq> 0"
  by (drule nibble_cases) (auto simp: s_mapping_def)

lemma and_nibble: "x AND 0x0F = take_bit 4 (x :: byte)"
  by (rule and_mask_take_bit) (simp add: mask_eq_exp_minus_1)

lemma unat_nibble: "unat (x AND 0x0F :: byte) < 16"
  by (simp add: and_nibble unat_take_bit)

lemma nibbles_add: "l < 16 \<Longrightarrow> push_bit 4 h OR l = 16 * h + (l :: byte)"
  using push_bit_or_add [of l 4 h] by (simp add: push_bit_eq_mult word_less_nat_alt mult.commute)

lemma ckb_gethex_digits:
  "\<exists>h l. ckb_gethex x = [h, l] \<and> h \<noteq> 0 \<and> l \<noteq> 0 \<and>
     ckb_getbin h = Ret (drop_bit 4 x AND 0x0F) \<and> ckb_getbin l = Ret (x AND 0x0F)"
  by (simp add: ckb_gethex_def ckb_getbin_mapping unat_nibble s_mapping_nonzero)

lemma nibbles_join: "push_bit 4 (drop_bit 4 x AND 0x0F) OR (x AND 0x0F) = (x :: byte)"
proof -
  have "drop_bit 4 x AND 0x0F = drop_bit 4 x"
    unfolding and_nibble
    by (rule take_bit_small)
       (use less_mult_imp_div_less [of "unat x" 16 16] in \<open>simp add: unat_drop_bit\<close>)
  then show ?thesis by (simp add: and_nibble push_drop_or_take)
qed

lemma length_ckb_gethex [simp]: "length (ckb_gethex x) = 2"
  by (simp add: ckb_gethex_def)

lemma length_tohex [simp]: "length (tohex bs) = 2 * length bs"
  by (induction bs) (simp_all add: tohex_def)

lemma tohex_simps [simp]: "tohex [] = []" "tohex (b # bs) = ckb_gethex b @ tohex bs"
  by (simp_all add: tohex_def)

lemma tohex_nonzero: "0 \<notin> set (tohex bs)"
proof (induction bs)
  case (Cons b bs)
  then show ?case using ckb_gethex_digits [of b] by auto
qed simp

lemma unhex_tohex: "unhex (tohex bs) = Some bs"
proof (induction bs)
  case (Cons b bs)
  obtain h l where "ckb_gethex b = [h, l]" "ckb_getbin h = Ret (drop_bit 4 b AND 0x0F)"
    "ckb_getbin l = Ret (b AND 0x0F)"
    using ckb_gethex_digits by blast
  moreover have "16 * (drop_bit 4 b AND 0x0F) + (b AND 0x0F) = b"
    using nibbles_add [of "b AND 0x0F" "drop_bit 4 b AND 0x0F"] unat_nibble [of b]
    unfolding nibbles_join by (simp add: word_less_nat_alt)
  ultimately show ?case using Cons.IH by (simp add: hexdigit_def)
qed simp

section \<open>Length of a string\<close>

text \<open>A C string \<open>cs\<close> without NUL, terminated by one, possibly followed by other bytes.\<close>

lemma safe_strlen_loop_eq:
  assumes "0 \<notin> set cs" and "unat count + length cs < 2 ^ 32"
  shows "safe_strlen_loop (cs @ 0 # rest) limit count =
    (if unat count + length cs \<le> unat limit \<or> cs = []
     then Ret (count + word_of_nat (length cs)) else Err ERROR_HEX_OUT_OF_BOUNDS)"
  using assms
proof (induction cs arbitrary: count)
  case (Cons c cs)
  have uc: "unat (count + 1) = Suc (unat count)"
    using Cons.prems(2) by (simp add: unat_word_ariths)
  show ?case
  proof (cases "count + 1 > limit")
    case True
    then have "unat limit < Suc (unat count)" using uc by (simp add: word_less_nat_alt)
    with True Cons.prems show ?thesis by auto
  next
    case False
    then have "Suc (unat count) \<le> unat limit" using uc by (simp add: word_less_nat_alt)
    with False Cons.prems Cons.IH [of "count + 1"] uc show ?thesis
      by (auto simp: algebra_simps)
  qed
qed simp

lemma ckb_safe_strlen_eq:
  assumes "0 \<notin> set cs" and "length cs < 2 ^ 32"
  shows "ckb_safe_strlen (Some (cs @ 0 # rest)) limit =
    (if length cs \<le> unat limit then Ret (word_of_nat (length cs))
     else Err ERROR_HEX_OUT_OF_BOUNDS)"
  using safe_strlen_loop_eq [OF assms(1), of 0 rest limit] assms(2)
  by (simp add: ckb_safe_strlen_def)

section \<open>Decoding\<close>

lemma unhex_Cons2:
  "unhex (c1 # c2 # cs) =
     (case ckb_getbin c1 of Ret h \<Rightarrow>
        (case ckb_getbin c2 of Ret l \<Rightarrow> map_option ((#) (push_bit 4 h OR l)) (unhex cs) | _ \<Rightarrow> None)
      | _ \<Rightarrow> None)"
  using ckb_getbin_bound [of c2] nibbles_add
  by (auto simp: hexdigit_def split: run.splits option.splits)

lemma hex2bin_loop_eq:
  assumes "2 * i + 2 * n \<le> length hex" and "i + n \<le> length bin"
  shows "hex2bin_loop hex bin i n =
    (case unhex (sub_bytes (2 * i) (2 * n) hex) of
       Some bs \<Rightarrow> Ret (take i bin @ bs @ drop (i + n) bin)
     | None \<Rightarrow> Err ERROR_HEX_INVALID_HEX)"
  using assms
proof (induction n arbitrary: i bin)
  case 0
  then show ?case by (simp add: sub_bytes_def)
next
  case (Suc n)
  let ?c1 = "hex ! (2 * i)" and ?c2 = "hex ! Suc (2 * i)"
  have sub: "sub_bytes (2 * i) (2 * Suc n) hex = ?c1 # ?c2 # sub_bytes (2 * (i + 1)) (2 * n) hex"
    using Suc.prems(1) by (simp add: sub_bytes_def Cons_nth_drop_Suc [symmetric])
  have IH: "hex2bin_loop hex (take i bin @ b # drop (Suc i) bin) (Suc i) n =
      (case unhex (sub_bytes (2 * (i + 1)) (2 * n) hex) of
         Some bs \<Rightarrow> Ret (take i bin @ b # bs @ drop (i + Suc n) bin)
       | None \<Rightarrow> Err ERROR_HEX_INVALID_HEX)" for b
    using Suc.IH [of "Suc i" "take i bin @ b # drop (Suc i) bin"] Suc.prems
    by (simp add: min_def add.commute split: option.split)
  show ?case
    unfolding sub unhex_Cons2 hex2bin_loop.simps
    using Suc.prems IH ckb_getbin_cases [of ?c1] ckb_getbin_cases [of ?c2]
    by (auto simp: rd1_ok wr_ok mult.commute split: option.split)
qed

lemma unhex_length: "unhex cs = Some bs \<Longrightarrow> length cs = 2 * length bs"
  by (induction cs arbitrary: bs rule: unhex.induct) (auto split: option.splits)

text \<open>The decoder on every string of at most \<open>2 * bin_len\<close> characters.\<close>

lemma ckb_hex2bin_eq:
  assumes nz: "0 \<notin> set cs" and len: "length cs \<le> 2 * unat bin_len" "length cs < 2 ^ 32"
    and lim: "unat bin_len < 2 ^ 31" and room: "length cs div 2 \<le> length bin"
  shows "ckb_hex2bin (Some (cs @ 0 # rest)) bin bin_len =
    (case unhex cs of
       Some bs \<Rightarrow> Ret (bs @ drop (length bs) bin, word_of_nat (length bs))
     | None \<Rightarrow> Err ERROR_HEX_INVALID_HEX)"
proof -
  let ?L = "word_of_nat (length cs) :: u32"
  have uL: "unat ?L = length cs" using len(2) by (simp add: unat_of_nat)
  have "unat (2 * bin_len) = 2 * unat bin_len"
    using lim by (simp add: unat_word_ariths)
  then have sl: "ckb_safe_strlen (Some (cs @ 0 # rest)) (2 * bin_len) = Ret ?L"
    using ckb_safe_strlen_eq [OF nz len(2)] len(1) by simp
  have udiv: "unat (?L div 2) = length cs div 2" and umod: "unat (?L mod 2) = length cs mod 2"
    using uL by (simp_all add: unat_div unat_mod)
  show ?thesis
  proof (cases "even (length cs)")
    case True
    then have two: "2 * (length cs div 2) = length cs" by simp
    have "?L mod 2 = 0" using umod True by (simp add: word_unat_eq_iff)
    moreover have "\<not> ?L div 2 > bin_len"
      using udiv len(1) True by (simp add: word_less_nat_alt)
    moreover have "hex2bin_loop (cs @ 0 # rest) bin 0 (length cs div 2) =
      (case unhex cs of Some bs \<Rightarrow> Ret (bs @ drop (length cs div 2) bin)
       | None \<Rightarrow> Err ERROR_HEX_INVALID_HEX)"
      using hex2bin_loop_eq [of 0 "length cs div 2" "cs @ 0 # rest" bin] room two
      by (simp split: option.splits)
    moreover have "?L div 2 = word_of_nat (length cs div 2)"
      using udiv by (metis word_of_nat_eqI)
    ultimately show ?thesis
      using sl udiv unhex_length [of cs] by (auto simp: ckb_hex2bin_def split: option.split)
  next
    case False
    then have "unhex cs = None" using unhex_length [of cs] by (cases "unhex cs") auto
    moreover have "?L mod 2 \<noteq> 0" using umod False by (auto simp: word_unat_eq_iff odd_iff_mod_2_eq_one)
    ultimately show ?thesis using sl by (simp add: ckb_hex2bin_def)
  qed
qed

section \<open>Encoding\<close>

lemma bin2hex_loop_eq:
  assumes "i + n \<le> length bin" and "2 * i + 2 * n \<le> length hex"
  shows "bin2hex_loop bin hex i n =
    Ret (take (2 * i) hex @ tohex (sub_bytes i n bin) @ drop (2 * i + 2 * n) hex)"
  using assms
proof (induction n arbitrary: i hex)
  case 0
  then show ?case by (simp add: sub_bytes_def)
next
  case (Suc n)
  have sub: "sub_bytes i (Suc n) bin = bin ! i # sub_bytes (Suc i) n bin"
    using Suc.prems(1) by (simp add: sub_bytes_def Cons_nth_drop_Suc [symmetric])
  let ?h = "take (2 * i) hex @ ckb_gethex (bin ! i) @ drop (2 * i + 2) hex"
  have "bin2hex_loop bin ?h (Suc i) n =
      Ret (take (2 * Suc i) ?h @ tohex (sub_bytes (Suc i) n bin) @ drop (2 * Suc i + 2 * n) ?h)"
    using Suc.prems by (intro Suc.IH) auto
  moreover have "take (2 * Suc i) ?h = take (2 * i) hex @ ckb_gethex (bin ! i)"
    and "drop (2 * Suc i + 2 * n) ?h = drop (2 * i + 2 * Suc n) hex"
    using Suc.prems by (simp_all add: min_def add.commute)
  ultimately show ?case
    using Suc.prems by (simp add: sub rd1_ok wr_ok)
qed

text \<open>
  With room for the digits and the terminator the encoder writes exactly the digits; the
  bytes of the buffer after the terminator stay as they were.
\<close>

text \<open>The encoder on the first \<open>bin_len\<close> bytes of an object.\<close>

lemma ckb_bin2hex_prefix:
  assumes n: "unat bin_len \<le> length bin" "unat bin_len < 2 ^ 31 - 1"
    and room: "unat hex_len \<le> length hex" "2 * unat bin_len + 1 \<le> unat hex_len"
  shows "ckb_bin2hex bin bin_len hex hex_len lf =
    Ret (tohex (take (unat bin_len) bin) @ (if lf then 0 else 58) # drop (2 * unat bin_len + 1) hex, 2 * bin_len + 1)"
proof -
  let ?n = "unat bin_len"
  have u: "unat (bin_len * 2) = 2 * ?n" "unat (bin_len * 2 + 1) = 2 * ?n + 1"
    using n by (simp_all add: unat_word_ariths)
  then have "\<not> hex_len < bin_len * 2 + 1" using room by (simp add: word_less_nat_alt)
  moreover have "bin2hex_loop bin hex 0 ?n = Ret (tohex (take ?n bin) @ drop (2 * ?n) hex)"
    using room n by (subst bin2hex_loop_eq) simp_all
  ultimately show ?thesis using room u n by (simp add: ckb_bin2hex_def add.commute)
qed

lemma ckb_bin2hex_eq:
  assumes n: "unat bin_len = length bin" "length bin < 2 ^ 31 - 1"
    and room: "unat hex_len \<le> length hex" "2 * length bin + 1 \<le> unat hex_len"
  shows "ckb_bin2hex bin bin_len hex hex_len lf =
    Ret (tohex bin @ (if lf then 0 else 58) # drop (2 * length bin + 1) hex, 2 * bin_len + 1)"
  using ckb_bin2hex_prefix [of bin_len bin hex_len hex lf] assms by simp

lemma ckb_bin2hex_too_small:
  "unat bin_len < 2 ^ 31 - 1 \<Longrightarrow> unat hex_len < 2 * unat bin_len + 1 \<Longrightarrow>
   ckb_bin2hex bin bin_len hex hex_len lf = Err ERROR_HEX_OUT_OF_BOUNDS"
  by (simp add: ckb_bin2hex_def word_less_nat_alt unat_word_ariths)

lemma hex_roundtrip:
  assumes n: "unat bin_len = length bin" "length bin < 2 ^ 31 - 1"
    and room: "unat hex_len \<le> length hex" "2 * length bin + 1 \<le> unat hex_len"
    and dec: "length bin \<le> unat cap" "unat cap < 2 ^ 31" "length bin \<le> length out"
  shows "run_bind (ckb_bin2hex bin bin_len hex hex_len True)
      (\<lambda>(h, _). ckb_hex2bin (Some h) out cap) =
    Ret (bin @ drop (length bin) out, bin_len)"
proof -
  have "ckb_hex2bin (Some (tohex bin @ 0 # drop (2 * length bin + 1) hex)) out cap =
      Ret (bin @ drop (length bin) out, word_of_nat (length bin))"
    using n dec by (subst ckb_hex2bin_eq) (simp_all add: tohex_nonzero unhex_tohex)
  then show ?thesis
    using ckb_bin2hex_eq [OF n room, of True] word_of_nat_eqI [OF n(1)] by simp
qed

section \<open>Properties\<close>

text \<open>C33: Decoding with \<open>ckb_hex2bin\<close> the string that \<open>ckb_bin2hex\<close> wrote (with the
  terminating NUL, \<open>last_field = true\<close>) gives back the bytes and their count, for every
  buffer size the checks accept; the rest of the output buffer is untouched.\<close>

theorem hex2bin_bin2hex:
  assumes "unat bin_len = length bin" and "length bin < 2 ^ 31 - 1"
    and "unat hex_len \<le> length hex" and "2 * length bin + 1 \<le> unat hex_len"
    and "length bin \<le> unat cap" and "unat cap < 2 ^ 31" and "length bin \<le> length out"
  shows "run_bind (ckb_bin2hex bin bin_len hex hex_len True)
      (\<lambda>(h, _). ckb_hex2bin (Some h) out cap) =
    Ret (bin @ drop (length bin) out, bin_len)"
  using assms by (rule hex_roundtrip)

theorem hex2bin_bin2hex_witness:
  "run_bind (ckb_bin2hex [0xAB, 0x01] 2 [9, 9, 9, 9, 9, 9] 6 True)
     (\<lambda>(h, _). ckb_hex2bin (Some h) [7, 7, 7] 3) = Ret ([0xAB, 0x01, 7], 2)"
  using hex2bin_bin2hex [of 2 "[0xAB, 0x01]" 6 "[9, 9, 9, 9, 9, 9]" 3 "[7, 7, 7]"] by simp

text \<open>On a NUL-terminated string that fits, \<open>ckb_hex2bin\<close> never reads or writes out of
  bounds: it returns the decoded bytes when the string is an even number of hexadecimal
  digits of either case, and \<open>ERROR_HEX_INVALID_HEX\<close> otherwise.\<close>

theorem hex2bin_refines_unhex:
  assumes "0 \<notin> set cs" and "length cs \<le> 2 * unat bin_len" and "length cs < 2 ^ 32"
    and "unat bin_len < 2 ^ 31" and "length cs div 2 \<le> length bin"
  shows "ckb_hex2bin (Some (cs @ 0 # rest)) bin bin_len =
    (case unhex cs of
       Some bs \<Rightarrow> Ret (bs @ drop (length bs) bin, word_of_nat (length bs))
     | None \<Rightarrow> Err ERROR_HEX_INVALID_HEX)"
  using assms by (rule ckb_hex2bin_eq)

theorem hex2bin_refines_unhex_witness:
  "ckb_hex2bin (Some ([0x66, 0x46, 0x30, 0x67] @ 0 # [1])) [0, 0] 2 = Err ERROR_HEX_INVALID_HEX"
  using hex2bin_refines_unhex [of "[0x66, 0x46, 0x30, 0x67]" 2 "[0, 0]" "[1]"]
  by (simp add: hexdigit_def ckb_getbin_def)

end
