(* ===== verification/Auth_Convert.thy ===== *)
theory Auth_Convert
  imports Auth_Env Keccak_Sponge Ckb_Hex
begin

text \<open>
  The first half of a verification in c/auth.c: the message that the wallet of each chain
  really signs is computed from the 32 byte CKB message. Every function takes the message, its
  length, and the caller's 32 byte buffer with its length, and returns the filled buffer.
\<close>

section \<open>Model\<close>

abbreviation (input) ERROR_NOT_IMPLEMENTED :: int where "ERROR_NOT_IMPLEMENTED \<equiv> 100"
abbreviation (input) ERROR_MISMATCHED :: int where "ERROR_MISMATCHED \<equiv> 101"
abbreviation (input) ERROR_INVALID_ARG :: int where "ERROR_INVALID_ARG \<equiv> 102"
abbreviation (input) ERROR_WRONG_STATE :: int where "ERROR_WRONG_STATE \<equiv> 103"
abbreviation (input) ERROR_SPAWN_INVALID_LENGTH :: int where "ERROR_SPAWN_INVALID_LENGTH \<equiv> 104"
abbreviation (input) ERROR_SPAWN_SIGN_TOO_LONG :: int where "ERROR_SPAWN_SIGN_TOO_LONG \<equiv> 105"
abbreviation (input) ERROR_SPAWN_INVALID_ALGORITHM_ID :: int where "ERROR_SPAWN_INVALID_ALGORITHM_ID \<equiv> 106"
abbreviation (input) ERROR_SPAWN_INVALID_SIG :: int where "ERROR_SPAWN_INVALID_SIG \<equiv> 107"
abbreviation (input) ERROR_SPAWN_INVALID_MSG :: int where "ERROR_SPAWN_INVALID_MSG \<equiv> 108"
abbreviation (input) ERROR_SPAWN_INVALID_PUBKEY :: int where "ERROR_SPAWN_INVALID_PUBKEY \<equiv> 109"
abbreviation (input) ERROR_SCHNORR :: int where "ERROR_SCHNORR \<equiv> 110"

abbreviation (input) BLAKE2B_BLOCK_SIZE :: nat where "BLAKE2B_BLOCK_SIZE \<equiv> 32"
abbreviation (input) SHA256_SIZE :: nat where "SHA256_SIZE \<equiv> 32"

type_synonym convert_msg_t = "env \<Rightarrow> bytes \<Rightarrow> u64 \<Rightarrow> bytes \<Rightarrow> u64 \<Rightarrow> bytes run"

text \<open>The bytes of a C string literal, without the NUL.\<close>

definition ascii :: "string \<Rightarrow> bytes" where
  "ascii s = map of_char s"

definition check_status :: "int \<times> 'a \<Rightarrow> 'a run" where
  "check_status r = (if fst r \<noteq> 0 then Err (fst r) else Ret (snd r))"

definition md_string :: "env \<Rightarrow> bytes option \<Rightarrow> bytes \<Rightarrow> nat \<Rightarrow> bytes \<Rightarrow> bytes run" where
  "md_string E md_info buf n output =
     (case md_info of
        None \<Rightarrow> Err MBEDTLS_ERR_MD_BAD_INPUT_DATA
      | Some info \<Rightarrow>
          run_bind (check_status (md_setup E info)) (\<lambda>ctx.
          run_bind (check_status (md_starts E ctx)) (\<lambda>ctx.
          run_bind (rd 0 n buf) (\<lambda>data.
          run_bind (check_status (md_update E ctx data)) (\<lambda>ctx.
          run_bind (check_status (md_finish E ctx)) (\<lambda>digest.
          wr 0 digest output))))))"

definition convert_copy :: convert_msg_t where
  "convert_copy E msg msg_len new_msg new_msg_len =
     (if msg_len \<noteq> new_msg_len \<or> msg_len \<noteq> 32 then Err ERROR_INVALID_ARG
      else run_bind (rd 0 (unat msg_len) msg) (\<lambda>m. wr 0 m new_msg))"

definition eth_prefix :: bytes where
  "eth_prefix = 0x19 # ascii ''Ethereum Signed Message:'' @ [0x0A] @ ascii ''32''"

definition convert_eth_message :: convert_msg_t where
  "convert_eth_message E msg msg_len new_msg new_msg_len =
     (if msg_len \<noteq> new_msg_len \<or> msg_len \<noteq> 32 then Err ERROR_INVALID_ARG
      else run_bind (keccak_update keccak_init (site_addr E EthPrefix) eth_prefix 28) (\<lambda>ctx.
        run_bind (keccak_update ctx (site_addr E EthMsg) msg 32) (\<lambda>ctx.
        run_bind (keccak_final ctx (Some new_msg)) (\<lambda>(_, out). Ret (the out)))))"

definition tron_prefix :: bytes where
  "tron_prefix = 0x19 # ascii ''TRON Signed Message:'' @ [0x0A] @ ascii ''32''"

definition convert_tron_message :: convert_msg_t where
  "convert_tron_message E msg msg_len new_msg new_msg_len =
     (if msg_len \<noteq> new_msg_len \<or> msg_len \<noteq> 32 then Err ERROR_INVALID_ARG
      else run_bind (keccak_update keccak_init (site_addr E TronPrefix) tron_prefix 24) (\<lambda>ctx.
        run_bind (keccak_update ctx (site_addr E TronMsg) msg 32) (\<lambda>ctx.
        run_bind (keccak_final ctx (Some new_msg)) (\<lambda>(_, out). Ret (the out)))))"

definition HEX_TABLE :: bytes where
  "HEX_TABLE = ascii ''0123456789abcdef''"

fun bin_to_hex_loop :: "bytes \<Rightarrow> bytes \<Rightarrow> nat \<Rightarrow> nat \<Rightarrow> bytes run" where
  "bin_to_hex_loop source dest i 0 = Ret dest"
| "bin_to_hex_loop source dest i (Suc n) =
     run_bind (rd1 i source) (\<lambda>x.
     run_bind (wr (i * 2) [HEX_TABLE ! unat (drop_bit 4 x)] dest) (\<lambda>dest.
     run_bind (wr (i * 2 + 1) [HEX_TABLE ! unat (x AND 0x0F)] dest) (\<lambda>dest.
     bin_to_hex_loop source dest (i + 1) n)))"

definition bin_to_hex :: "bytes \<Rightarrow> bytes \<Rightarrow> nat \<Rightarrow> bytes run" where
  "bin_to_hex source dest len = bin_to_hex_loop source dest 0 len"

text \<open>\<open>d\<close> is the offset that the pointer \<open>dest\<close> has reached.\<close>

fun split_hex_loop :: "bytes \<Rightarrow> bytes \<Rightarrow> nat \<Rightarrow> nat list \<Rightarrow> bytes run" where
  "split_hex_loop source dest d [] = Ret dest"
| "split_hex_loop source dest d (i # is) =
     run_bind (if i > 0 \<and> i mod 6 = 0 then run_bind (wr d [0x20] dest) (\<lambda>dest. Ret (dest, d + 1))
               else Ret (dest, d)) (\<lambda>(dest, d).
     run_bind (rd1 i source) (\<lambda>x.
     run_bind (wr d [HEX_TABLE ! (unat x div 16)] dest) (\<lambda>dest.
     run_bind (wr (d + 1) [HEX_TABLE ! (unat x mod 16)] dest) (\<lambda>dest.
     split_hex_loop source dest (d + 2) is))))"

definition split_hex_hash :: "bytes \<Rightarrow> bytes \<Rightarrow> bytes run" where
  "split_hex_hash source dest = split_hex_loop source dest 0 [0..<BLAKE2B_BLOCK_SIZE]"

definition convert_eos_message :: convert_msg_t where
  "convert_eos_message E msg msg_len new_msg new_msg_len =
     (if msg_len \<noteq> new_msg_len \<or> msg_len \<noteq> 32 then Err ERROR_INVALID_ARG
      else run_bind (split_hex_hash msg (uninit E (BLAKE2B_BLOCK_SIZE * 2 + 5))) (\<lambda>splited_message.
        md_string E (md_info_from_type E MBEDTLS_MD_SHA256) msg (unat msg_len) new_msg))"

definition convert_btc_message_variant ::
  "env \<Rightarrow> bytes \<Rightarrow> u64 \<Rightarrow> bytes \<Rightarrow> u64 \<Rightarrow> bytes \<Rightarrow> byte \<Rightarrow> bytes run" where
  "convert_btc_message_variant E msg msg_len new_msg new_msg_len magic magic_len =
     (if msg_len \<noteq> new_msg_len \<or> msg_len \<noteq> 32 then Err ERROR_INVALID_ARG
      else run_bind (bin_to_hex msg (uninit E 64) 32) (\<lambda>temp.
        let n = unat magic_len in
        run_bind (wr 0 [magic_len] (uninit E (n + 2))) (\<lambda>new_magic.
        run_bind (rd 0 n magic) (\<lambda>m.
        run_bind (wr 1 m new_magic) (\<lambda>new_magic.
        run_bind (wr (n + 1) [64] new_magic) (\<lambda>new_magic.
        let md_info = md_info_from_type E MBEDTLS_MD_SHA256 in
        run_bind (wr 0 new_magic (uninit E (n + 2 + 64))) (\<lambda>temp2.
        run_bind (wr (n + 2) temp temp2) (\<lambda>temp2.
        run_bind (md_string E md_info temp2 (n + 2 + 64) new_msg) (\<lambda>new_msg.
        md_string E md_info new_msg SHA256_SIZE new_msg)))))))))"

definition BTC_MESSAGE_MAGIC :: bytes where
  "BTC_MESSAGE_MAGIC = ascii ''Bitcoin Signed Message:'' @ [0x0A, 0]"

definition DOGE_MESSAGE_MAGIC :: bytes where
  "DOGE_MESSAGE_MAGIC = ascii ''Dogecoin Signed Message:'' @ [0x0A, 0]"

definition LITE_MESSAGE_MAGIC :: bytes where
  "LITE_MESSAGE_MAGIC = ascii ''Litecoin Signed Message:'' @ [0x0A, 0]"

definition convert_btc_message :: convert_msg_t where
  "convert_btc_message E msg msg_len new_msg new_msg_len =
     convert_btc_message_variant E msg msg_len new_msg new_msg_len BTC_MESSAGE_MAGIC 24"

definition convert_doge_message :: convert_msg_t where
  "convert_doge_message E msg msg_len new_msg new_msg_len =
     convert_btc_message_variant E msg msg_len new_msg new_msg_len DOGE_MESSAGE_MAGIC 25"

definition convert_litecoin_message :: convert_msg_t where
  "convert_litecoin_message E msg msg_len new_msg new_msg_len =
     convert_btc_message_variant E msg msg_len new_msg new_msg_len LITE_MESSAGE_MAGIC 25"


section \<open>Digests of mbedtls\<close>

definition md_hash :: "env \<Rightarrow> md_type \<Rightarrow> bytes \<Rightarrow> bytes run" where
  "md_hash E t data =
     (case md_info_from_type E t of
        None \<Rightarrow> Err MBEDTLS_ERR_MD_BAD_INPUT_DATA
      | Some info \<Rightarrow>
          run_bind (check_status (md_setup E info)) (\<lambda>ctx.
          run_bind (check_status (md_starts E ctx)) (\<lambda>ctx.
          run_bind (check_status (md_update E ctx data)) (\<lambda>ctx.
          check_status (md_finish E ctx)))))"

lemma check_status_Ret_iff [simp]: "check_status r = Ret x \<longleftrightarrow> fst r = 0 \<and> x = snd r"
  by (auto simp: check_status_def)

lemma check_status_defined [simp]:
  "check_status r \<noteq> Fault" "check_status r \<noteq> NoFuel" "check_status r \<noteq> Exit e"
  "well_defined (check_status r)"
  by (auto simp: check_status_def)

lemma check_status_nonzero: "check_status r = Err e \<Longrightarrow> e \<noteq> 0"
  by (auto simp: check_status_def split: if_splits)

lemma md_string_eq:
  assumes "n \<le> length buf"
  shows "md_string E (md_info_from_type E t) buf n output =
    run_bind (md_hash E t (take n buf)) (\<lambda>d. wr 0 d output)"
  using assms by (simp add: md_string_def md_hash_def run_simps split: option.split)

definition md_size :: "md_type \<Rightarrow> nat" where
  "md_size t = (case t of MBEDTLS_MD_SHA256 \<Rightarrow> 32 | MBEDTLS_MD_RIPEMD160 \<Rightarrow> 20)"

lemma md_hash_length: "md_ok E \<Longrightarrow> md_hash E t data = Ret d \<Longrightarrow> length d = md_size t"
  by (cases t) (auto simp: md_hash_def md_ok_def md_context_def md_size_def split: option.splits)

lemma md_hash_defined [simp]: "well_defined (md_hash E t data)" "md_hash E t data \<noteq> Exit e"
  by (auto simp: md_hash_def run_iffs intro!: well_defined_bind split: option.split)

lemma md_string_full:
  assumes "md_ok E" and "n \<le> length buf" and "length output = md_size t"
  shows "md_string E (md_info_from_type E t) buf n output = md_hash E t (take n buf)"
  unfolding md_string_eq [OF assms(2)]
  using md_hash_length [OF assms(1), of t "take n buf"] assms(3)
  by (cases "md_hash E t (take n buf)") auto

section \<open>Hexadecimal text\<close>

lemma HEX_TABLE_eq: "HEX_TABLE = s_mapping"
  by (simp add: HEX_TABLE_def s_mapping_def ascii_def of_char_def)

lemma high_nibble: "drop_bit 4 (x :: byte) AND 0x0F = drop_bit 4 x"
proof -
  have "unat (drop_bit 4 x) < 2 ^ 4"
    unfolding unat_drop_bit by (rule less_mult_imp_div_less) simp
  then have "take_bit 4 (drop_bit 4 x) = drop_bit 4 x" by (rule take_bit_small)
  then show ?thesis using and_mask_take_bit [of "0x0F" 4 "drop_bit 4 x"] by (simp add: mask_eq_exp_minus_1)
qed

lemma wr_two: "run_bind (wr p [a] d) (\<lambda>d. run_bind (wr (p + 1) [b] d) f) = run_bind (wr p [a, b] d) f"
proof -
  consider "p + 2 \<le> length d" | "length d = p + 1" | "length d \<le> p" by linarith
  then show ?thesis by cases (auto simp: wr_def)
qed

lemma bin_to_hex_loop_eq:
  "bin_to_hex_loop source dest i n = bin2hex_loop source dest i n"
proof (induction n arbitrary: i dest)
  case (Suc n)
  show ?case
    unfolding bin_to_hex_loop.simps bin2hex_loop.simps Suc.IH ckb_gethex_def HEX_TABLE_eq high_nibble wr_two
    by (simp add: mult.commute)
qed simp

lemma bin_to_hex_eq:
  assumes "n \<le> length source" and "length dest = 2 * n"
  shows "bin_to_hex source dest n = Ret (tohex (take n source))"
  using assms by (simp add: bin_to_hex_def bin_to_hex_loop_eq bin2hex_loop_eq)


lemma split_hex_loop_ok:
  assumes "\<forall>i \<in> set is. i < length source" and "d + 3 * length is \<le> length dest + length (filter (\<lambda>i. i = 0 \<or> i mod 6 \<noteq> 0) is)"
  shows "\<exists>dest'. split_hex_loop source dest d is = Ret dest' \<and> length dest' = length dest"
  using assms
proof (induction "is" arbitrary: dest d)
  case (Cons i js)
  let ?P = "\<lambda>i. i = 0 \<or> i mod 6 \<noteq> 0"
  let ?k = "if i > 0 \<and> i mod 6 = 0 then 3 else 2"
  let ?digits = "[HEX_TABLE ! (unat (source ! i) div 16), HEX_TABLE ! (unat (source ! i) mod 16)]"
  let ?dest = "take d dest @ (if i > 0 \<and> i mod 6 = 0 then [0x20] else []) @ ?digits @ drop (d + ?k) dest"
  have le: "length (filter ?P js) \<le> length js" by (rule length_filter_le)
  have rest: "d + ?k + 3 * length js \<le> length dest + length (filter ?P js)"
    using Cons.prems(2) by (auto split: if_splits)
  then have room: "d + ?k \<le> length dest" using le by linarith
  have "split_hex_loop source dest d (i # js) = split_hex_loop source ?dest (d + ?k) js"
    using room Cons.prems(1) by (auto simp: wr_two [unfolded One_nat_def add_Suc_right add_0_right] add.commute numeral_3_eq_3 split: if_splits)
  moreover have "length ?dest = length dest" using room by auto
  ultimately show ?case using Cons.IH [of "d + ?k" ?dest] Cons.prems(1) rest by auto
qed simp

text \<open>The 69 bytes that \<open>convert_eos_message\<close> reserves are enough for the 64 digits and 5 spaces.\<close>

lemma split_hex_hash_ok:
  assumes "32 \<le> length source" and "length dest = 69"
  shows "\<exists>dest'. split_hex_hash source dest = Ret dest'"
proof -
  have "length (filter (\<lambda>i. i = 0 \<or> i mod 6 \<noteq> 0) [0..<32]) = 27" by code_simp
  then show ?thesis
    unfolding split_hex_hash_def using split_hex_loop_ok [of "[0..<32]" source 0 dest] assms by auto
qed

section \<open>What each chain signs\<close>

definition signed_copy :: "env \<Rightarrow> bytes \<Rightarrow> bytes run" where
  "signed_copy E msg = Ret msg"

definition signed_eth :: "env \<Rightarrow> bytes \<Rightarrow> bytes run" where
  "signed_eth E msg = Ret (keccak256 (eth_prefix @ msg))"

definition signed_tron :: "env \<Rightarrow> bytes \<Rightarrow> bytes run" where
  "signed_tron E msg = Ret (keccak256 (tron_prefix @ msg))"

definition signed_eos :: "env \<Rightarrow> bytes \<Rightarrow> bytes run" where
  "signed_eos E msg = md_hash E MBEDTLS_MD_SHA256 msg"

text \<open>Two rounds of SHA-256 over the magic string and the message in hexadecimal, both preceded by
  their lengths.\<close>

definition signed_btc_magic :: "bytes \<Rightarrow> env \<Rightarrow> bytes \<Rightarrow> bytes run" where
  "signed_btc_magic magic E msg =
     run_bind (md_hash E MBEDTLS_MD_SHA256 (word_of_nat (length magic) # magic @ 64 # tohex msg))
       (md_hash E MBEDTLS_MD_SHA256)"

locale message_converter =
  fixes convert :: convert_msg_t and signed :: "env \<Rightarrow> bytes \<Rightarrow> bytes run"
  assumes convert_signed: "env_ok E \<Longrightarrow> length msg = 32 \<Longrightarrow> length buf = 32 \<Longrightarrow>
      convert E msg 32 buf 32 = signed E msg"
    and convert_wrong_length: "msg_len \<noteq> 32 \<Longrightarrow> convert E msg msg_len buf 32 = Err ERROR_INVALID_ARG"
    and signed_length: "env_ok E \<Longrightarrow> length msg = 32 \<Longrightarrow> signed E msg = Ret m \<Longrightarrow> length m = 32"
    and signed_defined: "well_defined (signed E msg)"
begin

lemma convert_Ret_length:
  "env_ok E \<Longrightarrow> length msg = 32 \<Longrightarrow> length buf = 32 \<Longrightarrow> convert E msg 32 buf 32 = Ret m \<Longrightarrow> length m = 32"
  by (rule signed_length) (simp_all add: convert_signed)

lemma convert_defined:
  assumes "env_ok E" and "unat msg_len = length msg" and "length buf = 32"
  shows "well_defined (convert E msg msg_len buf 32)"
proof (cases "msg_len = 32")
  case True
  then have "length msg = 32" using assms(2) by simp
  then show ?thesis using True convert_signed [OF assms(1) _ assms(3)] signed_defined by simp
qed (simp add: convert_wrong_length)

end

interpretation copy: message_converter convert_copy signed_copy
  by unfold_locales (simp_all add: convert_copy_def signed_copy_def)

lemma eth_prefix_length: "length eth_prefix = 28"
  by (simp add: eth_prefix_def ascii_def)

lemma tron_prefix_length: "length tron_prefix = 24"
  by (simp add: tron_prefix_def ascii_def)

lemma keccak_two:
  assumes "unat n = length prefix" and "length msg = 32" and "length buf = 32"
  shows "run_bind (keccak_update keccak_init a1 prefix n) (\<lambda>ctx.
      run_bind (keccak_update ctx a2 msg 32) (\<lambda>ctx.
      run_bind (keccak_final ctx (Some buf)) (\<lambda>(_, out). Ret (the out)))) =
    Ret (keccak256 (prefix @ msg))"
proof -
  obtain c1 where c1: "keccak_update keccak_init a1 prefix n = Ret c1" "absorbed c1 prefix"
    using keccak_update_ok [OF absorbed_init, of n prefix a1] assms by auto
  obtain c2 where c2: "keccak_update c1 a2 msg 32 = Ret c2" "absorbed c2 (prefix @ msg)"
    using keccak_update_ok [OF c1(2), of 32 msg a2] assms by auto
  show ?thesis
    using c1(1) c2(1) keccak_final_ok [OF c2(2), of buf] assms by auto
qed

interpretation eth: message_converter convert_eth_message signed_eth
  by unfold_locales (auto simp: convert_eth_message_def signed_eth_def keccak_two eth_prefix_length)

interpretation tron: message_converter convert_tron_message signed_tron
  by unfold_locales (auto simp: convert_tron_message_def signed_tron_def keccak_two tron_prefix_length)

lemma convert_eos_eq:
  assumes "env_ok E" and "length msg = 32" and "length buf = 32"
  shows "convert_eos_message E msg 32 buf 32 = signed_eos E msg"
proof -
  obtain d where "split_hex_hash msg (uninit E (32 * 2 + 5)) = Ret d"
    using split_hex_hash_ok [of msg "uninit E (32 * 2 + 5)"] assms by auto
  then show ?thesis
    using assms md_string_full [of E 32 msg buf MBEDTLS_MD_SHA256]
    by (simp add: convert_eos_message_def signed_eos_def env_ok_def md_size_def)
qed

lemma eos_length: "env_ok E \<Longrightarrow> md_hash E MBEDTLS_MD_SHA256 msg = Ret m \<Longrightarrow> length m = 32"
  using md_hash_length [of E MBEDTLS_MD_SHA256 msg m] by (simp add: env_ok_def md_size_def)

interpretation eos: message_converter convert_eos_message signed_eos
  by unfold_locales
    (simp_all add: convert_eos_eq, simp_all add: convert_eos_message_def signed_eos_def eos_length)


lemma convert_variant_eq:
  assumes ok: "env_ok E" and msg: "length msg = 32" and buf: "length buf = 32"
    and magic: "unat magic_len \<le> length magic"
  shows "convert_btc_message_variant E msg 32 buf 32 magic magic_len =
    signed_btc_magic (take (unat magic_len) magic) E msg"
proof -
  let ?n = "unat magic_len" and ?m = "take (unat magic_len) magic"
  let ?text = "magic_len # ?m @ 64 # tohex msg"
  have md: "md_ok E" using ok by (simp add: env_ok_def)
  have hex: "bin_to_hex msg (uninit E 64) 32 = Ret (tohex msg)"
    using bin_to_hex_eq [of 32 msg "uninit E 64"] msg by simp
  have u: "drop (Suc (Suc ?n)) (uninit E (Suc (Suc ?n))) = []" by simp
  have "convert_btc_message_variant E msg 32 buf 32 magic magic_len =
    run_bind (md_string E (md_info_from_type E MBEDTLS_MD_SHA256) ?text (?n + 2 + 64) buf)
      (\<lambda>new_msg. md_string E (md_info_from_type E MBEDTLS_MD_SHA256) new_msg 32 new_msg)"
    using magic msg by (simp add: convert_btc_message_variant_def hex Let_def wr_def min_absorb2)
  also have "md_string E (md_info_from_type E MBEDTLS_MD_SHA256) ?text (?n + 2 + 64) buf =
      md_hash E MBEDTLS_MD_SHA256 ?text"
    using md_string_full [OF md, of "?n + 2 + 64" ?text buf MBEDTLS_MD_SHA256] magic msg buf
    by (simp add: md_size_def min_absorb2)
  also have "run_bind (md_hash E MBEDTLS_MD_SHA256 ?text)
      (\<lambda>new_msg. md_string E (md_info_from_type E MBEDTLS_MD_SHA256) new_msg 32 new_msg) =
    run_bind (md_hash E MBEDTLS_MD_SHA256 ?text) (md_hash E MBEDTLS_MD_SHA256)"
  proof (rule run_bind_cong [OF refl])
    fix d assume "md_hash E MBEDTLS_MD_SHA256 ?text = Ret d"
    then have "length d = 32" using eos_length [OF ok] by simp
    then show "md_string E (md_info_from_type E MBEDTLS_MD_SHA256) d 32 d = md_hash E MBEDTLS_MD_SHA256 d"
      using md_string_full [OF md, of 32 d d MBEDTLS_MD_SHA256] by (simp add: md_size_def)
  qed
  finally show ?thesis
    using magic by (simp add: signed_btc_magic_def min_absorb2)
qed

lemma signed_btc_magic_props:
  "env_ok E \<Longrightarrow> signed_btc_magic magic E msg = Ret m \<Longrightarrow> length m = 32"
  "well_defined (signed_btc_magic magic E msg)"
  by (auto simp: signed_btc_magic_def eos_length intro: well_defined_bind)

lemma convert_variant_wrong_length:
  "msg_len \<noteq> 32 \<Longrightarrow> convert_btc_message_variant E msg msg_len buf 32 magic n = Err ERROR_INVALID_ARG"
  by (simp add: convert_btc_message_variant_def)

abbreviation (input) btc_magic :: bytes where "btc_magic \<equiv> take 24 BTC_MESSAGE_MAGIC"
abbreviation (input) doge_magic :: bytes where "doge_magic \<equiv> take 25 DOGE_MESSAGE_MAGIC"
abbreviation (input) lite_magic :: bytes where "lite_magic \<equiv> take 25 LITE_MESSAGE_MAGIC"

lemma magic_lengths: "length BTC_MESSAGE_MAGIC = 25" "length DOGE_MESSAGE_MAGIC = 26" "length LITE_MESSAGE_MAGIC = 26"
  by (simp_all add: BTC_MESSAGE_MAGIC_def DOGE_MESSAGE_MAGIC_def LITE_MESSAGE_MAGIC_def ascii_def)

interpretation btc: message_converter convert_btc_message "signed_btc_magic btc_magic"
  by unfold_locales
    (simp_all add: convert_btc_message_def convert_variant_eq convert_variant_wrong_length magic_lengths
      signed_btc_magic_props)

interpretation doge: message_converter convert_doge_message "signed_btc_magic doge_magic"
  by unfold_locales
    (simp_all add: convert_doge_message_def convert_variant_eq convert_variant_wrong_length magic_lengths
      signed_btc_magic_props)

interpretation lite: message_converter convert_litecoin_message "signed_btc_magic lite_magic"
  by unfold_locales
    (simp_all add: convert_litecoin_message_def convert_variant_eq convert_variant_wrong_length magic_lengths
      signed_btc_magic_props)


section \<open>Properties\<close>

text \<open>For a 32 byte message every converter computes what its chain's wallet signs, without an
  out-of-bounds access: CKB, Schnorr, Cardano, Monero and Solana the message itself, Ethereum and
  Tron the Keccak-256 of prefix and message, EOS the SHA-256 of the message, Bitcoin, Dogecoin and
  Litecoin the double SHA-256 of the length-prefixed magic string and hexadecimal message.\<close>

theorem convert_signs:
  assumes "env_ok E" and "length msg = 32" and "length buf = 32"
  shows "convert_copy E msg 32 buf 32 = Ret msg \<and>
    convert_eth_message E msg 32 buf 32 = Ret (keccak256 (eth_prefix @ msg)) \<and>
    convert_tron_message E msg 32 buf 32 = Ret (keccak256 (tron_prefix @ msg)) \<and>
    convert_eos_message E msg 32 buf 32 = md_hash E MBEDTLS_MD_SHA256 msg \<and>
    convert_btc_message E msg 32 buf 32 = signed_btc_magic (take 24 BTC_MESSAGE_MAGIC) E msg \<and>
    convert_doge_message E msg 32 buf 32 = signed_btc_magic (take 25 DOGE_MESSAGE_MAGIC) E msg \<and>
    convert_litecoin_message E msg 32 buf 32 = signed_btc_magic (take 25 LITE_MESSAGE_MAGIC) E msg"
  using copy.convert_signed [OF assms] eth.convert_signed [OF assms] tron.convert_signed [OF assms]
    eos.convert_signed [OF assms] btc.convert_signed [OF assms] doge.convert_signed [OF assms]
    lite.convert_signed [OF assms]
  by (simp add: signed_copy_def signed_eth_def signed_tron_def signed_eos_def)

theorem convert_signs_witness:
  "convert_eth_message example_env (replicate 32 1) 32 (replicate 32 0) 32 =
     Ret (keccak256 (eth_prefix @ replicate 32 1))"
  using convert_signs [OF example_env_ok, of "replicate 32 1" "replicate 32 0"] by simp

end
