(* ===== verification/Varint.thy ===== *)
theory Varint
  imports Auth_Prelude
begin

text \<open>
  The variable-length integers of c/auth.c: \<open>write_varint\<close> (Monero's message length) and
  \<open>read_varint_u16\<close> (Solana's compact-u16), with the little-endian base 128 code they share.
\<close>

section \<open>Model\<close>

function write_varint_loop :: "bytes \<Rightarrow> nat \<Rightarrow> u64 \<Rightarrow> (bytes \<times> nat) run" where
  "write_varint_loop dest ptr n =
     (if n \<ge> 0x80 then
        run_bind (wr ptr [(ucast n AND 0x7f) OR 0x80] dest) (\<lambda>dest.
        write_varint_loop dest (ptr + 1) (drop_bit 7 n))
      else run_bind (wr ptr [ucast n] dest) (\<lambda>dest. Ret (dest, ptr + 1)))"
  by pat_completeness auto
termination
  by (relation "measure (\<lambda>(dest, ptr, n). unat n)")
     (auto simp: unat_drop_bit word_le_nat_alt)

declare write_varint_loop.simps [simp del]

definition write_varint :: "bytes \<Rightarrow> u64 \<Rightarrow> (bytes \<times> u64) run" where
  "write_varint dest n =
     run_bind (write_varint_loop dest 0 n) (\<lambda>(dest, ptr). Ret (dest, word_of_nat ptr))"

text \<open>\<open>buf\<close> and \<open>ptr\<close> stand for the pointer \<open>*src\<close>; \<open>maximum_full_bytes\<close> is 2.\<close>

fun read_varint_loop :: "bytes \<Rightarrow> nat \<Rightarrow> u64 \<Rightarrow> u16 \<Rightarrow> nat list \<Rightarrow> (nat \<times> u16) run" where
  "read_varint_loop buf ptr src_size acc [] = Ret (ptr, acc)"
| "read_varint_loop buf ptr src_size acc (i # is) =
     (if word_of_nat i \<ge> src_size then Err (- 1)
      else run_bind (rd1 ptr buf) (\<lambda>current_value.
        let bits = (if i < 2 then 7 else 16 - 2 * 7);
            maximum_value = push_bit bits 1 - 1 :: byte;
            acc = acc + push_bit (i * 7) (ucast (current_value AND maximum_value))
        in if current_value < 0x80 \<and> i < 2 then Ret (ptr + 1, acc)
           else if i = 2 \<and> current_value > maximum_value then Err (- 2)
           else read_varint_loop buf (ptr + 1) src_size acc is))"

definition read_varint_u16 :: "bytes \<Rightarrow> nat \<Rightarrow> u64 \<Rightarrow> (nat \<times> u16) run" where
  "read_varint_u16 buf ptr src_size = read_varint_loop buf ptr src_size 0 [0, 1, 2]"

section \<open>The code\<close>

fun varint :: "nat \<Rightarrow> bytes" where
  "varint n = (if n < 128 then [word_of_nat n] else word_of_nat (n mod 128 + 128) # varint (n div 128))"

declare varint.simps [simp del]

text \<open>Its decoder.\<close>

fun unvarint :: "bytes \<Rightarrow> (nat \<times> bytes) option" where
  "unvarint [] = None"
| "unvarint (b # bs) =
     (if unat b < 128 then Some (unat b, bs)
      else case unvarint bs of None \<Rightarrow> None | Some (n, rest) \<Rightarrow> Some (unat b - 128 + 128 * n, rest))"

lemma unvarint_varint: "unvarint (varint n @ rest) = Some (n, rest)"
proof (induction n rule: varint.induct)
  case (1 n)
  have "unat (word_of_nat (n mod 128 + 128) :: byte) = n mod 128 + 128"
    by (rule unat_word_of_nat) (use mod_less_divisor [of 128 n] in simp)
  moreover have "unat (word_of_nat n :: byte) = n" if "n < 128"
    by (rule unat_word_of_nat) (use that in simp)
  ultimately show ?case
    using 1 by (subst varint.simps) auto
qed

lemma length_varint: "n < 2 ^ (7 * k) \<Longrightarrow> 0 < k \<Longrightarrow> length (varint n) \<le> k"
proof (induction n arbitrary: k rule: varint.induct)
  case (1 n)
  show ?case
  proof (cases "n < 128")
    case True
    then show ?thesis using 1(3) by (simp add: varint.simps)
  next
    case False
    have "1 < k"
    proof (rule ccontr)
      assume "\<not> 1 < k"
      then have "k = 1" using 1(3) by simp
      then show False using 1(2) False by simp
    qed
    then have "n div 128 < 2 ^ (7 * (k - 1))"
      using 1(2) power_add [of "2 :: nat" 7 "7 * (k - 1)"]
      by (intro less_mult_imp_div_less) (simp add: algebra_simps)
    then have "length (varint (n div 128)) \<le> k - 1"
      using False \<open>1 < k\<close> by (intro 1(1)) auto
    then show ?thesis using False \<open>1 < k\<close> by (subst varint.simps) simp
  qed
qed

lemma length_varint_pos: "0 < length (varint n)"
  by (subst varint.simps) simp

section \<open>Writing\<close>

lemma low_group: "(ucast (n :: u64) AND 0x7f) OR 0x80 = (word_of_nat (unat n mod 128 + 128) :: byte)"
proof -
  have a: "ucast n AND 0x7f = (take_bit 7 (ucast n) :: byte)"
    by (rule and_mask_take_bit) (simp add: mask_eq_exp_minus_1)
  have u: "unat (take_bit 7 (ucast n) :: byte) = unat n mod 128"
    by (simp add: unat_take_bit unat_ucast_mod mod_mod_cancel)
  have "push_bit 7 1 OR take_bit 7 (ucast n) = push_bit 7 1 + (take_bit 7 (ucast n) :: byte)"
    by (rule push_bit_or_add) (use u in simp)
  then have "(ucast n AND 0x7f) OR 0x80 = 0x80 + (take_bit 7 (ucast n) :: byte)"
    by (simp add: a or.commute)
  also have "\<dots> = word_of_nat (unat n mod 128 + 128)"
    using word_of_nat_eqI [OF u] by (simp add: add.commute)
  finally show ?thesis .
qed

lemma write_varint_loop_eq:
  "ptr + length (varint (unat n)) \<le> length dest \<Longrightarrow>
   write_varint_loop dest ptr n =
     Ret (take ptr dest @ varint (unat n) @ drop (ptr + length (varint (unat n))) dest,
          ptr + length (varint (unat n)))"
proof (induction dest ptr n rule: write_varint_loop.induct)
  case (1 dest ptr n)
  show ?case
  proof (cases "n \<ge> 0x80")
    case True
    then have n: "\<not> unat n < 128" by (simp add: word_le_nat_alt)
    let ?b = "word_of_nat (unat n mod 128 + 128) :: byte" and ?t = "varint (unat n div 128)"
    let ?d = "take ptr dest @ [?b] @ drop (ptr + 1) dest"
    have v: "varint (unat n) = ?b # ?t" using n by (subst varint.simps) simp
    then have len: "ptr + 1 + length ?t \<le> length dest" using 1(2) by simp
    then have w: "wr ptr [(ucast n AND 0x7f) OR 0x80] dest = Ret ?d"
      using low_group [of n] by (simp add: del: of_nat_add)
    have d: "unat (drop_bit 7 n) = unat n div 128" by (simp add: unat_drop_bit)
    have "write_varint_loop ?d (ptr + 1) (drop_bit 7 n) =
      Ret (take (ptr + 1) ?d @ ?t @ drop (ptr + 1 + length ?t) ?d, ptr + 1 + length ?t)"
      using 1(1) [OF True w] len d by simp
    then show ?thesis
      using True w len v by (subst write_varint_loop.simps) (simp add: add.commute del: of_nat_add)
  next
    case False
    then have "varint (unat n) = [ucast n]"
      by (subst varint.simps) (auto simp: word_le_nat_alt word_unat_eq_iff unat_ucast_mod unat_word_of_nat)
    then show ?thesis using False 1(2) by (subst write_varint_loop.simps) simp
  qed
qed

lemma length_varint_u64: "length (varint (unat (n :: u64))) \<le> 10"
proof (rule length_varint)
  have "unat n < 2 ^ 64" by simp
  also have "(2 :: nat) ^ 64 \<le> 2 ^ (7 * 10)" by simp
  finally show "unat n < 2 ^ (7 * 10)" .
qed simp

lemma write_varint_eq:
  assumes "10 \<le> length dest"
  shows "write_varint dest n = Ret (varint (unat n) @ drop (length (varint (unat n))) dest,
    word_of_nat (length (varint (unat n))))"
  using assms write_varint_loop_eq [of 0 n dest] length_varint_u64 [of n] by (simp add: write_varint_def)


section \<open>Reading\<close>

text \<open>The value of the groups of seven bits, and two bits, as the reader adds them up.\<close>

lemma group_value:
  assumes "m < 2 ^ k" and "k \<le> 7"
  shows "(ucast ((word_of_nat (m + 128) :: byte) AND (push_bit 7 1 - 1)) :: u16) = word_of_nat m"
    and "(ucast ((word_of_nat m :: byte) AND (push_bit 7 1 - 1)) :: u16) = word_of_nat m"
    and "k = 2 \<Longrightarrow> (ucast ((word_of_nat m :: byte) AND (push_bit 2 1 - 1)) :: u16) = word_of_nat m"
proof -
  have m: "m < 128" using assms power_increasing [of k 7 "2 :: nat"] by simp
  have and7: "b AND (push_bit 7 1 - 1) = take_bit 7 b" for b :: byte
    by (rule and_mask_take_bit) (simp add: mask_eq_exp_minus_1)
  have and2: "b AND (push_bit 2 1 - 1) = take_bit 2 b" for b :: byte
    by (rule and_mask_take_bit) (simp add: mask_eq_exp_minus_1)
  have u1: "unat (word_of_nat (m + 128) :: byte) = m + 128"
    by (rule unat_word_of_nat) (use m in simp)
  have u2: "unat (word_of_nat m :: byte) = m" and u3: "unat (word_of_nat m :: u16) = m"
    using m by (auto intro!: unat_word_of_nat)
  have "unat (ucast (take_bit 7 (word_of_nat (m + 128) :: byte)) :: u16) = m"
    unfolding unat_ucast_mod unat_take_bit u1 using m by simp
  then show "(ucast ((word_of_nat (m + 128) :: byte) AND (push_bit 7 1 - 1)) :: u16) = word_of_nat m"
    unfolding and7 word_unat_eq_iff u3 .
  have "unat (ucast (take_bit 7 (word_of_nat m :: byte)) :: u16) = m"
    unfolding unat_ucast_mod unat_take_bit u2 using m by simp
  then show "(ucast ((word_of_nat m :: byte) AND (push_bit 7 1 - 1)) :: u16) = word_of_nat m"
    unfolding and7 word_unat_eq_iff u3 .
  assume "k = 2"
  then have "unat (ucast (take_bit 2 (word_of_nat m :: byte)) :: u16) = m"
    unfolding unat_ucast_mod unat_take_bit u2 using assms by simp
  then show "(ucast ((word_of_nat m :: byte) AND (push_bit 2 1 - 1)) :: u16) = word_of_nat m"
    unfolding and2 word_unat_eq_iff u3 .
qed

text \<open>One byte with the continuation bit, and the byte without it.\<close>

lemma read_more:
  assumes "i < 2" and "\<not> src_size \<le> word_of_nat i" and "ptr < length buf"
    and "buf ! ptr = word_of_nat (m + 128)" and "m < 128"
  shows "read_varint_loop buf ptr src_size acc (i # is) =
    read_varint_loop buf (ptr + 1) src_size (acc + push_bit (i * 7) (word_of_nat m)) is"
proof -
  have "unat (word_of_nat (m + 128) :: byte) = m + 128" using assms by (intro unat_word_of_nat) simp
  then have "\<not> (word_of_nat (m + 128) :: byte) < 0x80" by (simp add: word_less_nat_alt)
  then show ?thesis using assms group_value(1) [of m 7] by (simp add: Let_def del: of_nat_add)
qed

lemma read_last:
  assumes "i < 2" and "\<not> src_size \<le> word_of_nat i" and "ptr < length buf"
    and "buf ! ptr = word_of_nat m" and "m < 128"
  shows "read_varint_loop buf ptr src_size acc (i # is) =
    Ret (ptr + 1, acc + push_bit (i * 7) (word_of_nat m))"
proof -
  have "unat (word_of_nat m :: byte) = m" using assms by (intro unat_word_of_nat) simp
  then have "(word_of_nat m :: byte) < 0x80" using assms by (simp add: word_less_nat_alt)
  then show ?thesis using assms group_value(2) [of m 7] by (simp add: Let_def)
qed

lemma read_third:
  assumes "\<not> src_size \<le> 2" and "ptr < length buf" and "buf ! ptr = word_of_nat m" and "m < 4"
  shows "read_varint_loop buf ptr src_size acc [2] =
    Ret (ptr + 1, acc + push_bit 14 (word_of_nat m))"
proof -
  have "unat (word_of_nat m :: byte) = m" using assms by (intro unat_word_of_nat) simp
  then have "\<not> (word_of_nat m :: byte) > push_bit 2 1 - 1" using assms by (simp add: word_less_nat_alt)
  then show ?thesis using assms group_value(3) [of m 2] by (simp add: Let_def)
qed

lemma varint_cases:
  assumes "n < 65536"
  obtains (one) "n < 128" "varint n = [word_of_nat n]"
  | (two) "n div 128 < 128" "128 \<le> n" "varint n = [word_of_nat (n mod 128 + 128), word_of_nat (n div 128)]"
  | (three) "n div 16384 < 4" "16384 \<le> n"
      "varint n = [word_of_nat (n mod 128 + 128), word_of_nat (n div 128 mod 128 + 128), word_of_nat (n div 16384)]"
proof -
  have d: "n div 128 div 128 = n div 16384" by (simp add: div_mult2_eq [symmetric])
  show ?thesis
  proof (cases "n < 128")
    case True
    then show ?thesis by (intro one) (simp_all add: varint.simps)
  next
    case False
    then have v: "varint n = word_of_nat (n mod 128 + 128) # varint (n div 128)" by (subst varint.simps) simp
    show ?thesis
    proof (cases "n div 128 < 128")
      case True
      then show ?thesis using v False by (intro two) (simp_all add: varint.simps)
    next
      case big: False
      moreover have "n div 16384 < 4" using assms by (simp add: less_mult_imp_div_less)
      moreover have "16384 \<le> n" using big by simp
      moreover have "varint (n div 128) = [word_of_nat (n div 128 mod 128 + 128), word_of_nat (n div 16384)]"
        using big \<open>n div 16384 < 4\<close> d by (subst varint.simps) (simp add: varint.simps)
      ultimately show ?thesis using v by (intro three) simp_all
    qed
  qed
qed

lemma read_varint_eq:
  assumes n: "n < 65536" and at: "sub_bytes ptr (length (varint n)) buf = varint n"
    and room: "ptr + length (varint n) \<le> length buf" and sz: "length (varint n) \<le> unat src_size"
  shows "read_varint_u16 buf ptr src_size = Ret (ptr + length (varint n), word_of_nat n)"
proof -
  have nth: "buf ! (ptr + i) = varint n ! i" if "i < length (varint n)" for i
    using sub_bytes_nth [OF that room] at by simp
  have sz': "\<not> src_size \<le> word_of_nat i" if "i < length (varint n)" "i < 3" for i
  proof -
    have "unat (word_of_nat i :: u64) = i" using that by (intro unat_word_of_nat) simp
    then show ?thesis using that sz by (simp add: word_le_nat_alt)
  qed
  have sum: "word_of_nat a + push_bit k (word_of_nat b) = (word_of_nat (a + 2 ^ k * b) :: u16)" for a b k
    by (simp add: push_bit_eq_mult mult.commute)
  note rm = read_more [of 0 src_size ptr buf "n mod 128" 0 "[1, 2]"]
  show ?thesis
    using n
  proof (cases rule: varint_cases)
    case one
    then show ?thesis
      using read_last [of 0 src_size ptr buf n 0 "[1, 2]"] nth [of 0] room sz' [of 0]
      by (simp add: read_varint_u16_def)
  next
    case two
    have eq: "n mod 128 + 2 ^ 7 * (n div 128) = n" by simp
    show ?thesis
      using rm read_last [of 1 src_size "ptr + 1" buf "n div 128" "word_of_nat (n mod 128)" "[2]"]
        nth [of 0] nth [of 1] room sz' [of 0] sz' [of 1] two sum [of "n mod 128" 7 "n div 128"]
      unfolding eq by (simp add: read_varint_u16_def del: of_nat_add)
  next
    case three
    have eq: "n mod 128 + 2 ^ 7 * (n div 128 mod 128) + 2 ^ 14 * (n div 16384) = n"
    proof -
      have d: "n div 16384 = n div 128 div 128" using div_mult2_eq [of n 128 128] by simp
      have "n mod 128 + 128 * (n div 128 mod 128 + 128 * (n div 128 div 128)) = n"
        by (simp only: mod_mult_div_eq)
      then show ?thesis unfolding d distrib_left by simp
    qed
    let ?w = "word_of_nat (n mod 128 + 2 ^ 7 * (n div 128 mod 128)) :: u16"
    have len: "length (varint n) = 3" using three by simp
    have 0: "read_varint_loop buf ptr src_size 0 [0, 1, 2] =
        read_varint_loop buf (ptr + 1) src_size (word_of_nat (n mod 128)) [1, 2]"
      using rm nth [of 0] sz' [of 0] room three len by (simp del: of_nat_add read_varint_loop.simps)
    have "n div 128 mod 128 < 128" by simp
    then have 1: "read_varint_loop buf (ptr + 1) src_size (word_of_nat (n mod 128)) [1, 2] =
        read_varint_loop buf (ptr + 2) src_size ?w [2]"
      using read_more [of 1 src_size "ptr + 1" buf "n div 128 mod 128" "word_of_nat (n mod 128)" "[2]"]
        nth [of 1] sz' [of 1] room three len sum [of "n mod 128" 7 "n div 128 mod 128"]
      by (simp del: of_nat_add read_varint_loop.simps)
    have "read_varint_loop buf (ptr + 2) src_size ?w [2] = Ret (ptr + 2 + 1, ?w + push_bit 14 (word_of_nat (n div 16384)))"
      using nth [of 2] sz' [of 2] room three len by (intro read_third) simp_all
    then have "read_varint_loop buf (ptr + 2) src_size ?w [2] = Ret (ptr + 3, word_of_nat n)"
      unfolding sum eq by simp
    then show ?thesis
      using 0 1 len unfolding read_varint_u16_def by (simp del: of_nat_add read_varint_loop.simps)
  qed
qed

text \<open>On any bytes: at most three are read, all inside the given size.\<close>

lemma read_varint_safe:
  assumes "ptr + unat src_size \<le> length buf"
  shows "(\<exists>e \<in> {- 1, - 2}. read_varint_u16 buf ptr src_size = Err e) \<or>
    (\<exists>k n. read_varint_u16 buf ptr src_size = Ret (ptr + k, n) \<and> 0 < k \<and> k \<le> 3 \<and> k \<le> unat src_size)"
  using assms
  by (auto simp: read_varint_u16_def Let_def word_le_nat_alt)


section \<open>Properties\<close>

text \<open>\<open>write_varint\<close> fits the ten byte buffer of its caller for every \<open>size_t\<close>, returns the number of
  bytes written, leaves the rest of the buffer alone, and the bytes determine the number whatever
  follows them.\<close>

theorem write_varint_decodable:
  assumes "10 \<le> length dest"
  shows "\<exists>bs. write_varint dest n = Ret (bs @ drop (length bs) dest, word_of_nat (length bs)) \<and>
    0 < length bs \<and> length bs \<le> 10 \<and> unvarint (bs @ rest) = Some (unat n, rest)"
  using write_varint_eq [OF assms, of n] length_varint_u64 [of n] length_varint_pos [of "unat n"]
    unvarint_varint [of "unat n" rest]
  by (intro exI [of _ "varint (unat n)"]) simp

theorem write_varint_decodable_witness:
  "\<exists>bs. write_varint (replicate 10 0) 300 = Ret (bs @ drop (length bs) (replicate 10 0), word_of_nat (length bs)) \<and>
    0 < length bs \<and> length bs \<le> 10 \<and> unvarint (bs @ [7]) = Some (unat (300 :: u64), [7])"
  using write_varint_decodable [of "replicate 10 0" 300 "[7]"] by simp

text \<open>\<open>read_varint_u16\<close> reads back every 16 bit number from its encoding and moves the pointer right
  behind it.\<close>

theorem read_varint_u16_roundtrip:
  assumes "n < 65536" and "sub_bytes ptr (length (varint n)) buf = varint n"
    and "ptr + length (varint n) \<le> length buf" and "length (varint n) \<le> unat src_size"
  shows "read_varint_u16 buf ptr src_size = Ret (ptr + length (varint n), word_of_nat n)"
  using assms by (rule read_varint_eq)

theorem read_varint_u16_roundtrip_witness:
  "read_varint_u16 [9, 0xAC, 0x02, 9] 1 2 = Ret (3, 300)"
proof -
  have v: "varint 300 = [0xAC, 0x02]" by (simp add: varint.simps)
  show ?thesis
    using read_varint_u16_roundtrip [of 300 1 "[9, 0xAC, 0x02, 9]" 2]
    by (simp add: v sub_bytes_def)
qed

end
