(* ===== verification/Cardano_Lock.thy ===== *)
theory Cardano_Lock
  imports Auth_Env Nanocbor_Safety
begin

text \<open>
  c/cardano/cardano_lock_inc.h: the extraction of the signed message, the public key and the
  signature from the CBOR structure that a Cardano wallet produces. \<open>data\<close> is the object the
  caller passes and \<open>u\<close> the contents of an uninitialised \<open>nanocbor_value_t\<close> on the stack. The
  loop of \<open>get_item_by_key\<close> takes fuel like the decoder's loops.
\<close>

section \<open>Model\<close>

abbreviation (input) CardanoErr_CBORParse :: int where "CardanoErr_CBORParse \<equiv> 202"
abbreviation (input) CardanoErr_CBORType :: int where "CardanoErr_CBORType \<equiv> 203"
abbreviation (input) CardanoErr_InvaildCKBSignMsgLen :: int where "CardanoErr_InvaildCKBSignMsgLen \<equiv> 204"
abbreviation (input) CardanoErr_InvaildSignMsgIndex :: int where "CardanoErr_InvaildSignMsgIndex \<equiv> 206"
abbreviation (input) CardanoErr_InvaildPubKeyLen :: int where "CardanoErr_InvaildPubKeyLen \<equiv> 207"
abbreviation (input) CardanoErr_InvaildSignLen :: int where "CardanoErr_InvaildSignLen \<equiv> 208"

record CardanoSignatureData =
  ckb_sign_msg :: bytes
  public_key :: bytes
  signature :: bytes
  sign_message :: bytes

definition cardano_blake2b_init :: "env \<Rightarrow> bytes \<Rightarrow> u64 \<Rightarrow> int \<times> bytes" where
  "cardano_blake2b_init E S outlen =
     (if outlen = 0 \<or> outlen > 64 then (- 1, S)
      else blake2b_init_param E \<lparr>digest_length = ucast outlen, key_length = 0, fanout = 1, depth = 1,
        leaf_length = 0, node_offset = 0, xof_length = 0, node_depth = 0, inner_length = 0,
        p_reserved = replicate 14 0, p_salt = replicate 16 0, p_personal = replicate 16 0\<rparr>)"

fun get_item_by_key ::
  "nat \<Rightarrow> bytes \<Rightarrow> nanocbor_value \<Rightarrow> u32 \<Rightarrow> nanocbor_value \<Rightarrow> nanocbor_value \<Rightarrow> (int \<times> nanocbor_value) run" where
  "get_item_by_key 0 data v key val u = NoFuel"
| "get_item_by_key (Suc fuel) data v key val u =
     run_bind (nanocbor_at_end data v) (\<lambda>e.
     if e then Ret (NANOCBOR_NOT_FOUND, val)
     else run_bind (nanocbor_get_int32 data v 0) (\<lambda>(r, it_key, v).
       if r \<le> 0 then Ret (NANOCBOR_NOT_FOUND, val)
       else if it_key = key then Ret (NANOCBOR_OK, v)
       else run_bind (nanocbor_skip fuel data v u) (\<lambda>(res2, v).
         if res2 < 0 then Ret (res2, val)
         else get_item_by_key fuel data v key val u)))"

text \<open>\<open>memcpy\<close> of \<open>len\<close> bytes from a pointer into \<open>data\<close>; \<open>NULL\<close> is \<open>None\<close>.\<close>

definition copy_from :: "bytes \<Rightarrow> nat option \<Rightarrow> u64 \<Rightarrow> bytes run" where
  "copy_from data p len = (case p of None \<Rightarrow> Fault | Some off \<Rightarrow> rd off (unat len) data)"

definition get_sign_data ::
  "nat \<Rightarrow> bytes \<Rightarrow> nanocbor_value \<Rightarrow> nanocbor_value \<Rightarrow> CardanoSignatureData \<Rightarrow> CardanoSignatureData run" where
  "get_sign_data fuel data sign_data_node u output =
     run_bind (get_item_by_key fuel data sign_data_node 0 u u) (\<lambda>(r, sign_data_node2).
     run_bind (CHECK2 (r = NANOCBOR_OK) CardanoErr_CBORParse) (\<lambda>_.
     run_bind (nanocbor_enter_array data sign_data_node2 u) (\<lambda>(r, sign_data_node3).
     run_bind (CHECK2 (r = NANOCBOR_OK) CardanoErr_CBORParse) (\<lambda>_.
     run_bind (nanocbor_enter_array data sign_data_node3 u) (\<lambda>(r, sign_data_array).
     run_bind (CHECK2 (r = NANOCBOR_OK) CardanoErr_CBORParse) (\<lambda>_.
     run_bind (nanocbor_get_bstr data sign_data_array None) (\<lambda>(rc, pubkey_buf, pubkey_buf_len, sign_data_array).
     run_bind (CHECK2 (rc = NANOCBOR_OK) CardanoErr_CBORParse) (\<lambda>_.
     run_bind (CHECK2 (32 = pubkey_buf_len) CardanoErr_InvaildPubKeyLen) (\<lambda>_.
     run_bind (copy_from data pubkey_buf pubkey_buf_len) (\<lambda>pk.
     run_bind (nanocbor_get_bstr data sign_data_array None) (\<lambda>(rc, sign_buf, sign_buf_len, sign_data_array).
     run_bind (CHECK2 (rc = NANOCBOR_OK) CardanoErr_CBORParse) (\<lambda>_.
     run_bind (CHECK2 (64 = sign_buf_len) CardanoErr_InvaildSignLen) (\<lambda>_.
     run_bind (copy_from data sign_buf sign_buf_len) (\<lambda>sg.
     Ret (output\<lparr>public_key := pk, signature := sg\<rparr>)))))))))))))))"

definition get_ckb_sign_hash ::
  "nat \<Rightarrow> bytes \<Rightarrow> nanocbor_value \<Rightarrow> nanocbor_value \<Rightarrow> CardanoSignatureData \<Rightarrow> CardanoSignatureData run" where
  "get_ckb_sign_hash fuel data meta_data_node u output =
     run_bind (get_item_by_key fuel data meta_data_node 0 u u) (\<lambda>(r, ckb_sign_hash_message).
     run_bind (CHECK2 (r = NANOCBOR_OK) CardanoErr_CBORParse) (\<lambda>_.
     run_bind (nanocbor_enter_array data ckb_sign_hash_message u) (\<lambda>(r, ckb_sign_hash_message2).
     run_bind (CHECK2 (r = NANOCBOR_OK) CardanoErr_CBORParse) (\<lambda>_.
     run_bind (nanocbor_enter_array data ckb_sign_hash_message2 u) (\<lambda>(r, ckb_sign_hash_message3).
     run_bind (CHECK2 (r = NANOCBOR_OK) CardanoErr_CBORParse) (\<lambda>_.
     run_bind (nanocbor_get_bstr data ckb_sign_hash_message3 None) (\<lambda>(_, hash, len, ckb_sign_hash_message3).
     run_bind (CHECK2 (32 = len) CardanoErr_InvaildCKBSignMsgLen) (\<lambda>_.
     run_bind (copy_from data hash len) (\<lambda>h.
     run_bind (nanocbor_get_int32 data ckb_sign_hash_message3 (- 1)) (\<lambda>(r, message_index, _).
     run_bind (CHECK2 (r \<ge> 0) CardanoErr_InvaildSignMsgIndex) (\<lambda>_.
     run_bind (CHECK2 (message_index = 0) CardanoErr_InvaildSignMsgIndex) (\<lambda>_.
     Ret (output\<lparr>ckb_sign_msg := h\<rparr>)))))))))))))"

text \<open>\<open>sign_msg_len\<close> is computed in \<open>size_t\<close> and sizes an array on the stack.\<close>

definition get_cardano_sign_message ::
  "env \<Rightarrow> bytes \<Rightarrow> u64 \<Rightarrow> CardanoSignatureData \<Rightarrow> CardanoSignatureData run" where
  "get_cardano_sign_message E data data_len output =
     (let sign_msg_len = data_len - 1 - (64 + 2) - (32 + 2) - 4 - 1 in
      run_bind (rd 1 (unat sign_msg_len) data) (\<lambda>sign_msg_buf.
      let (_, ctx) = cardano_blake2b_init E [] 32;
          ctx = blake2b_update E ctx sign_msg_buf in
      run_bind (wr 0 (blake2b_final E ctx 32) (sign_message output)) (\<lambda>m.
      Ret (output\<lparr>sign_message := m\<rparr>))))"

definition get_cardano_data ::
  "nat \<Rightarrow> env \<Rightarrow> bytes \<Rightarrow> u64 \<Rightarrow> nanocbor_value \<Rightarrow> CardanoSignatureData \<Rightarrow> CardanoSignatureData run" where
  "get_cardano_data fuel E data data_len u output =
     (let root_node = nanocbor_decoder_init \<lparr>v_cur = 0, v_end = 0, v_remaining = 0, v_flags = 0\<rparr> data_len in
      run_bind (nanocbor_get_type data root_node) (\<lambda>t.
      run_bind (CHECK2 (t = NANOCBOR_TYPE_ARR) CardanoErr_CBORType) (\<lambda>_.
      run_bind (nanocbor_enter_array data root_node u) (\<lambda>(r, root_arr_node).
      run_bind (CHECK2 (r = NANOCBOR_OK) CardanoErr_CBORParse) (\<lambda>_.
      run_bind (nanocbor_enter_map data root_arr_node u) (\<lambda>(r, tx_node).
      run_bind (CHECK2 (r = NANOCBOR_OK) CardanoErr_CBORParse) (\<lambda>_.
      run_bind (get_ckb_sign_hash fuel data tx_node u output) (\<lambda>output.
      run_bind (nanocbor_skip fuel data root_arr_node u) (\<lambda>(_, root_arr_node).
      run_bind (nanocbor_enter_map data root_arr_node u) (\<lambda>(r, sign_data_node).
      run_bind (CHECK2 (r = NANOCBOR_OK) CardanoErr_CBORParse) (\<lambda>_.
      run_bind (get_sign_data fuel data sign_data_node u output) (\<lambda>output.
      get_cardano_sign_message E data data_len output))))))))))))"

definition get_cardano_custom ::
  "nat \<Rightarrow> bytes \<Rightarrow> u64 \<Rightarrow> nanocbor_value \<Rightarrow> nanocbor_value run" where
  "get_cardano_custom fuel data data_len u =
     (let root_node = nanocbor_decoder_init \<lparr>v_cur = 0, v_end = 0, v_remaining = 0, v_flags = 0\<rparr> data_len in
      run_bind (nanocbor_get_type data root_node) (\<lambda>t.
      run_bind (CHECK2 (t = NANOCBOR_TYPE_ARR) CardanoErr_CBORType) (\<lambda>_.
      run_bind (nanocbor_enter_array data root_node u) (\<lambda>(r, root_array_node).
      run_bind (CHECK2 (r = NANOCBOR_OK) CardanoErr_CBORParse) (\<lambda>_.
      run_bind (nanocbor_skip fuel data root_array_node u) (\<lambda>(_, root_array_node).
      Ret root_array_node))))))"

section \<open>Soundness of the extraction\<close>

text \<open>A field that was extracted is a slice of the input.\<close>

definition slice_of :: "nat \<Rightarrow> bytes \<Rightarrow> bytes \<Rightarrow> bool" where
  "slice_of n data bs \<longleftrightarrow> (\<exists>off. off + n \<le> length data \<and> bs = sub_bytes off n data)"

lemma slice_of_length: "slice_of n data bs \<Longrightarrow> length bs = n"
  by (auto simp: slice_of_def)

lemma copy_from_slice: "copy_from data p len = Ret bs \<Longrightarrow> slice_of (unat len) data bs"
  by (auto simp: copy_from_def slice_of_def split: option.splits)

lemma get_sign_data_slices:
  assumes "get_sign_data fuel data v u out = Ret out'"
  shows "slice_of 32 data (public_key out')" and "slice_of 64 data (signature out')"
    and "ckb_sign_msg out' = ckb_sign_msg out" and "sign_message out' = sign_message out"
  using assms by (auto simp: get_sign_data_def dest!: copy_from_slice)

lemma get_ckb_sign_hash_slice:
  assumes "get_ckb_sign_hash fuel data v u out = Ret out'"
  shows "slice_of 32 data (ckb_sign_msg out')" and "sign_message out' = sign_message out"
  using assms by (auto simp: get_ckb_sign_hash_def dest!: copy_from_slice)


text \<open>The digest that Cardano signs: BLAKE2b of 32 bytes without CKB's personalisation.\<close>

definition cardano_digest :: "env \<Rightarrow> bytes \<Rightarrow> bytes" where
  "cardano_digest E msg =
     blake2b_final E (blake2b_update E (snd (cardano_blake2b_init E [] 32)) msg) 32"

lemma sign_message_Ret:
  assumes eq: "get_cardano_sign_message E data data_len out = Ret out'"
    and len: "unat data_len = length data" and ok: "blake2b_ok E" and buf: "length (sign_message out) = 32"
  shows "106 \<le> length data"
    and "out' = out\<lparr>sign_message := cardano_digest E (sub_bytes 1 (length data - 106) data)\<rparr>"
proof -
  let ?n = "data_len - 1 - (64 + 2) - (32 + 2) - 4 - 1"
  have n: "?n = data_len - 106" by simp
  from eq have in_buf: "1 + unat ?n \<le> length data"
    by (auto simp: get_cardano_sign_message_def Let_def)
  show le: "106 \<le> length data"
  proof (rule ccontr)
    assume "\<not> 106 \<le> length data"
    then have "unat (data_len - 106) = unat data_len + 2 ^ 64 - 106"
      using len by (simp add: unat_sub_if')
    then show False using in_buf len n by simp
  qed
  then have "unat ?n = length data - 106"
    using len n by (simp add: unat_sub word_le_nat_alt)
  moreover have "length (cardano_digest E m) = 32" for m
    using ok by (simp add: blake2b_ok_def cardano_digest_def)
  ultimately show "out' = out\<lparr>sign_message := cardano_digest E (sub_bytes 1 (length data - 106) data)\<rparr>"
    using eq in_buf buf
    by (auto simp: get_cardano_sign_message_def Let_def case_prod_beta cardano_digest_def)
qed

lemma sign_message_read:
  assumes len: "unat data_len = length data" "106 \<le> length data" and ok: "blake2b_ok E" and buf: "length (sign_message out) = 32"
  shows "get_cardano_sign_message E data data_len out =
    Ret (out\<lparr>sign_message := cardano_digest E (sub_bytes 1 (length data - 106) data)\<rparr>)"
proof -
  have n: "data_len - 1 - (64 + 2) - (32 + 2) - 4 - 1 = data_len - 106" by simp
  have "unat (data_len - 106) = length data - 106" using len by (simp add: unat_sub word_le_nat_alt)
  moreover have "length (cardano_digest E m) = 32" for m using ok by (simp add: blake2b_ok_def cardano_digest_def)
  ultimately show ?thesis
    using len buf unfolding get_cardano_sign_message_def n by (simp add: Let_def case_prod_beta cardano_digest_def)
qed

lemma get_cardano_data_Ret:
  assumes eq: "get_cardano_data fuel E data data_len u out = Ret out'"
    and len: "unat data_len = length data" and ok: "blake2b_ok E" and buf: "length (sign_message out) = 32"
  shows "106 \<le> length data \<and> slice_of 32 data (ckb_sign_msg out') \<and> slice_of 32 data (public_key out') \<and>
    slice_of 64 data (signature out') \<and>
    sign_message out' = cardano_digest E (sub_bytes 1 (length data - 106) data)"
proof -
  obtain v w o1 o2 where s: "get_ckb_sign_hash fuel data v u out = Ret o1"
    "get_sign_data fuel data w u o1 = Ret o2" "get_cardano_sign_message E data data_len o2 = Ret out'"
    using eq by (auto simp: get_cardano_data_def Let_def)
  note h = get_ckb_sign_hash_slice [OF s(1)] and d = get_sign_data_slices [OF s(2)]
  have "length (sign_message o2) = 32" using buf h d by simp
  from sign_message_Ret [OF s(3) len ok this] h d show ?thesis by simp
qed

section \<open>Where the message is read\<close>

text \<open>The head of a container that is entered, and the reads at a key 0 and at the head of a hash.\<close>

lemma mark_type: "t = 4 \<or> t = 5 \<Longrightarrow> major_type (NANOCBOR_MASK t OR NANOCBOR_SIZE_INDEFINITE) = t"
  by (auto simp: major_type_def NANOCBOR_MASK_def)

lemma head_size_word:
  assumes "get_arg buf v old NANOCBOR_SIZE_WORD = Ret (int n, x)"
  shows "head_size (buf ! v_cur v) \<in> {1, 2, 3, 5}"
proof -
  define l where "l = buf ! v_cur v AND NANOCBOR_VALUE_MASK"
  have "v_cur v < length buf" using assms by (auto simp: get_arg_def)
  then have "\<not> l > NANOCBOR_SIZE_WORD \<or> l < NANOCBOR_SIZE_BYTE"
    using assms unfolding get_arg_def by (auto simp: Let_def simp flip: l_def split: if_splits)
  then have "unat l \<le> 26" by (auto simp: word_less_nat_alt)
  then have "unat l < 24 \<or> unat l = 24 \<or> unat l = 25 \<or> unat l = 26" by linarith
  then show ?thesis by (auto simp: head_size_def Let_def simp flip: l_def)
qed

lemma enter_container_head:
  assumes wf: "dec_wf buf v" and eq: "enter_container buf v u t = Ret (NANOCBOR_OK, c)" and t: "t = 4 \<or> t = 5"
  shows "major_type (buf ! v_cur v) = t" and "head_size (buf ! v_cur v) \<in> {1, 2, 3, 5}"
    and "v_cur c = v_cur v + head_size (buf ! v_cur v)" and "v_end c = v_end v" and "v_cur v < v_end v"
proof -
  have c: "took v (head_size (buf ! v_cur v)) c" using enter_container_took [OF wf, of u t] eq by auto
  then show "v_cur c = v_cur v + head_size (buf ! v_cur v)" "v_end c = v_end v" "v_cur v < v_end v"
    by (auto simp: took_def)
  then have cur: "\<not> over_end v" by (simp add: over_end_def)
  let ?mark = "NANOCBOR_MASK t OR NANOCBOR_SIZE_INDEFINITE"
  have "major_type (buf ! v_cur v) = t \<and> head_size (buf ! v_cur v) \<in> {1, 2, 3, 5}"
  proof (cases "buf ! v_cur v = ?mark")
    case True
    then show ?thesis using mark_type [OF t] mark_size by simp
  next
    case False
    then obtain n x where "get_uint64 buf v 0 NANOCBOR_SIZE_WORD t = Ret (n, x)" "0 \<le> n"
      using eq rd1_in [OF wf cur] cur by (auto simp: enter_container_def Let_def split: if_splits)
    moreover from this obtain m where "n = int m" using nonneg_int_cases by blast
    ultimately have "get_arg buf v 0 NANOCBOR_SIZE_WORD = Ret (int m, x)" "nanocbor_get_type buf v = Ret t"
      by (auto simp: get_uint64_arg split: if_splits)
    then have "head_size (buf ! v_cur v) \<in> {1, 2, 3, 5}" and t': "nanocbor_get_type buf v = Ret t"
      using head_size_word by blast+
    moreover have "major_type (buf ! v_cur v) = t"
      using wf t t' by (cases rule: get_type_Ret) auto
    ultimately show ?thesis by blast
  qed
  then show "major_type (buf ! v_cur v) = t" "head_size (buf ! v_cur v) \<in> {1, 2, 3, 5}" by simp_all
qed

lemma enter_heads:
  assumes wf: "dec_wf buf v"
  shows "nanocbor_enter_array buf v u = Ret (NANOCBOR_OK, c) \<Longrightarrow> major_type (buf ! v_cur v) = 4 \<and>
      head_size (buf ! v_cur v) \<in> {1, 2, 3, 5} \<and> v_cur c = v_cur v + head_size (buf ! v_cur v) \<and> v_end c = v_end v"
    and "nanocbor_enter_map buf v u = Ret (NANOCBOR_OK, c) \<Longrightarrow> major_type (buf ! v_cur v) = 5 \<and>
      head_size (buf ! v_cur v) \<in> {1, 2, 3, 5} \<and> v_cur c = v_cur v + head_size (buf ! v_cur v) \<and> v_end c = v_end v"
proof -
  assume "nanocbor_enter_array buf v u = Ret (NANOCBOR_OK, c)"
  then have e: "enter_container buf v u 4 = Ret (NANOCBOR_OK, c)" by (simp add: nanocbor_enter_array_def)
  show "major_type (buf ! v_cur v) = 4 \<and> head_size (buf ! v_cur v) \<in> {1, 2, 3, 5} \<and>
      v_cur c = v_cur v + head_size (buf ! v_cur v) \<and> v_end c = v_end v"
    using enter_container_head [OF wf e] by simp
next
  assume "nanocbor_enter_map buf v u = Ret (NANOCBOR_OK, c)"
  then obtain d where e: "enter_container buf v u 5 = Ret (NANOCBOR_OK, d)" "v_cur c = v_cur d" "v_end c = v_end d"
    by (auto simp: nanocbor_enter_map_def split: if_splits)
  show "major_type (buf ! v_cur v) = 5 \<and> head_size (buf ! v_cur v) \<in> {1, 2, 3, 5} \<and>
      v_cur c = v_cur v + head_size (buf ! v_cur v) \<and> v_end c = v_end v"
    using enter_container_head [OF wf e(1)] e(2,3) by simp
qed

lemma get_arg_zero:
  assumes "dec_wf buf v" "v_cur v < v_end v" "buf ! v_cur v = 0"
  shows "get_arg buf v 0 maxb = Ret (1, 0)"
  using assms by (simp add: get_arg_def dec_wf_def store_low32_def)

lemma get_type_not_end:
  assumes wf: "dec_wf buf v" and "nanocbor_at_end buf v = Ret False"
  shows "nanocbor_get_type buf v = Ret (major_type (buf ! v_cur v))" and "v_cur v < v_end v"
proof -
  have "v_cur v < v_end v" using at_end_Ret [OF wf] assms(2) by auto
  moreover from this have "rd1 (v_cur v) buf = Ret (buf ! v_cur v)" using wf by (simp add: dec_wf_def)
  ultimately show "nanocbor_get_type buf v = Ret (major_type (buf ! v_cur v))" "v_cur v < v_end v"
    using assms(2) by (simp_all add: nanocbor_get_type_def get_type_def major_type_def)
qed

lemma get_int32_zero:
  assumes wf: "dec_wf buf v" and e: "nanocbor_at_end buf v = Ret False" and z: "buf ! v_cur v = 0"
  shows "nanocbor_get_int32 buf v old = Ret (1, 0, v\<lparr>v_cur := v_cur v + 1, v_remaining := v_remaining v - 1\<rparr>)"
proof -
  note t = get_type_not_end [OF wf e]
  have "major_type 0 = 0" by (simp add: major_type_def)
  then have t0: "nanocbor_get_type buf v = Ret 0" using t(1) z by simp
  have "get_uint64 buf v 0 NANOCBOR_SIZE_WORD 0 = Ret (1, 0)"
    using t0 get_arg_zero [OF wf t(2) z] by (simp add: get_uint64_arg)
  then show ?thesis
    using t0 by (simp add: nanocbor_get_int32_def get_and_advance_int32_def advance_if_def advance_def)
qed

lemma key_zero:
  assumes wf: "dec_wf buf v" and z: "buf ! v_cur v = 0"
  shows "nanocbor_at_end buf v = Ret False \<Longrightarrow> get_item_by_key (Suc fuel) buf v 0 val u =
      Ret (NANOCBOR_OK, v\<lparr>v_cur := v_cur v + 1, v_remaining := v_remaining v - 1\<rparr>)"
    and "get_item_by_key fuel buf v 0 val u = Ret (NANOCBOR_OK, w) \<Longrightarrow>
      w = v\<lparr>v_cur := v_cur v + 1, v_remaining := v_remaining v - 1\<rparr>"
proof -
  show *: "get_item_by_key (Suc fuel) buf v 0 val u =
      Ret (NANOCBOR_OK, v\<lparr>v_cur := v_cur v + 1, v_remaining := v_remaining v - 1\<rparr>)"
    if "nanocbor_at_end buf v = Ret False" for fuel
    using that get_int32_zero [OF wf that z, of 0] by simp
  show "w = v\<lparr>v_cur := v_cur v + 1, v_remaining := v_remaining v - 1\<rparr>"
    if r: "get_item_by_key fuel buf v 0 val u = Ret (NANOCBOR_OK, w)"
  proof -
    obtain n where n: "fuel = Suc n" using r by (cases fuel) auto
    obtain e where e: "nanocbor_at_end buf v = Ret e" using at_end_Ret [OF wf] by blast
    then have "\<not> e" using r n by auto
    then show ?thesis using r n e * [of n] by auto
  qed
qed
lemma hash_head:
  assumes wf: "dec_wf buf v" and e: "nanocbor_at_end buf v = Ret False"
    and head: "buf ! v_cur v = 0x58" "buf ! (v_cur v + 1) = 0x20" "v_cur v + 2 \<le> v_end v"
  shows "get_uint64 buf v 0 NANOCBOR_SIZE_SIZET NANOCBOR_TYPE_BSTR = Ret (2, 32)"
proof -
  have "major_type 0x58 = 2" by (simp add: major_type_def)
  then have t: "nanocbor_get_type buf v = Ret 2" using get_type_not_end(1) [OF wf e] head(1) by simp
  have "sub_bytes (v_cur v + 1) 1 buf = [0x20]"
    using head wf by (simp add: sub_bytes_def dec_wf_def take_Suc_conv_app_nth hd_drop_conv_nth take_Suc)
  then have "bswap64 (le_word (replicate 7 0 @ sub_bytes (v_cur v + 1) 1 buf)) = 0x20"
    using bswap64_pad [of "[0x20]"] by (simp add: be_word_def)
  then have "get_arg buf v 0 NANOCBOR_SIZE_SIZET = Ret (2, 32)"
    using head wf by (simp add: get_arg_def dec_wf_def Let_def store_low32_def)
  then show ?thesis using t by (simp add: get_uint64_arg)
qed

text \<open>A complete hash is read, a hash that the end of the input cuts off leaves the pointer at \<open>NULL\<close>.\<close>

lemma hash_string:
  assumes wf: "dec_wf buf v" and e: "nanocbor_at_end buf v = Ret False"
    and head: "buf ! v_cur v = 0x58" "buf ! (v_cur v + 1) = 0x20" "v_cur v + 2 \<le> v_end v"
  shows "v_cur v + 34 \<le> v_end v \<Longrightarrow> \<exists>w. nanocbor_get_bstr buf v None = Ret (NANOCBOR_OK, Some (v_cur v + 2), 32, w)"
    and "v_end v < v_cur v + 34 \<Longrightarrow> nanocbor_get_bstr buf v None = Ret (NANOCBOR_ERR_END, None, 32, v)"
proof -
  note h = hash_head [OF assms]
  have a: "(word_of_nat (v_end v - v_cur v) :: u64) < 34 \<longleftrightarrow> v_end v < v_cur v + 34"
    using unat_avail [OF wf] head(3) by (auto simp: word_less_nat_alt)
  show "\<exists>w. nanocbor_get_bstr buf v None = Ret (NANOCBOR_OK, Some (v_cur v + 2), 32, w)" if "v_cur v + 34 \<le> v_end v"
    using h a that by (simp add: nanocbor_get_bstr_def get_str_def not_less)
  show "nanocbor_get_bstr buf v None = Ret (NANOCBOR_ERR_END, None, 32, v)" if "v_end v < v_cur v + 34"
    using h a that by (simp add: nanocbor_get_bstr_def get_str_def)
qed

text \<open>
  How the body of a Cardano transaction begins: the head of a map, the key 0, the heads of the array of inputs
  and of the first input, each of one byte, and the hash of 32 bytes of the transaction that it spends.
\<close>

definition short_head :: "int \<Rightarrow> byte \<Rightarrow> bool" where
  "short_head t b \<longleftrightarrow> major_type b = t \<and> head_size b = 1"

definition first_input :: "bytes \<Rightarrow> bytes \<Rightarrow> bool" where
  "first_input body h \<longleftrightarrow> length h = 32 \<and> (\<exists>m a b rest. body = m # 0x00 # a # b # 0x58 # 0x20 # h @ rest \<and>
     short_head NANOCBOR_TYPE_MAP m \<and> short_head NANOCBOR_TYPE_ARR a \<and> short_head NANOCBOR_TYPE_ARR b)"

lemma get_bstr_announced:
  assumes wf: "dec_wf buf v" and "nanocbor_get_bstr buf v None = Ret (r, p, len, w)" and "len \<noteq> 0"
  shows "nanocbor_at_end buf v = Ret False"
proof -
  obtain e where e: "nanocbor_at_end buf v = Ret e" using at_end_Ret [OF wf] by blast
  have "len = 0" if e
    using that e assms(2) by (auto simp: nanocbor_get_bstr_def get_str_def get_uint64_def nanocbor_get_type_def split: if_splits)
  then show ?thesis using e assms(3) by auto
qed

lemma sign_hash_first:
  assumes eq: "get_ckb_sign_hash fuel data c u out = Ret d" and wf: "dec_wf data c"
    and cur: "v_cur c = 2" "v_end c = length data"
    and data: "data = x # m # 0x00 # a # b # 0x58 # 0x20 # h @ rest" "length h = 32"
    and heads: "short_head NANOCBOR_TYPE_ARR a" "short_head NANOCBOR_TYPE_ARR b"
  shows "ckb_sign_msg d = h"
proof -
  obtain v v2 v3 r p v4 where s: "get_item_by_key fuel data c 0 u u = Ret (NANOCBOR_OK, v)"
    "nanocbor_enter_array data v u = Ret (NANOCBOR_OK, v2)" "nanocbor_enter_array data v2 u = Ret (NANOCBOR_OK, v3)"
    "nanocbor_get_bstr data v3 None = Ret (r, p, 32, v4)" "copy_from data p 32 = Ret (ckb_sign_msg d)"
    using eq by (auto simp: get_ckb_sign_hash_def)
  have small: "length data < 2 ^ 31" using wf by (simp add: dec_wf_def)
  have wf': "dec_wf data y" if "v_end y = length data" for y using small that by (simp add: dec_wf_def)
  have sz: "head_size a = 1" "head_size b = 1" using heads by (simp_all add: short_head_def)
  have "data ! v_cur c = 0" using data cur by simp
  from key_zero(2) [OF wf this s(1)] have v: "v_cur v = 3" "v_end v = length data" using cur by simp_all
  have v2: "v_cur v2 = 4" "v_end v2 = length data"
    using enter_heads(1) [OF wf' [OF v(2)] s(2)] v data(1) sz by simp_all
  have v3: "v_cur v3 = 5" "v_end v3 = length data"
    using enter_heads(1) [OF wf' [OF v2(2)] s(3)] v2 data(1) sz by simp_all
  have e: "nanocbor_at_end data v3 = Ret False" using get_bstr_announced [OF wf' [OF v3(2)] s(4)] by simp
  have "p = Some 7"
    using hash_string(1) [OF wf' [OF v3(2)] e] s(4) v3 data by simp
  then show ?thesis using s(5) data by (simp add: copy_from_def sub_bytes_def)
qed

lemma cardano_data_first_input:
  assumes eq: "get_cardano_data fuel E data data_len u out = Ret d" and len: "unat data_len = length data" "length data < 2 ^ 31"
    and data: "data = x # body @ rest" and body: "first_input body h"
  shows "ckb_sign_msg d = h"
proof -
  let ?root = "nanocbor_decoder_init \<lparr>v_cur = 0, v_end = 0, v_remaining = 0, v_flags = 0\<rparr> data_len"
  obtain m a b rest' where b: "data = x # m # 0x00 # a # b # 0x58 # 0x20 # h @ rest'" "length h = 32"
    "short_head NANOCBOR_TYPE_MAP m" "short_head NANOCBOR_TYPE_ARR a" "short_head NANOCBOR_TYPE_ARR b"
    using body unfolding first_input_def data by auto
  obtain c t o1 w o2 where s: "nanocbor_enter_array data ?root u = Ret (NANOCBOR_OK, c)"
    "nanocbor_enter_map data c u = Ret (NANOCBOR_OK, t)" "get_ckb_sign_hash fuel data t u out = Ret o1"
    "get_sign_data fuel data w u o1 = Ret o2" "get_cardano_sign_message E data data_len o2 = Ret d"
    using eq by (auto simp: get_cardano_data_def Let_def)
  have wf': "dec_wf data y" if "v_end y = length data" for y using len(2) that by (simp add: dec_wf_def)
  have root: "v_cur ?root = 0" "v_end ?root = length data" using len by (simp_all add: nanocbor_decoder_init_def)
  have sz: "head_size x \<in> {1, 2, 3, 5}" "v_cur c = head_size x" "v_end c = length data"
    using enter_heads(1) [OF wf' [OF root(2)] s(1)] root b(1) by simp_all
  note map = enter_heads(2) [OF wf' [OF sz(3)] s(2)]
  have major: "major_type 0 = 0" "major_type 0x58 = 2" by (simp_all add: major_type_def)
  have "data ! 2 = 0" "data ! 3 = a" "data ! 5 = 0x58" unfolding b(1) by simp_all
  then have "v_cur c = 1" using sz map major b(4) by (auto simp: short_head_def)
  then have t: "v_cur t = 2" "v_end t = length data" using map sz(3) b(1,3) by (simp_all add: short_head_def)
  have "ckb_sign_msg d = ckb_sign_msg o1"
    using s(4,5) get_sign_data_slices(3) [OF s(4)]
    by (auto simp: get_cardano_sign_message_def Let_def case_prod_beta)
  also have "\<dots> = h" by (rule sign_hash_first [OF s(3) wf' [OF t(2)] t b(1,2,4,5)])
  finally show ?thesis .
qed

text \<open>A head of one byte that opens a container which is not empty.\<close>

definition opens :: "int \<Rightarrow> byte \<Rightarrow> bool" where
  "opens t b \<longleftrightarrow> short_head t b \<and> b AND NANOCBOR_VALUE_MASK \<noteq> 0"

lemma indefinite_mark:
  assumes "major_type b = t" and "t = 4 \<or> t = 5"
  shows "b = NANOCBOR_MASK t OR NANOCBOR_SIZE_INDEFINITE \<longleftrightarrow> b AND NANOCBOR_VALUE_MASK = 31"
proof -
  have "b = push_bit 5 (drop_bit 5 b) OR take_bit 5 b"
    by (rule bit_word_eqI) (auto simp: bit_simps)
  moreover have "push_bit 5 (drop_bit 5 b) = NANOCBOR_MASK t"
  proof -
    have "drop_bit 5 (b AND 0xE0) = drop_bit 5 b"
    proof (rule bit_word_eqI)
      fix n assume "n < LENGTH(8)"
      then have "n \<in> {0, 1, 2, 3, 4, 5, 6, 7}" by auto
      then show "bit (drop_bit 5 (b AND 0xE0)) n = bit (drop_bit 5 b) n"
        by (auto simp: bit_simps dest: bit_imp_le_length)
    qed
    then have "word_of_int t = drop_bit 5 b" using assms(1) by (auto simp: major_type_def)
    then show ?thesis by (simp add: NANOCBOR_MASK_def)
  qed
  moreover have "take_bit 5 (NANOCBOR_MASK t OR NANOCBOR_SIZE_INDEFINITE) = NANOCBOR_SIZE_INDEFINITE"
    unfolding NANOCBOR_MASK_def by (simp add: take_bit_or take_bit_push_bit)
  ultimately show ?thesis unfolding low_bits by metis
qed

text \<open>Entering such a container gives a context that is not at its end, nor would be after one item of a map.\<close>

lemma enter_opens:
  assumes wf: "dec_wf buf v" and e: "nanocbor_at_end buf v = Ret False" and t: "t = 4 \<or> t = 5"
    and head: "opens t (buf ! v_cur v)"
  obtains c where "enter_container buf v u t = Ret (NANOCBOR_OK, c)" and "v_cur c = v_cur v + 1" and "v_end c = v_end v"
    and "v_flags c = 3 \<or> v_flags c = 1 \<and> 0 < unat (v_remaining c) \<and> unat (v_remaining c) < 24"
    and "unat (v_remaining c) < 24"
proof -
  let ?b = "buf ! v_cur v" 
  let ?l = "?b AND NANOCBOR_VALUE_MASK"
  note ty = get_type_not_end [OF wf e]
  have rd: "rd1 (v_cur v) buf = Ret ?b" using ty(2) wf by (simp add: dec_wf_def)
  have major: "major_type ?b = t" and size: "head_size ?b = 1" and nz: "?l \<noteq> 0" using head by (simp_all add: opens_def short_head_def)
  show ?thesis
  proof (cases "?l = 31")
    case True
    then have "?b = NANOCBOR_MASK t OR NANOCBOR_SIZE_INDEFINITE" using indefinite_mark [OF major t] by simp
    then show ?thesis
      using ty(2) rd by (intro that [of "u\<lparr>v_end := v_end v, v_remaining := 0, v_flags := 3, v_cur := v_cur v + 1\<rparr>"])
        (simp_all add: enter_container_def Let_def over_end_def)
  next
    case False
    then have "?b \<noteq> NANOCBOR_MASK t OR NANOCBOR_SIZE_INDEFINITE" using indefinite_mark [OF major t] by simp
    moreover have l: "unat ?l < 24"
    proof -
      have "unat ?l \<noteq> 31" using False by (auto simp: word_unat_eq_iff)
      then show ?thesis using size by (auto simp: head_size_def Let_def split: if_splits)
    qed
    moreover have "get_uint64 buf v 0 NANOCBOR_SIZE_WORD t = Ret (1, ucast ?l)"
      using ty(1) major t rd l by (auto simp: get_uint64_arg get_arg_def store_low32_def word_less_nat_alt)
    moreover have "unat (ucast (ucast ?l :: u64) :: u32) = unat ?l" using l by (simp add: unat_ucast_mod)
    moreover have "0 < unat ?l" using nz by (simp add: unat_gt_0)
    ultimately show ?thesis
      using ty(2) rd by (intro that [of "u\<lparr>v_end := v_end v, v_remaining := ucast (ucast ?l :: u64), v_flags := 1, v_cur := v_cur v + 1\<rparr>"])
        (simp_all add: enter_container_def Let_def over_end_def)
  qed
qed

lemma not_at_end:
  assumes "dec_wf buf c" and "v_cur c < v_end c" and "buf ! v_cur c \<noteq> 0xFF"
    and "v_flags c = 3 \<or> v_flags c = 1 \<and> v_remaining c \<noteq> 0"
  shows "nanocbor_at_end buf c = Ret False"
  using assms by (auto simp: nanocbor_at_end_def over_end_def nanocbor_container_indefinite_def nanocbor_in_container_def dec_wf_def)

lemma enter_array_opens:
  assumes "dec_wf buf v" and "nanocbor_at_end buf v = Ret False" and "opens 4 (buf ! v_cur v)"
    and "v_cur v + 1 < v_end v" and "buf ! (v_cur v + 1) \<noteq> 0xFF"
  obtains c where "nanocbor_enter_array buf v u = Ret (NANOCBOR_OK, c)" and "v_cur c = v_cur v + 1" and "v_end c = v_end v"
    and "nanocbor_at_end buf c = Ret False"
proof -
  obtain c where c: "enter_container buf v u 4 = Ret (NANOCBOR_OK, c)" "v_cur c = v_cur v + 1" "v_end c = v_end v"
    "v_flags c = 3 \<or> v_flags c = 1 \<and> 0 < unat (v_remaining c)"
    by (rule enter_opens [OF assms(1,2) _ assms(3), of u]) auto
  have "nanocbor_at_end buf c = Ret False"
    using c assms by (intro not_at_end) (auto simp: dec_wf_def)
  then show ?thesis using c by (intro that [of c]) (simp_all add: nanocbor_enter_array_def)
qed

text \<open>In a map the key is read before the value, so two items are left.\<close>

lemma enter_map_opens:
  assumes "dec_wf buf v" and "nanocbor_at_end buf v = Ret False" and "opens 5 (buf ! v_cur v)"
    and "v_cur v + 2 < v_end v" and "buf ! (v_cur v + 1) \<noteq> 0xFF" and "buf ! (v_cur v + 2) \<noteq> 0xFF"
  obtains c where "nanocbor_enter_map buf v u = Ret (NANOCBOR_OK, c)" and "v_cur c = v_cur v + 1" and "v_end c = v_end v"
    and "nanocbor_at_end buf c = Ret False"
    and "nanocbor_at_end buf (c\<lparr>v_cur := v_cur c + 1, v_remaining := v_remaining c - 1\<rparr>) = Ret False"
proof -
  obtain c where c: "enter_container buf v u 5 = Ret (NANOCBOR_OK, c)" "v_cur c = v_cur v + 1" "v_end c = v_end v"
    "v_flags c = 3 \<or> v_flags c = 1 \<and> 0 < unat (v_remaining c)" "unat (v_remaining c) < 24"
    by (rule enter_opens [OF assms(1,2) _ assms(3), of u]) auto
  let ?c = "c\<lparr>v_remaining := v_remaining c * 2\<rparr>"
  have r: "unat (v_remaining c * 2) = unat (v_remaining c) * 2" using c(5) by (simp add: unat_word_ariths)
  have "v_remaining ?c \<noteq> 0 \<and> v_remaining ?c - 1 \<noteq> 0" if "0 < unat (v_remaining c)"
  proof -
    have "unat (v_remaining c * 2) \<noteq> 0" "unat (v_remaining c * 2) \<noteq> 1" using r that by presburger+
    then show ?thesis by auto
  qed
  then have "v_flags c = 3 \<or> v_flags c = 1 \<and> v_remaining ?c \<noteq> 0 \<and> v_remaining ?c - 1 \<noteq> 0" using c(4) by auto
  then have "nanocbor_at_end buf ?c = Ret False"
    "nanocbor_at_end buf (?c\<lparr>v_cur := v_cur ?c + 1, v_remaining := v_remaining ?c - 1\<rparr>) = Ret False"
    using c(2,3) assms by (auto simp: dec_wf_def intro!: not_at_end)
  moreover have "\<not> v_remaining c > 0x7FFFFFFF" using c(5) by (simp add: word_less_nat_alt)
  then have "nanocbor_enter_map buf v u = Ret (NANOCBOR_OK, ?c)" using c(1) by (simp add: nanocbor_enter_map_def)
  ultimately show ?thesis using c(2,3) by (intro that [of ?c]) simp_all
qed

lemma opens_not_break: "opens t b \<Longrightarrow> t = 4 \<or> t = 5 \<Longrightarrow> b \<noteq> 0xFF"
  by (auto simp: opens_def short_head_def major_type_def)

section \<open>Properties\<close>

definition cardano_example :: bytes where
  "cardano_example = [0x83, 0xA1, 0x00, 0x81, 0x82, 0x58, 0x20] @ replicate 32 9 @ [0x00] @
     [0xA1, 0x00, 0x81, 0x82, 0x58, 0x20] @ replicate 32 7 @ [0x58, 0x40] @ replicate 64 8 @ [0xF6]"

definition empty_value :: nanocbor_value where
  "empty_value = \<lparr>v_cur = 0, v_end = 0, v_remaining = 0, v_flags = 0\<rparr>"

definition empty_data :: CardanoSignatureData where
  "empty_data = \<lparr>ckb_sign_msg = replicate 32 0, public_key = replicate 32 0,
     signature = replicate 64 0, sign_message = replicate 32 0\<rparr>"

lemma cardano_example_runs:
  "is_ret (get_cardano_data 146 example_env cardano_example 145 empty_value empty_data)"
  by code_simp


text \<open>What \<open>get_cardano_data\<close> returns with success comes from the input: the CKB message, the public
  key and the signature are slices of 32, 32 and 64 bytes of it, the input has at least 106
  bytes, and the signed message is the BLAKE2b digest of the input without its first byte and
  its last 105.\<close>

theorem cardano_data_sound:
  assumes "get_cardano_data fuel E data data_len u out = Ret out'"
    and "unat data_len = length data" and "blake2b_ok E" and "length (sign_message out) = 32"
  shows "106 \<le> length data \<and> slice_of 32 data (ckb_sign_msg out') \<and> slice_of 32 data (public_key out') \<and>
    slice_of 64 data (signature out') \<and>
    sign_message out' = cardano_digest E (sub_bytes 1 (length data - 106) data)"
  using assms by (rule get_cardano_data_Ret)

theorem cardano_data_sound_witness:
  "\<exists>out'. get_cardano_data 146 example_env cardano_example 145 empty_value empty_data = Ret out' \<and>
    slice_of 32 cardano_example (public_key out') \<and> slice_of 64 cardano_example (signature out')"
proof -
  obtain out' where r: "get_cardano_data 146 example_env cardano_example 145 empty_value empty_data = Ret out'"
    using cardano_example_runs by (auto simp: is_ret_def split: run.splits)
  moreover have "unat (145 :: u64) = length cardano_example" by (simp add: cardano_example_def)
  moreover have "length (sign_message empty_data) = 32" by (simp add: empty_data_def)
  ultimately show ?thesis using cardano_data_sound [OF r _ example_blake2b_ok] by simp
qed

text \<open>C39: \<open>get_ckb_sign_hash\<close> ignores the status of \<open>nanocbor_get_bstr\<close>. Whenever the input ends inside of the hash,
  that is, it begins as a transaction does, with any number of items in its array, map and inputs, and fewer
  than 32 bytes follow the head of the hash, the length check passes while the pointer is
  still \<open>NULL\<close>, and \<open>memcpy\<close> reads from it.\<close>

theorem cardano_truncated_hash_reads_null:
  fixes x m a b :: byte and rest :: bytes
  defines "data \<equiv> x # m # 0x00 # a # b # 0x58 # 0x20 # rest"
  assumes "opens NANOCBOR_TYPE_ARR x" and "opens NANOCBOR_TYPE_MAP m" and "opens NANOCBOR_TYPE_ARR a" and "opens NANOCBOR_TYPE_ARR b"
    and "length rest < 32" and "unat data_len = length data"
  shows "get_cardano_data (Suc fuel) E data data_len u out = Fault"
proof -
  let ?root = "nanocbor_decoder_init \<lparr>v_cur = 0, v_end = 0, v_remaining = 0, v_flags = 0\<rparr> data_len"
  have len: "length data < 2 ^ 31" using assms(6) by (simp add: data_def)
  have wf: "dec_wf data y" if "v_end y = length data" for y using len that by (simp add: dec_wf_def)
  have nth: "data ! 0 = x" "data ! 1 = m" "data ! 2 = 0" "data ! 3 = a" "data ! 4 = b" "data ! 5 = 0x58" "data ! 6 = 0x20"
    and big: "7 \<le> length data" by (simp_all add: data_def)
  have root: "v_cur ?root = 0" "v_end ?root = length data" using assms(7) by (simp_all add: nanocbor_decoder_init_def)
  have e0: "nanocbor_at_end data ?root = Ret False"
    using root by (simp add: data_def nanocbor_at_end_def over_end_def nanocbor_container_indefinite_def nanocbor_in_container_def
        nanocbor_decoder_init_def)
  have ff: "x \<noteq> 0xFF" "m \<noteq> 0xFF" "a \<noteq> 0xFF" "b \<noteq> 0xFF" using assms(2-5) opens_not_break by blast+
  have zero: "(0 :: byte) \<noteq> 0xFF" by simp
  have ty: "nanocbor_get_type data ?root = Ret NANOCBOR_TYPE_ARR"
    using get_type_not_end(1) [OF wf [OF root(2)] e0] root nth assms(2) by (simp add: opens_def short_head_def)
  obtain c where c: "nanocbor_enter_array data ?root u = Ret (NANOCBOR_OK, c)" "v_cur c = 1" "v_end c = length data"
    "nanocbor_at_end data c = Ret False"
    by (rule enter_array_opens [OF wf [OF root(2)] e0, of u]) (use root nth big assms(2) ff in auto)
  obtain d where d: "nanocbor_enter_map data c u = Ret (NANOCBOR_OK, d)" "v_cur d = 2" "v_end d = length data"
    "nanocbor_at_end data d = Ret False"
    "nanocbor_at_end data (d\<lparr>v_cur := v_cur d + 1, v_remaining := v_remaining d - 1\<rparr>) = Ret False"
    by (rule enter_map_opens [OF wf [OF c(3)] c(4), of u]) (use c nth big assms(3) ff zero in \<open>auto simp: numeral_2_eq_2 numeral_3_eq_3\<close>)
  let ?v = "d\<lparr>v_cur := v_cur d + 1, v_remaining := v_remaining d - 1\<rparr>"
  have key: "get_item_by_key (Suc fuel) data d 0 u u = Ret (NANOCBOR_OK, ?v)"
    using key_zero(1) [OF wf [OF d(3)] _ d(4)] d(2) nth by simp
  have v: "v_cur ?v = 3" "v_end ?v = length data" using d by simp_all
  obtain v2 where v2: "nanocbor_enter_array data ?v u = Ret (NANOCBOR_OK, v2)" "v_cur v2 = 4" "v_end v2 = length data"
    "nanocbor_at_end data v2 = Ret False"
    by (rule enter_array_opens [OF wf [OF v(2)] d(5), of u]) (use v nth big assms(4) ff in auto)
  obtain v3 where v3: "nanocbor_enter_array data v2 u = Ret (NANOCBOR_OK, v3)" "v_cur v3 = 5" "v_end v3 = length data"
    "nanocbor_at_end data v3 = Ret False"
    by (rule enter_array_opens [OF wf [OF v2(3)] v2(4), of u]) (use v2 nth big assms(5) ff in auto)
  have "nanocbor_get_bstr data v3 None = Ret (NANOCBOR_ERR_END, None, 32, v3)"
    using v3(2,3) nth big assms(6) by (intro hash_string(2) [OF wf [OF v3(3)] v3(4)]) (simp_all add: data_def)
  then have "get_ckb_sign_hash (Suc fuel) data d u out = Fault"
    using key v2(1) v3(1) by (simp add: get_ckb_sign_hash_def copy_from_def del: get_item_by_key.simps)
  then show ?thesis using ty c(1) d(1) by (simp add: get_cardano_data_def)
qed

theorem cardano_truncated_hash_reads_null_witness:
  "get_cardano_data 1 example_env [0x82, 0xA1, 0x00, 0x81, 0x9F, 0x58, 0x20, 7, 7, 7] 10 empty_value empty_data = Fault"
  using cardano_truncated_hash_reads_null [where x = "0x82" and m = "0xA1" and a = "0x81" and b = "0x9F" and rest = "[7, 7, 7]"
    and data_len = 10 and fuel = 0 and E = example_env and u = empty_value and out = empty_data]
  by (simp add: opens_def short_head_def major_type_def head_size_def)

end
