(* ===== verification/Auth_Validate.thy ===== *)
theory Auth_Validate
  imports Auth_Convert Secp_Helper Varint Cardano_Lock
begin

text \<open>
  The second half of a verification in c/auth.c: each \<open>validate_signature_\<close> function checks a
  signature over the converted message and writes the 20 byte hash of the public key that it
  recovered or read. A validator takes the signature object with its length, the message with
  its length, the output buffer and \<open>*output_len\<close>, and returns the new buffer and length.
\<close>

section \<open>Recovering a secp256k1 key\<close>

abbreviation (input) BLAKE160_SIZE :: nat where "BLAKE160_SIZE \<equiv> 20"
abbreviation (input) SECP256K1_PUBKEY_SIZE :: nat where "SECP256K1_PUBKEY_SIZE \<equiv> 33"
abbreviation (input) UNCOMPRESSED_SECP256K1_PUBKEY_SIZE :: nat where "UNCOMPRESSED_SECP256K1_PUBKEY_SIZE \<equiv> 65"
abbreviation (input) RECID_INDEX :: nat where "RECID_INDEX \<equiv> 64"

type_synonym validate_signature_t =
  "env \<Rightarrow> bytes \<Rightarrow> u64 \<Rightarrow> bytes \<Rightarrow> u64 \<Rightarrow> bytes \<Rightarrow> u64 \<Rightarrow> (bytes \<times> u64) run"

text \<open>The library reports failure by 0, here \<open>None\<close>; the caller returns \<open>code\<close>.\<close>

definition or_fail :: "int \<Rightarrow> 'a option \<Rightarrow> 'a run" where
  "or_fail code x = (case x of None \<Rightarrow> Err code | Some y \<Rightarrow> Ret y)"

definition recover_secp256k1_pubkey ::
  "env \<Rightarrow> bytes \<Rightarrow> u64 \<Rightarrow> bytes \<Rightarrow> u64 \<Rightarrow> bytes \<Rightarrow> bool \<Rightarrow> (bytes \<times> u64) run" where
  "recover_secp256k1_pubkey E sig sig_len msg msg_len out_pubkey compressed =
     (if sig_len \<noteq> 65 then Err ERROR_INVALID_ARG
      else if msg_len \<noteq> 32 then Err ERROR_INVALID_ARG
      else
        run_bind (ckb_secp256k1_custom_verify_only_initialize E (uninit E (unat (CKB_SECP256K1_DATA_SIZE E)))) (\<lambda>context.
        run_bind (rd1 RECID_INDEX sig) (\<lambda>recid.
        run_bind (rd 0 64 sig) (\<lambda>input64.
        run_bind (secp_call (recoverable_signature_parse_compact E input64 (uint recid))) (\<lambda>s.
        run_bind (or_fail ERROR_WRONG_STATE s) (\<lambda>signature.
        run_bind (rd 0 32 msg) (\<lambda>msg32.
        run_bind (secp_call (ecdsa_recover E context signature msg32)) (\<lambda>p.
        run_bind (or_fail ERROR_WRONG_STATE p) (\<lambda>pubkey.
        let out_pubkey_size = (if compressed then 33 else 65) in
        run_bind (secp_call (ec_pubkey_serialize E pubkey out_pubkey_size compressed)) (\<lambda>o'.
        run_bind (or_fail ERROR_WRONG_STATE o') (\<lambda>bs.
        run_bind (wr 0 bs out_pubkey) (\<lambda>out_pubkey.
        Ret (out_pubkey, word_of_nat (length bs))))))))))))))"

definition recover_secp256k1_pubkey_btc ::
  "env \<Rightarrow> bytes \<Rightarrow> u64 \<Rightarrow> bytes \<Rightarrow> u64 \<Rightarrow> bytes \<Rightarrow> bool \<Rightarrow> (bytes \<times> u64) run" where
  "recover_secp256k1_pubkey_btc E sig sig_len msg msg_len out_pubkey compressed =
     (if sig_len \<noteq> 65 then Err ERROR_INVALID_ARG
      else if msg_len \<noteq> 32 then Err ERROR_INVALID_ARG
      else
        run_bind (rd1 0 sig) (\<lambda>sig0.
        let recid = (uint sig0 - 27) AND 3;
            comp = ((uint sig0 - 27) AND 4 \<noteq> 0) in
        run_bind (ckb_secp256k1_custom_verify_only_initialize E (uninit E (unat (CKB_SECP256K1_DATA_SIZE E)))) (\<lambda>context.
        run_bind (rd 1 64 sig) (\<lambda>input64.
        run_bind (secp_call (recoverable_signature_parse_compact E input64 recid)) (\<lambda>s.
        run_bind (or_fail ERROR_WRONG_STATE s) (\<lambda>signature.
        run_bind (rd 0 32 msg) (\<lambda>msg32.
        run_bind (secp_call (ecdsa_recover E context signature msg32)) (\<lambda>p.
        run_bind (or_fail ERROR_WRONG_STATE p) (\<lambda>pubkey.
        let out_pubkey_size = (if comp then 33 else 65) in
        run_bind (secp_call (ec_pubkey_serialize E pubkey out_pubkey_size comp)) (\<lambda>o'.
        run_bind (or_fail ERROR_WRONG_STATE o') (\<lambda>bs.
        run_bind (wr 0 bs out_pubkey) (\<lambda>out_pubkey.
        Ret (out_pubkey, word_of_nat (length bs))))))))))))))"

section \<open>Validators over secp256k1\<close>

text \<open>
  The tail that most validators share: BLAKE2b of \<open>data\<close> into \<open>temp\<close>, the first 20 bytes of it
  into \<open>output\<close>, and \<open>*output_len = BLAKE160_SIZE\<close>.
\<close>

definition output_blake160 :: "env \<Rightarrow> bytes \<Rightarrow> bytes \<Rightarrow> bytes \<Rightarrow> (bytes \<times> u64) run" where
  "output_blake160 E data temp output =
     (let ctx = blake2b_init E 32;
          ctx = blake2b_update E ctx data in
      run_bind (wr 0 (blake2b_final E ctx 32) temp) (\<lambda>temp.
      run_bind (rd 0 BLAKE160_SIZE temp) (\<lambda>h.
      run_bind (wr 0 h output) (\<lambda>output.
      Ret (output, word_of_nat BLAKE160_SIZE)))))"

definition validate_signature_ckb :: validate_signature_t where
  "validate_signature_ckb E sig sig_len msg msg_len output output_len =
     (if output_len < word_of_nat BLAKE160_SIZE then Err ERROR_INVALID_ARG
      else
        run_bind (recover_secp256k1_pubkey E sig sig_len msg msg_len (uninit E SECP256K1_PUBKEY_SIZE) True)
          (\<lambda>(out_pubkey, out_pubkey_size).
        run_bind (rd 0 (unat out_pubkey_size) out_pubkey) (\<lambda>data.
        output_blake160 E data out_pubkey output)))"

definition validate_signature_eth :: validate_signature_t where
  "validate_signature_eth E sig sig_len msg msg_len output output_len =
     (if output_len < word_of_nat BLAKE160_SIZE then Err (int SECP256K1_PUBKEY_SIZE)
      else
        run_bind (recover_secp256k1_pubkey E sig sig_len msg msg_len
            (uninit E UNCOMPRESSED_SECP256K1_PUBKEY_SIZE) False)
          (\<lambda>(out_pubkey, out_pubkey_size).
        run_bind (keccak_update keccak_init (site_addr E EthPubkey) (drop 1 out_pubkey)
            (ucast (out_pubkey_size - 1))) (\<lambda>sha3_ctx.
        run_bind (keccak_final sha3_ctx (Some out_pubkey)) (\<lambda>(_, out_pubkey).
        run_bind (rd 12 BLAKE160_SIZE (the out_pubkey)) (\<lambda>h.
        run_bind (wr 0 h output) (\<lambda>output.
        Ret (output, word_of_nat BLAKE160_SIZE)))))))"

definition validate_signature_btc :: validate_signature_t where
  "validate_signature_btc E sig sig_len msg msg_len output output_len =
     (if output_len < word_of_nat BLAKE160_SIZE then Err (int SECP256K1_PUBKEY_SIZE)
      else
        run_bind (recover_secp256k1_pubkey_btc E sig sig_len msg msg_len
            (uninit E UNCOMPRESSED_SECP256K1_PUBKEY_SIZE) False)
          (\<lambda>(out_pubkey, out_pubkey_size).
        run_bind (md_string E (md_info_from_type E MBEDTLS_MD_SHA256) out_pubkey (unat out_pubkey_size)
            (uninit E SHA256_SIZE)) (\<lambda>temp.
        run_bind (md_string E (md_info_from_type E MBEDTLS_MD_RIPEMD160) temp SHA256_SIZE temp) (\<lambda>temp.
        run_bind (rd 0 BLAKE160_SIZE temp) (\<lambda>h.
        run_bind (wr 0 h output) (\<lambda>output.
        Ret (output, word_of_nat BLAKE160_SIZE)))))))"

definition validate_signature_schnorr :: validate_signature_t where
  "validate_signature_schnorr E sig sig_len msg msg_len output output_len =
     (if output_len < word_of_nat BLAKE160_SIZE then Err (int SECP256K1_PUBKEY_SIZE)
      else if sig_len \<noteq> 32 + 64 \<or> msg_len \<noteq> 32 then Err ERROR_INVALID_ARG
      else
        run_bind (ckb_secp256k1_custom_verify_only_initialize E (uninit E (unat (CKB_SECP256K1_DATA_SIZE E)))) (\<lambda>ctx.
        run_bind (rd 0 32 sig) (\<lambda>key.
        run_bind (secp_call (xonly_pubkey_parse E key)) (\<lambda>p.
        run_bind (or_fail ERROR_SCHNORR p) (\<lambda>pk.
        run_bind (rd 32 64 sig) (\<lambda>sig64.
        run_bind (rd 0 32 msg) (\<lambda>msg32.
        run_bind (secp_call (schnorrsig_verify E ctx sig64 msg32 pk)) (\<lambda>success.
        if \<not> success then Err ERROR_SCHNORR
        else output_blake160 E key (replicate 32 0) output))))))))"

section \<open>Cardano\<close>

text \<open>Fuel and the contents of uninitialised CBOR contexts are those of \<open>get_cardano_data\<close>.\<close>

definition validate_signature_cardano :: "nat \<Rightarrow> nanocbor_value \<Rightarrow> validate_signature_t" where
  "validate_signature_cardano fuel u E sig sig_len msg msg_len output output_len =
     (if output_len < word_of_nat BLAKE160_SIZE then Err (int SECP256K1_PUBKEY_SIZE)
      else
        run_bind (run_catch (get_cardano_data fuel E sig sig_len u
            \<lparr>ckb_sign_msg = uninit E 32, public_key = uninit E 32, signature = uninit E 64,
             sign_message = uninit E 32\<rparr>) (\<lambda>_. Err ERROR_INVALID_ARG)) (\<lambda>cardano_data.
        run_bind (memcmp_eq 0 msg 0 (ckb_sign_msg cardano_data) (unat msg_len)) (\<lambda>same.
        run_bind (CHECK2 same ERROR_INVALID_ARG) (\<lambda>_.
        let suc = ed25519_verify E (signature cardano_data) (sign_message cardano_data) (public_key cardano_data) in
        run_bind (CHECK2 (suc = 1) ERROR_WRONG_STATE) (\<lambda>_.
        output_blake160 E (public_key cardano_data) (replicate 32 0) output)))))"

section \<open>Monero\<close>

definition MONERO_HASH_KEY_MESSAGE_SIGNING :: bytes where
  "MONERO_HASH_KEY_MESSAGE_SIGNING = ascii ''MoneroMessageSignature'' @ [0]"

definition get_monero_message_hash ::
  "env \<Rightarrow> bytes \<Rightarrow> bytes \<Rightarrow> bytes \<Rightarrow> byte \<Rightarrow> bytes \<Rightarrow> u64 \<Rightarrow> bytes run" where
  "get_monero_message_hash E hash spend_pubkey view_pubkey mode msg msg_len =
     run_bind (keccak_update keccak_init (site_addr E MoneroKey) MONERO_HASH_KEY_MESSAGE_SIGNING 23) (\<lambda>ctx.
     run_bind (keccak_update ctx (site_addr E MoneroSpend) spend_pubkey 32) (\<lambda>ctx.
     run_bind (keccak_update ctx (site_addr E MoneroView) view_pubkey 32) (\<lambda>ctx.
     run_bind (keccak_update ctx (site_addr E MoneroMode) [mode] 1) (\<lambda>ctx.
     run_bind (write_varint (uninit E 10) msg_len) (\<lambda>(len_buf, written_bytes).
     run_bind (keccak_update ctx (site_addr E MoneroLen) len_buf (ucast written_bytes)) (\<lambda>ctx.
     run_bind (keccak_update ctx (site_addr E MoneroMsg) msg (ucast msg_len)) (\<lambda>ctx.
     run_bind (keccak_final ctx (Some hash)) (\<lambda>(_, hash). Ret (the hash)))))))))"

definition monero_hash_to_scalar :: "env \<Rightarrow> bytes \<Rightarrow> u64 \<Rightarrow> bytes \<Rightarrow> bytes \<Rightarrow> bytes run" where
  "monero_hash_to_scalar E msg msg_len key comm =
     run_bind (keccak_update keccak_init (site_addr E ScalarMsg) msg (ucast msg_len)) (\<lambda>ctx.
     run_bind (keccak_update ctx (site_addr E ScalarKey) key 32) (\<lambda>ctx.
     run_bind (keccak_update ctx (site_addr E ScalarComm) comm 32) (\<lambda>ctx.
     run_bind (keccak_final ctx (Some (uninit E 200))) (\<lambda>(_, state).
     run_bind (rd 0 32 (the state)) (\<lambda>scalar.
     Ret (sc_reduce32 E scalar))))))"

definition ed25519_verify_monero :: "env \<Rightarrow> bytes \<Rightarrow> bytes \<Rightarrow> u64 \<Rightarrow> bytes \<Rightarrow> int run" where
  "ed25519_verify_monero E sig message message_len pubkey =
     run_bind (rd 0 32 sig) (\<lambda>sig_c.
     run_bind (rd 32 32 sig) (\<lambda>sig_r.
     if sc_check E sig_c \<noteq> 0 \<or> sc_check E sig_r \<noteq> 0 \<or> sc_isnonzero E sig_c = 0 then Ret 0
     else let sig_c_neg = sc_sub E (sc_0 E) sig_c in
       run_bind (rd 0 32 pubkey) (\<lambda>pk.
       case ge_frombytes_negate_vartime E pk of (r, tmp3) \<Rightarrow>
        if r \<noteq> 0 then Ret 0
        else let tmp2 = ge_double_scalarmult_vartime E sig_c_neg tmp3 sig_r;
                 comm = ge_tobytes E tmp2 in
          if comm = 1 # replicate 31 0 then Ret 0
          else run_bind (monero_hash_to_scalar E message message_len pubkey comm) (\<lambda>c.
            Ret (if sc_isnonzero E (sc_sub E c sig_c) = 0 then 1 else 0)))))"

definition validate_signature_monero :: validate_signature_t where
  "validate_signature_monero E sig sig_len msg msg_len output output_len =
     run_bind (CHECK2 (msg_len = 32) ERROR_INVALID_ARG) (\<lambda>_.
     run_bind (CHECK2 (sig_len = 64 + 1 + 32 * 2) ERROR_INVALID_ARG) (\<lambda>_.
     run_bind (rd1 64 sig) (\<lambda>mode.
     run_bind (CHECK2 (mode = 0) ERROR_INVALID_ARG) (\<lambda>_.
     run_bind (rd 65 32 sig) (\<lambda>spend_pubkey.
     run_bind (rd 97 32 sig) (\<lambda>view_pubkey.
     run_bind (get_monero_message_hash E (uninit E 32) spend_pubkey view_pubkey mode msg msg_len) (\<lambda>hash.
     run_bind (ed25519_verify_monero E sig hash 32 spend_pubkey) (\<lambda>suc.
     run_bind (CHECK2 (suc = 1) ERROR_SPAWN_INVALID_SIG) (\<lambda>_.
     run_bind (rd 64 (1 + 32 * 2) sig) (\<lambda>data.
     output_blake160 E data (replicate 32 0) output))))))))))"

section \<open>Solana\<close>

text \<open>The pointers \<open>signed_msg\<close> and \<open>pub_key\<close> are offsets into the signature object.\<close>

fun solana_signer_loop :: "bytes \<Rightarrow> nat \<Rightarrow> nat \<Rightarrow> nat list \<Rightarrow> unit run" where
  "solana_signer_loop sig pub_key_ptr pub_key [] = Err ERROR_INVALID_ARG"
| "solana_signer_loop sig pub_key_ptr pub_key (i # is) =
     run_bind (memcmp_eq (pub_key_ptr + i * 32) sig pub_key sig 32) (\<lambda>same.
     if same then Ret () else solana_signer_loop sig pub_key_ptr pub_key is)"

definition validate_solana_signed_message ::
  "bytes \<Rightarrow> nat \<Rightarrow> u64 \<Rightarrow> nat \<Rightarrow> bytes \<Rightarrow> unit run" where
  "validate_solana_signed_message sig signed_msg signed_msg_len pub_key blockhash =
     run_bind (CHECK2 (signed_msg_len > 3 + 32) ERROR_INVALID_ARG) (\<lambda>_.
     run_bind (rd1 signed_msg sig) (\<lambda>num_signers.
     run_bind (run_catch (read_varint_u16 sig (signed_msg + 3) (signed_msg_len - 3))
         (\<lambda>_. Err ERROR_INVALID_ARG)) (\<lambda>(pub_key_ptr, num_keys).
     let pub_key_size = (pub_key_ptr - (signed_msg + 3)) + 32 * unat num_keys in
     run_bind (CHECK2 (signed_msg_len > 3 + word_of_nat pub_key_size + 32) ERROR_INVALID_ARG) (\<lambda>_.
     run_bind (memcmp_eq (signed_msg + 3 + pub_key_size) sig 0 blockhash 32) (\<lambda>same.
     run_bind (CHECK2 same ERROR_INVALID_ARG) (\<lambda>_.
     solana_signer_loop sig pub_key_ptr pub_key [0..<unat num_signers]))))))"

definition validate_signature_solana :: validate_signature_t where
  "validate_signature_solana E sig sig_len msg msg_len output output_len =
     run_bind (CHECK2 (sig_len = 512) ERROR_INVALID_ARG) (\<lambda>_.
     run_bind (CHECK2 (msg_len = 32) ERROR_INVALID_ARG) (\<lambda>_.
     run_bind (rd1 0 sig) (\<lambda>s0.
     run_bind (rd1 1 sig) (\<lambda>s1.
     let sig_len = (ucast s0 OR push_bit 8 (ucast s1) :: u64) in
     run_bind (CHECK2 (sig_len \<le> 510) ERROR_INVALID_ARG) (\<lambda>_.
     let signature_ptr = 2;
         pub_key_ptr = signature_ptr + 64;
         signed_msg_ptr = signature_ptr + 64 + 32;
         signed_msg_len = sig_len - 64 - 32 in
     run_bind (validate_solana_signed_message sig signed_msg_ptr signed_msg_len pub_key_ptr msg) (\<lambda>_.
     run_bind (rd signature_ptr 64 sig) (\<lambda>sig64.
     run_bind (rd signed_msg_ptr (unat signed_msg_len) sig) (\<lambda>signed_msg.
     run_bind (rd pub_key_ptr 32 sig) (\<lambda>pub_key.
     let suc = ed25519_verify E sig64 signed_msg pub_key in
     run_bind (CHECK2 (suc = 1) ERROR_WRONG_STATE) (\<lambda>_.
     output_blake160 E pub_key (replicate 32 0) output))))))))))"

end
