(* ===== verification/Auth_Schemes.thy ===== *)
theory Auth_Schemes
  imports Auth_Validate
begin

text \<open>
  What the validators of c/auth.c accept, stated without buffers and lengths, and the proof that
  the code implements it. The contract of a validator is the locale \<open>signature_validator\<close>,
  interpreted for each of the eight functions.
\<close>

section \<open>The tables of libsecp256k1\<close>

lemma secp_search_defined:
  assumes ok: "loads_ok E" "length (ckb_secp256k1_data_hash E) = 32"
    and data: "length data = unat (CKB_SECP256K1_DATA_SIZE E)"
  shows "well_defined (secp_search E data k)"
proof (induction "2 ^ 64 - unat k" arbitrary: k rule: less_induct)
  case less
  show ?case
  proof (cases "k < SIZE_MAX")
    case False
    then show ?thesis by (subst secp_search.simps) simp
  next
    case True
    have "unat (k + 1) = unat k + 1"
      using True by (simp add: unat_word_ariths word_less_nat_alt)
    then have IH: "well_defined (secp_search E data (k + 1))"
      using unat_u64_less [of k] by (intro less) (simp del: unat_u64_less)
    obtain ret len out where l: "load_cell_data E (CKB_SECP256K1_DATA_SIZE E) 0 k CKB_SOURCE_CELL_DEP = (ret, len, out)"
      using prod_cases3 by blast
    moreover have "length (snd (snd (load_cell_data E (CKB_SECP256K1_DATA_SIZE E) 0 k CKB_SOURCE_CELL_DEP))) \<le> length data"
      using ok(1) unfolding loads_ok_def data by blast
    ultimately have "well_defined (dep_data E k data)" by (simp add: dep_data_def)
    then show ?thesis
      unfolding secp_search_step [OF ok True] using IH by (auto intro!: well_defined_bind)
  qed
qed

definition secp_context :: "env \<Rightarrow> secp256k1_context run" where
  "secp_context E = ckb_secp256k1_custom_verify_only_initialize E (uninit E (unat (CKB_SECP256K1_DATA_SIZE E)))"

lemma secp_context_defined: "env_ok E \<Longrightarrow> well_defined (secp_context E)"
  unfolding secp_context_def ckb_secp256k1_custom_verify_only_initialize_def env_ok_def
  by (intro well_defined_bind secp_search_defined) (auto split: prod.split)

lemma or_fail_Ret_iff [simp]: "or_fail code x = Ret y \<longleftrightarrow> x = Some y"
  by (simp add: or_fail_def split: option.split)

lemma or_fail_defined [simp]: "well_defined (or_fail code x)"
  by (simp add: or_fail_def split: option.split)

section \<open>Key recovery\<close>

definition secp_recover :: "env \<Rightarrow> bytes \<Rightarrow> int \<Rightarrow> bytes \<Rightarrow> bool \<Rightarrow> bytes run" where
  "secp_recover E input64 recid msg32 compressed =
     run_bind (secp_context E) (\<lambda>context.
     run_bind (secp_call (recoverable_signature_parse_compact E input64 recid)) (\<lambda>s.
     run_bind (or_fail ERROR_WRONG_STATE s) (\<lambda>signature.
     run_bind (secp_call (ecdsa_recover E context signature msg32)) (\<lambda>p.
     run_bind (or_fail ERROR_WRONG_STATE p) (\<lambda>pubkey.
     run_bind (secp_call (ec_pubkey_serialize E pubkey (if compressed then 33 else 65) compressed)) (\<lambda>o'.
     or_fail ERROR_WRONG_STATE o'))))))"

lemma secp_recover_length:
  "env_ok E \<Longrightarrow> secp_recover E s r m cmp = Ret bs \<Longrightarrow> length bs = (if cmp then 33 else 65)"
  by (auto simp: secp_recover_def env_ok_def serialize_ok_def)

lemma secp_recover_defined: "env_ok E \<Longrightarrow> well_defined (secp_recover E s r m cmp)"
  unfolding secp_recover_def by (auto intro!: well_defined_bind secp_context_defined)

lemma recover_eq:
  assumes "length sig = 65" and "length msg = 32"
  shows "recover_secp256k1_pubkey E sig 65 msg 32 out cmp =
    run_bind (secp_recover E (take 64 sig) (uint (sig ! 64)) msg cmp)
      (\<lambda>bs. run_bind (wr 0 bs out) (\<lambda>out. Ret (out, word_of_nat (length bs))))"
  using assms
  by (simp add: recover_secp256k1_pubkey_def secp_recover_def secp_context_def run_simps Let_def)

lemma recover_btc_eq:
  assumes "length sig = 65" and "length msg = 32"
  shows "recover_secp256k1_pubkey_btc E sig 65 msg 32 out cmp =
    run_bind (secp_recover E (sub_bytes 1 64 sig) ((uint (sig ! 0) - 27) AND 3) msg ((uint (sig ! 0) - 27) AND 4 \<noteq> 0))
      (\<lambda>bs. run_bind (wr 0 bs out) (\<lambda>out. Ret (out, word_of_nat (length bs))))"
  using assms
  by (simp add: recover_secp256k1_pubkey_btc_def secp_recover_def secp_context_def run_simps Let_def)

lemma output_blake160_eq:
  assumes "env_ok E" and "32 \<le> length temp" and "length out = 20"
  shows "output_blake160 E data temp out = Ret (blake160 E data, 20)"
proof -
  have "length (blake2b_256 E data) = 32" using assms by (simp add: env_ok_def)
  then show ?thesis
    using assms by (simp add: output_blake160_def Let_def blake160_def flip: blake2b_256_def)
qed


section \<open>The contract of a validator\<close>

text \<open>
  \<open>key_hash E sig msg\<close> is the hash of the public key that validates \<open>sig\<close> over the 32 bytes
  \<open>msg\<close>, or the error. The code computes it into the caller's buffer.
\<close>

locale signature_validator =
  fixes validate :: validate_signature_t and key_hash :: "env \<Rightarrow> bytes \<Rightarrow> bytes \<Rightarrow> bytes run"
  assumes validate_eq: "env_ok E \<Longrightarrow> unat sig_len = length sig \<Longrightarrow> length msg = 32 \<Longrightarrow> length out = 20 \<Longrightarrow>
      validate E sig sig_len msg 32 out 20 = run_bind (key_hash E sig msg) (\<lambda>h. Ret (h, 20))"
    and key_hash_length: "env_ok E \<Longrightarrow> length msg = 32 \<Longrightarrow> key_hash E sig msg = Ret h \<Longrightarrow> length h = 20"

text \<open>A validator that is memory safe and ends on every signature.\<close>

locale safe_validator = signature_validator +
  assumes key_hash_defined: "env_ok E \<Longrightarrow> length msg = 32 \<Longrightarrow> well_defined (key_hash E sig msg)"
begin

lemma validate_defined:
  "env_ok E \<Longrightarrow> unat sig_len = length sig \<Longrightarrow> length msg = 32 \<Longrightarrow> length out = 20 \<Longrightarrow>
   well_defined (validate E sig sig_len msg 32 out 20)"
  using validate_eq key_hash_defined by (auto intro: well_defined_bind)

end

lemma sig_len_iff: "unat (sig_len :: u64) = length sig \<Longrightarrow> n < 2 ^ 64 \<Longrightarrow> sig_len = word_of_nat n \<longleftrightarrow> length sig = n"
  using unat_word_of_nat [where 'a = 64, of n] by (auto simp: word_unat_eq_iff)

subsection \<open>CKB\<close>

definition ckb_key_hash :: "env \<Rightarrow> bytes \<Rightarrow> bytes \<Rightarrow> bytes run" where
  "ckb_key_hash E sig msg =
     (if length sig \<noteq> 65 then Err ERROR_INVALID_ARG
      else run_bind (secp_recover E (take 64 sig) (uint (sig ! 64)) msg True) (\<lambda>pk.
        Ret (blake160 E pk)))"

lemma validate_ckb_eq:
  assumes ok: "env_ok E" and len: "unat sig_len = length sig" and msg: "length msg = 32" and out: "length out = 20"
  shows "validate_signature_ckb E sig sig_len msg 32 out 20 = run_bind (ckb_key_hash E sig msg) (\<lambda>h. Ret (h, 20))"
proof (cases "length sig = 65")
  case False
  then have "sig_len \<noteq> 65" using sig_len_iff [OF len, of 65] by simp
  then show ?thesis using False
    by (simp add: validate_signature_ckb_def recover_secp256k1_pubkey_def ckb_key_hash_def)
next
  case True
  then have [simp]: "sig_len = 65" using sig_len_iff [OF len, of 65] by simp
  show ?thesis
    unfolding validate_signature_ckb_def ckb_key_hash_def \<open>sig_len = 65\<close> recover_eq [OF True msg]
    using True secp_recover_length [OF ok, of "take 64 sig" "uint (sig ! 64)" msg True]
      output_blake160_eq [OF ok _ out]
    by (cases "secp_recover E (take 64 sig) (uint (sig ! 64)) msg True") (simp_all add: unat_of_nat)
qed

interpretation ckb: safe_validator validate_signature_ckb ckb_key_hash
proof unfold_locales
  fix E :: env and sig msg h :: bytes
  assume ok: "env_ok E" and "length msg = 32"
  show "well_defined (ckb_key_hash E sig msg)"
    unfolding ckb_key_hash_def using secp_recover_defined [OF ok] by (auto intro: well_defined_bind)
  show "ckb_key_hash E sig msg = Ret h \<Longrightarrow> length h = 20"
    using ok by (auto simp: ckb_key_hash_def env_ok_def split: if_splits)
qed (rule validate_ckb_eq)

subsection \<open>Ethereum, EOS and Tron\<close>

definition eth_key_hash :: "env \<Rightarrow> bytes \<Rightarrow> bytes \<Rightarrow> bytes run" where
  "eth_key_hash E sig msg =
     (if length sig \<noteq> 65 then Err ERROR_INVALID_ARG
      else run_bind (secp_recover E (take 64 sig) (uint (sig ! 64)) msg False) (\<lambda>pk.
        Ret (drop 12 (keccak256 (drop 1 pk)))))"

lemma eth_address:
  assumes pk: "length pk = 65" and out: "length out = 20"
  shows "run_bind (keccak_update keccak_init a (drop 1 pk) (ucast (65 - 1 :: u64))) (\<lambda>ctx.
      run_bind (keccak_final ctx (Some pk)) (\<lambda>(_, out_pubkey).
      run_bind (rd 12 BLAKE160_SIZE (the out_pubkey)) (\<lambda>h.
      run_bind (wr 0 h out) (\<lambda>output. Ret (output, word_of_nat BLAKE160_SIZE))))) =
    Ret (drop 12 (keccak256 (drop 1 pk)), 20)"
proof -
  obtain c where c: "keccak_update keccak_init a (drop 1 pk) 64 = Ret c" "absorbed c (drop 1 pk)"
    using keccak_update_ok [OF absorbed_init, of 64 "drop 1 pk" a] pk by auto
  obtain c' where "keccak_final c (Some pk) = Ret (c', Some (keccak256 (drop 1 pk) @ drop 32 pk))"
    using keccak_final_ok [OF c(2), of pk] pk by auto
  moreover have "sub_bytes 12 20 (keccak256 (drop 1 pk) @ drop 32 pk) = drop 12 (keccak256 (drop 1 pk))"
    by (simp add: sub_bytes_def)
  ultimately show ?thesis using c(1) pk out by simp
qed

lemma validate_eth_eq:
  assumes ok: "env_ok E" and len: "unat sig_len = length sig" and msg: "length msg = 32" and out: "length out = 20"
  shows "validate_signature_eth E sig sig_len msg 32 out 20 = run_bind (eth_key_hash E sig msg) (\<lambda>h. Ret (h, 20))"
proof (cases "length sig = 65")
  case False
  then have "sig_len \<noteq> 65" using sig_len_iff [OF len, of 65] by simp
  then show ?thesis using False
    by (simp add: validate_signature_eth_def recover_secp256k1_pubkey_def eth_key_hash_def)
next
  case True
  then have [simp]: "sig_len = 65" using sig_len_iff [OF len, of 65] by simp
  show ?thesis
  proof (cases "secp_recover E (take 64 sig) (uint (sig ! 64)) msg False")
    case (Ret pk)
    then have pk: "length pk = 65" using secp_recover_length [OF ok Ret] by simp
    show ?thesis
      unfolding validate_signature_eth_def eth_key_hash_def \<open>sig_len = 65\<close> recover_eq [OF True msg] Ret
      using True pk eth_address [OF pk out, of "site_addr E EthPubkey"] by (simp add: run_simps)
  qed (simp_all add: validate_signature_eth_def eth_key_hash_def recover_eq [OF True msg] True)
qed

interpretation eth: safe_validator validate_signature_eth eth_key_hash
proof unfold_locales
  fix E :: env and sig msg h :: bytes
  assume ok: "env_ok E" and "length msg = 32"
  show "well_defined (eth_key_hash E sig msg)"
    unfolding eth_key_hash_def using secp_recover_defined [OF ok] by (auto intro: well_defined_bind)
  show "eth_key_hash E sig msg = Ret h \<Longrightarrow> length h = 20"
    by (auto simp: eth_key_hash_def split: if_splits)
qed (rule validate_eth_eq)

subsection \<open>Bitcoin, Dogecoin and Litecoin\<close>

definition btc_key_hash :: "env \<Rightarrow> bytes \<Rightarrow> bytes \<Rightarrow> bytes run" where
  "btc_key_hash E sig msg =
     (if length sig \<noteq> 65 then Err ERROR_INVALID_ARG
      else run_bind (secp_recover E (drop 1 sig) ((uint (sig ! 0) - 27) AND 3) msg ((uint (sig ! 0) - 27) AND 4 \<noteq> 0)) (\<lambda>pk.
        run_bind (md_hash E MBEDTLS_MD_SHA256 pk) (\<lambda>d. md_hash E MBEDTLS_MD_RIPEMD160 d)))"

lemma btc_address:
  assumes ok: "env_ok E" and pk: "unat n = length pk" and out: "length out = 20"
  shows "run_bind (md_string E (md_info_from_type E MBEDTLS_MD_SHA256) (pk @ junk) (unat n) (uninit E SHA256_SIZE)) (\<lambda>temp.
      run_bind (md_string E (md_info_from_type E MBEDTLS_MD_RIPEMD160) temp SHA256_SIZE temp) (\<lambda>temp.
      run_bind (rd 0 BLAKE160_SIZE temp) (\<lambda>h.
      run_bind (wr 0 h out) (\<lambda>output. Ret (output, word_of_nat BLAKE160_SIZE))))) =
    run_bind (md_hash E MBEDTLS_MD_SHA256 pk) (\<lambda>d. run_bind (md_hash E MBEDTLS_MD_RIPEMD160 d) (\<lambda>h. Ret (h, 20)))"
proof -
  have md: "md_ok E" using ok by (simp add: env_ok_def)
  have 1: "md_string E (md_info_from_type E MBEDTLS_MD_SHA256) (pk @ junk) (unat n) (uninit E 32) =
      md_hash E MBEDTLS_MD_SHA256 pk"
    using md_string_full [OF md, of "unat n" "pk @ junk" "uninit E 32" MBEDTLS_MD_SHA256] pk
    by (simp add: md_size_def)
  show ?thesis
    unfolding 1
  proof (rule run_bind_cong [OF refl])
    fix d assume "md_hash E MBEDTLS_MD_SHA256 pk = Ret d"
    then have d: "length d = 32" using md_hash_length [OF md] by (simp add: md_size_def)
    show "run_bind (md_string E (md_info_from_type E MBEDTLS_MD_RIPEMD160) d SHA256_SIZE d) (\<lambda>temp.
        run_bind (rd 0 BLAKE160_SIZE temp) (\<lambda>h.
        run_bind (wr 0 h out) (\<lambda>output. Ret (output, word_of_nat BLAKE160_SIZE)))) =
      run_bind (md_hash E MBEDTLS_MD_RIPEMD160 d) (\<lambda>h. Ret (h, 20))"
      using md_string_eq [of 32 d E MBEDTLS_MD_RIPEMD160 d] d out
        md_hash_length [OF md, of MBEDTLS_MD_RIPEMD160 d]
      by (cases "md_hash E MBEDTLS_MD_RIPEMD160 d") (simp_all add: md_size_def)
  qed
qed

lemma validate_btc_eq:
  assumes ok: "env_ok E" and len: "unat sig_len = length sig" and msg: "length msg = 32" and out: "length out = 20"
  shows "validate_signature_btc E sig sig_len msg 32 out 20 = run_bind (btc_key_hash E sig msg) (\<lambda>h. Ret (h, 20))"
proof (cases "length sig = 65")
  case False
  then have "sig_len \<noteq> 65" using sig_len_iff [OF len, of 65] by simp
  then show ?thesis using False
    by (simp add: validate_signature_btc_def recover_secp256k1_pubkey_btc_def btc_key_hash_def)
next
  case True
  then have [simp]: "sig_len = 65" using sig_len_iff [OF len, of 65] by simp
  have sub: "sub_bytes 1 64 sig = drop 1 sig" using True by (simp add: sub_bytes_def)
  let ?r = "secp_recover E (drop 1 sig) ((uint (sig ! 0) - 27) AND 3) msg ((uint (sig ! 0) - 27) AND 4 \<noteq> 0)"
  show ?thesis
  proof (cases ?r)
    case (Ret pk)
    then have pk: "length pk \<le> 65" using secp_recover_length [OF ok Ret] by (simp split: if_splits)
    then have "unat (word_of_nat (length pk) :: u64) = length pk" by (intro unat_word_of_nat) simp
    from btc_address [OF ok this out, of "drop (length pk) (uninit E 65)"] show ?thesis
      unfolding validate_signature_btc_def btc_key_hash_def \<open>sig_len = 65\<close> recover_btc_eq [OF True msg] sub Ret
      using True pk by (simp add: run_simps)
  qed (simp_all add: validate_signature_btc_def btc_key_hash_def recover_btc_eq [OF True msg] sub [unfolded One_nat_def] True)
qed

interpretation btc: safe_validator validate_signature_btc btc_key_hash
proof unfold_locales
  fix E :: env and sig msg h :: bytes
  assume ok: "env_ok E" and "length msg = 32"
  show "well_defined (btc_key_hash E sig msg)"
    unfolding btc_key_hash_def using secp_recover_defined [OF ok] by (auto intro!: well_defined_bind)
  show "btc_key_hash E sig msg = Ret h \<Longrightarrow> length h = 20"
    using ok md_hash_length [of E MBEDTLS_MD_RIPEMD160 _ h]
    by (auto simp: btc_key_hash_def env_ok_def md_size_def split: if_splits)
qed (rule validate_btc_eq)


subsection \<open>Schnorr\<close>

definition schnorr_key_hash :: "env \<Rightarrow> bytes \<Rightarrow> bytes \<Rightarrow> bytes run" where
  "schnorr_key_hash E sig msg =
     (if length sig \<noteq> 96 then Err ERROR_INVALID_ARG
      else
        run_bind (secp_context E) (\<lambda>ctx.
        run_bind (secp_call (xonly_pubkey_parse E (take 32 sig))) (\<lambda>p.
        run_bind (or_fail ERROR_SCHNORR p) (\<lambda>pk.
        run_bind (secp_call (schnorrsig_verify E ctx (drop 32 sig) msg pk)) (\<lambda>success.
        if success then Ret (blake160 E (take 32 sig)) else Err ERROR_SCHNORR)))))"

lemma validate_schnorr_eq:
  assumes ok: "env_ok E" and len: "unat sig_len = length sig" and msg: "length msg = 32" and out: "length out = 20"
  shows "validate_signature_schnorr E sig sig_len msg 32 out 20 = run_bind (schnorr_key_hash E sig msg) (\<lambda>h. Ret (h, 20))"
proof (cases "length sig = 96")
  case False
  then have "sig_len \<noteq> 96" using sig_len_iff [OF len, of 96] by simp
  then show ?thesis using False by (simp add: validate_signature_schnorr_def schnorr_key_hash_def)
next
  case True
  then have sl: "sig_len = 96" using sig_len_iff [OF len, of 96] by simp
  have "sub_bytes 32 64 sig = drop 32 sig" using True by (simp add: sub_bytes_def)
  moreover have "output_blake160 E d (replicate 32 0) out = Ret (blake160 E d, 20)" for d
    by (rule output_blake160_eq [OF ok _ out]) simp
  ultimately show ?thesis
    using True msg unfolding sl validate_signature_schnorr_def schnorr_key_hash_def secp_context_def
    by (auto simp: run_simps intro!: run_bind_cong)
qed

interpretation schnorr: safe_validator validate_signature_schnorr schnorr_key_hash
proof unfold_locales
  fix E :: env and sig msg h :: bytes
  assume ok: "env_ok E" and "length msg = 32"
  show "well_defined (schnorr_key_hash E sig msg)"
    unfolding schnorr_key_hash_def using secp_context_defined [OF ok] by (auto intro!: well_defined_bind)
  show "schnorr_key_hash E sig msg = Ret h \<Longrightarrow> length h = 20"
    using ok by (auto simp: schnorr_key_hash_def env_ok_def split: if_splits)
qed (rule validate_schnorr_eq)

subsection \<open>Monero\<close>

definition monero_message :: "bytes \<Rightarrow> bytes \<Rightarrow> bytes \<Rightarrow> bytes" where
  "monero_message spend view msg =
     MONERO_HASH_KEY_MESSAGE_SIGNING @ spend @ view @ [0] @ varint (length msg) @ msg"

definition monero_verify :: "env \<Rightarrow> bytes \<Rightarrow> bytes \<Rightarrow> bytes \<Rightarrow> bool" where
  "monero_verify E sig hash pk \<longleftrightarrow>
     (let c = take 32 sig; r = sub_bytes 32 32 sig;
          (ok, point) = ge_frombytes_negate_vartime E pk;
          comm = ge_tobytes E (ge_double_scalarmult_vartime E (sc_sub E (sc_0 E) c) point r) in
      sc_check E c = 0 \<and> sc_check E r = 0 \<and> sc_isnonzero E c \<noteq> 0 \<and> ok = 0 \<and>
      comm \<noteq> 1 # replicate 31 0 \<and>
      sc_isnonzero E (sc_sub E (sc_reduce32 E (keccak256 (hash @ pk @ comm))) c) = 0)"

definition monero_key_hash :: "env \<Rightarrow> bytes \<Rightarrow> bytes \<Rightarrow> bytes run" where
  "monero_key_hash E sig msg =
     (if length sig \<noteq> 129 \<or> sig ! 64 \<noteq> 0 then Err ERROR_INVALID_ARG
      else let spend = sub_bytes 65 32 sig; view = drop 97 sig in
        if monero_verify E sig (keccak256 (monero_message spend view msg)) spend
        then Ret (blake160 E (drop 64 sig)) else Err ERROR_SPAWN_INVALID_SIG)"

lemma length_key: "length MONERO_HASH_KEY_MESSAGE_SIGNING = 23"
  by (simp add: MONERO_HASH_KEY_MESSAGE_SIGNING_def ascii_def)

lemma monero_message_hash_eq:
  assumes "length spend = 32" and "length view = 32" and "length msg = 32" and "length hash = 32"
  shows "get_monero_message_hash E hash spend view 0 msg 32 = Ret (keccak256 (monero_message spend view msg))"
proof -
  let ?K = MONERO_HASH_KEY_MESSAGE_SIGNING
  obtain c1 where c1: "keccak_update keccak_init (site_addr E MoneroKey) ?K 23 = Ret c1" "absorbed c1 ?K"
    using keccak_update_ok [OF absorbed_init, of 23 ?K] length_key by auto
  obtain c2 where c2: "keccak_update c1 (site_addr E MoneroSpend) spend 32 = Ret c2" "absorbed c2 (?K @ spend)"
    using keccak_update_ok [OF c1(2), of 32 spend] assms by auto
  obtain c3 where c3: "keccak_update c2 (site_addr E MoneroView) view 32 = Ret c3" "absorbed c3 ((?K @ spend) @ view)"
    using keccak_update_ok [OF c2(2), of 32 view] assms by auto
  obtain c4 where c4: "keccak_update c3 (site_addr E MoneroMode) [0] 1 = Ret c4" "absorbed c4 (((?K @ spend) @ view) @ [0])"
    using keccak_update_ok [OF c3(2), of 1 "[0]"] by auto
  have v: "varint (unat (32 :: u64)) = [32]" by (simp add: varint.simps)
  let ?len = "[32] @ drop 1 (uninit E 10)"
  have w: "write_varint (uninit E 10) 32 = Ret (?len, 1)"
    using write_varint_eq [of "uninit E 10" 32] unfolding v by simp
  obtain c5 where c5: "keccak_update c4 (site_addr E MoneroLen) ?len 1 = Ret c5"
    "absorbed c5 ((((?K @ spend) @ view) @ [0]) @ [32])"
    using keccak_update_ok [OF c4(2), of 1 ?len] by auto
  obtain c6 where c6: "keccak_update c5 (site_addr E MoneroMsg) msg 32 = Ret c6"
    "absorbed c6 (((((?K @ spend) @ view) @ [0]) @ [32]) @ msg)"
    using keccak_update_ok [OF c5(2), of 32 msg] assms by auto
  obtain c7 where c7: "keccak_final c6 (Some hash) = Ret (c7, Some (keccak256 (((((?K @ spend) @ view) @ [0]) @ [32]) @ msg)))"
    using keccak_final_ok [OF c6(2), of hash] assms by auto
  have m: "(((((?K @ spend) @ view) @ [0]) @ [32]) @ msg) = monero_message spend view msg"
    using v assms by (simp add: monero_message_def)
  show ?thesis
    unfolding get_monero_message_hash_def using c1(1) c2(1) c3(1) c4(1) w c5(1) c6(1) c7
    unfolding m by simp
qed


lemma hash_to_scalar_eq:
  assumes "length hash = 32" and "length pk = 32" and "length comm = 32"
  shows "monero_hash_to_scalar E hash 32 pk comm = Ret (sc_reduce32 E (keccak256 (hash @ pk @ comm)))"
proof -
  obtain c1 where c1: "keccak_update keccak_init (site_addr E ScalarMsg) hash 32 = Ret c1" "absorbed c1 hash"
    using keccak_update_ok [OF absorbed_init, of 32 hash] assms by auto
  obtain c2 where c2: "keccak_update c1 (site_addr E ScalarKey) pk 32 = Ret c2" "absorbed c2 (hash @ pk)"
    using keccak_update_ok [OF c1(2), of 32 pk] assms by auto
  obtain c3 where c3: "keccak_update c2 (site_addr E ScalarComm) comm 32 = Ret c3" "absorbed c3 (hash @ pk @ comm)"
    using keccak_update_ok [OF c2(2), of 32 comm] assms by auto
  obtain c4 where c4: "keccak_final c3 (Some (uninit E 200)) =
      Ret (c4, Some (keccak256 (hash @ pk @ comm) @ drop 32 (uninit E 200)))"
    using keccak_final_ok [OF c3(2), of "uninit E 200"] by auto
  show ?thesis
    using c1(1) c2(1) c3(1) c4 by (simp add: monero_hash_to_scalar_def)
qed

lemma verify_monero_eq:
  assumes ok: "env_ok E" and "64 \<le> length sig" and "length hash = 32" and "length pk = 32"
  shows "ed25519_verify_monero E sig hash 32 pk = Ret (if monero_verify E sig hash pk then 1 else 0)"
proof -
  obtain r point where g: "ge_frombytes_negate_vartime E pk = (r, point)" by force
  have "length (ge_tobytes E p) = 32" for p using ok by (simp add: env_ok_def ed_ok_def)
  then show ?thesis
    using assms g hash_to_scalar_eq [OF assms(3,4)]
    by (simp add: ed25519_verify_monero_def monero_verify_def Let_def)
qed

lemma validate_monero_eq:
  assumes ok: "env_ok E" and len: "unat sig_len = length sig" and msg: "length msg = 32" and out: "length out = 20"
  shows "validate_signature_monero E sig sig_len msg 32 out 20 = run_bind (monero_key_hash E sig msg) (\<lambda>h. Ret (h, 20))"
proof (cases "length sig = 129")
  case False
  then have "sig_len \<noteq> 129" using sig_len_iff [OF len, of 129] by simp
  then show ?thesis using False by (simp add: validate_signature_monero_def monero_key_hash_def)
next
  case True
  then have sl: "sig_len = 129" using sig_len_iff [OF len, of 129] by simp
  have subs: "sub_bytes 97 32 sig = drop 97 sig" "sub_bytes 64 65 sig = drop 64 sig"
    using True by (simp_all add: sub_bytes_def)
  let ?spend = "sub_bytes 65 32 sig" and ?view = "drop 97 sig"
  have h: "get_monero_message_hash E (uninit E 32) ?spend ?view 0 msg 32 =
      Ret (keccak256 (monero_message ?spend ?view msg))"
    using True msg by (intro monero_message_hash_eq) simp_all
  have v: "ed25519_verify_monero E sig (keccak256 (monero_message ?spend ?view msg)) 32 ?spend =
      Ret (if monero_verify E sig (keccak256 (monero_message ?spend ?view msg)) ?spend then 1 else 0)"
    using True by (intro verify_monero_eq [OF ok]) simp_all
  show ?thesis
    using True h v output_blake160_eq [OF ok _ out, of "replicate 32 0" "drop 64 sig"]
    by (simp add: sl validate_signature_monero_def monero_key_hash_def subs Let_def)
qed

interpretation monero: safe_validator validate_signature_monero monero_key_hash
proof unfold_locales
  fix E :: env and sig msg h :: bytes
  assume ok: "env_ok E" and "length msg = 32"
  show "well_defined (monero_key_hash E sig msg)"
    by (simp add: monero_key_hash_def Let_def)
  show "monero_key_hash E sig msg = Ret h \<Longrightarrow> length h = 20"
    using ok by (auto simp: monero_key_hash_def env_ok_def Let_def split: if_splits)
qed (rule validate_monero_eq)

subsection \<open>Cardano\<close>

definition cardano_key_hash :: "nat \<Rightarrow> nanocbor_value \<Rightarrow> env \<Rightarrow> bytes \<Rightarrow> bytes \<Rightarrow> bytes run" where
  "cardano_key_hash fuel u E sig msg =
     run_bind (run_catch (get_cardano_data fuel E sig (word_of_nat (length sig)) u
         \<lparr>ckb_sign_msg = uninit E 32, public_key = uninit E 32, signature = uninit E 64,
          sign_message = uninit E 32\<rparr>) (\<lambda>_. Err ERROR_INVALID_ARG)) (\<lambda>d.
     if ckb_sign_msg d \<noteq> msg then Err ERROR_INVALID_ARG
     else if ed25519_verify E (signature d) (sign_message d) (public_key d) \<noteq> 1 then Err ERROR_WRONG_STATE
     else Ret (blake160 E (public_key d)))"

lemma get_cardano_data_msg_length:
  assumes eq: "get_cardano_data fuel E data data_len u out = Ret d"
  shows "length (ckb_sign_msg d) = 32"
proof -
  obtain v w o1 o2 where s: "get_ckb_sign_hash fuel data v u out = Ret o1"
    "get_sign_data fuel data w u o1 = Ret o2" "get_cardano_sign_message E data data_len o2 = Ret d"
    using eq by (auto simp: get_cardano_data_def Let_def)
  have "ckb_sign_msg d = ckb_sign_msg o2"
    using s(3) by (auto simp: get_cardano_sign_message_def Let_def case_prod_beta)
  then show ?thesis
    using get_ckb_sign_hash_slice(1) [OF s(1)] get_sign_data_slices(3) [OF s(2)] slice_of_length by simp
qed

lemma validate_cardano_eq:
  assumes ok: "env_ok E" and len: "unat sig_len = length sig" and msg: "length msg = 32" and out: "length out = 20"
  shows "validate_signature_cardano fuel u E sig sig_len msg 32 out 20 =
    run_bind (cardano_key_hash fuel u E sig msg) (\<lambda>h. Ret (h, 20))"
proof -
  let ?d = "run_catch (get_cardano_data fuel E sig sig_len u
         \<lparr>ckb_sign_msg = uninit E 32, public_key = uninit E 32, signature = uninit E 64,
          sign_message = uninit E 32\<rparr>) (\<lambda>_. Err ERROR_INVALID_ARG)"
  have sl: "word_of_nat (length sig) = sig_len" using len by (rule word_of_nat_eqI)
  have o20: "output_blake160 E d (replicate 32 0) out = Ret (blake160 E d, 20)" for d
    by (rule output_blake160_eq [OF ok _ out]) simp
  show ?thesis
  proof (cases ?d)
    case (Ret d)
    then have "length (ckb_sign_msg d) = 32"
      by (auto dest: get_cardano_data_msg_length)
    then show ?thesis
      using Ret msg o20 by (auto simp: validate_signature_cardano_def cardano_key_hash_def sl Let_def)
  qed (simp_all add: validate_signature_cardano_def cardano_key_hash_def sl)
qed

interpretation cardano: signature_validator "validate_signature_cardano fuel u" "cardano_key_hash fuel u" for fuel u
proof unfold_locales
  fix E :: env and sig msg h :: bytes
  assume ok: "env_ok E" and "length msg = 32"
  show "cardano_key_hash fuel u E sig msg = Ret h \<Longrightarrow> length h = 20"
    using ok by (auto simp: cardano_key_hash_def env_ok_def split: if_splits)
qed (rule validate_cardano_eq)


subsection \<open>Solana\<close>

definition solana_len :: "bytes \<Rightarrow> u64" where
  "solana_len sig = ucast (sig ! 0) OR push_bit 8 (ucast (sig ! 1))"

definition solana_key_hash :: "env \<Rightarrow> bytes \<Rightarrow> bytes \<Rightarrow> bytes run" where
  "solana_key_hash E sig msg =
     (if length sig \<noteq> 512 \<or> solana_len sig > 510 then Err ERROR_INVALID_ARG
      else let n = solana_len sig - 96; pk = sub_bytes 66 32 sig in
        run_bind (validate_solana_signed_message sig 98 n 66 msg) (\<lambda>_.
        run_bind (rd 98 (unat n) sig) (\<lambda>signed_msg.
        if ed25519_verify E (sub_bytes 2 64 sig) signed_msg pk \<noteq> 1 then Err ERROR_WRONG_STATE
        else Ret (blake160 E pk))))"

lemma validate_solana_eq:
  assumes ok: "env_ok E" and len: "unat sig_len = length sig" and msg: "length msg = 32" and out: "length out = 20"
  shows "validate_signature_solana E sig sig_len msg 32 out 20 = run_bind (solana_key_hash E sig msg) (\<lambda>h. Ret (h, 20))"
proof (cases "length sig = 512")
  case False
  then have "sig_len \<noteq> 512" using sig_len_iff [OF len, of 512] by simp
  then show ?thesis using False by (simp add: validate_signature_solana_def solana_key_hash_def)
next
  case True
  then have sl: "sig_len = 512" using sig_len_iff [OF len, of 512] by simp
  have n: "ucast (sig ! 0) OR push_bit 8 (ucast (sig ! 1)) = solana_len sig"
    by (simp add: solana_len_def)
  have o20: "output_blake160 E d (replicate 32 0) out = Ret (blake160 E d, 20)" for d
    by (rule output_blake160_eq [OF ok _ out]) simp
  show ?thesis
  proof (cases "solana_len sig > 510")
    case big: True
    then have "\<not> solana_len sig \<le> 510" by simp
    then show ?thesis using True big
      by (simp add: sl validate_signature_solana_def solana_key_hash_def n [unfolded One_nat_def] Let_def)
  next
    case False
    then have le: "solana_len sig \<le> 510" by simp
    have d: "solana_len sig - 64 - 32 = solana_len sig - 96" by simp
    show ?thesis
      using True False le o20 d
      by (auto simp: sl validate_signature_solana_def solana_key_hash_def n [unfolded One_nat_def] Let_def
          run_simps intro!: run_bind_cong)
  qed
qed

interpretation solana: signature_validator validate_signature_solana solana_key_hash
proof unfold_locales
  fix E :: env and sig msg h :: bytes
  assume ok: "env_ok E" and "length msg = 32"
  show "solana_key_hash E sig msg = Ret h \<Longrightarrow> length h = 20"
    using ok by (auto simp: solana_key_hash_def env_ok_def Let_def split: if_splits)
qed (rule validate_solana_eq)

lemma read_varint_forward: "read_varint_loop buf ptr n acc is = Ret (q, k) \<Longrightarrow> ptr \<le> q"
proof (induction "is" arbitrary: ptr acc)
  case (Cons i js)
  then have "q = ptr + 1 \<or> (\<exists>acc'. read_varint_loop buf (ptr + 1) n acc' js = Ret (q, k))"
    by (auto simp: Let_def split: if_splits)
  then show ?case
  proof (elim disjE exE)
    fix acc' assume "read_varint_loop buf (ptr + 1) n acc' js = Ret (q, k)"
    then have "ptr + 1 \<le> q" by (rule Cons.IH)
    then show ?thesis by simp
  qed simp
qed simp

lemma signer_loop_Ret:
  "solana_signer_loop sig p pk is = Ret x \<Longrightarrow>
   \<exists>i \<in> set is. p + i * 32 + 32 \<le> length sig \<and> sub_bytes (p + i * 32) 32 sig = sub_bytes pk 32 sig"
  by (induction "is") (auto simp: memcmp_eq_Ret_iff split: if_splits)

lemma signed_message_Ret:
  assumes "validate_solana_signed_message sig off n pk blockhash = Ret x"
  shows "\<exists>ptr num_keys i. n > 35 \<and> read_varint_u16 sig (off + 3) (n - 3) = Ret (ptr, num_keys) \<and>
    (let keys = ptr - (off + 3) + 32 * unat num_keys in
      n > 3 + word_of_nat keys + 32 \<and> sub_bytes (off + 3 + keys) 32 sig = take 32 blockhash) \<and>
    i < unat (sig ! off) \<and> sub_bytes (ptr + i * 32) 32 sig = sub_bytes pk 32 sig"
  using assms
  by (auto simp: validate_solana_signed_message_def memcmp_eq_Ret_iff Let_def dest!: signer_loop_Ret)

text \<open>What is read from the signed bytes lies inside of them: \<open>j\<close> is the size of the number of keys.\<close>

lemma solana_key_hash_Ret:
  assumes "solana_key_hash E sig msg = Ret h" and "length msg = 32"
  shows "length sig = 512 \<and> 96 \<le> unat (solana_len sig) \<and> unat (solana_len sig) \<le> 510 \<and>
    (let pk = sub_bytes 66 32 sig; signed = sub_bytes 98 (unat (solana_len sig) - 96) sig in
       ed25519_verify E (sub_bytes 2 64 sig) signed pk = 1 \<and> h = blake160 E pk \<and>
       (\<exists>j num_keys i. read_varint_u16 sig 101 (solana_len sig - 99) = Ret (101 + j, num_keys) \<and>
          3 + j + 32 * unat num_keys + 32 < length signed \<and> sub_bytes (3 + j + 32 * unat num_keys) 32 signed = msg \<and>
          i < unat (signed ! 0) \<and> sub_bytes (101 + j + 32 * i) 32 sig = pk \<and>
          (i < unat num_keys \<longrightarrow> sub_bytes (3 + j + 32 * i) 32 signed = pk)))"
proof -
  let ?n = "solana_len sig - 96" and ?pk = "sub_bytes 66 32 sig"
  have eq: "length sig = 512" "\<not> solana_len sig > 510" "98 + unat ?n \<le> 512"
    "validate_solana_signed_message sig 98 ?n 66 msg = Ret ()"
    "ed25519_verify E (sub_bytes 2 64 sig) (sub_bytes 98 (unat ?n) sig) ?pk = 1" "h = blake160 E ?pk"
    using assms(1) by (auto simp: solana_key_hash_def Let_def split: if_splits)
  have le: "unat (solana_len sig) \<le> 510" using eq(2) by (simp add: not_less word_le_nat_alt)
  have ge: "96 \<le> unat (solana_len sig)"
  proof (rule ccontr)
    assume "\<not> ?thesis"
    then have "unat ?n = unat (solana_len sig) + 2 ^ 64 - 96" by (simp add: unat_sub_if')
    then show False using eq(3) by simp
  qed
  then have n: "unat ?n = unat (solana_len sig) - 96" by (simp add: unat_sub word_le_nat_alt)
  define signed where "signed = sub_bytes 98 (unat ?n) sig"
  have len: "length signed = unat ?n" using eq(1,3) by (simp add: signed_def)
  have inner: "sub_bytes k m signed = sub_bytes (98 + k) m sig" if "k + m \<le> unat ?n" for k m
    using that by (simp add: signed_def sub_bytes_def drop_take min_def ac_simps)
  from signed_message_Ret [OF eq(4)] obtain ptr num_keys i where
    r: "read_varint_u16 sig 101 (solana_len sig - 99) = Ret (ptr, num_keys)"
      "?n > 3 + word_of_nat (ptr - 101 + 32 * unat num_keys) + 32" "?n > 35"
      "sub_bytes (101 + (ptr - 101 + 32 * unat num_keys)) 32 sig = msg"
      "i < unat (sig ! 98)" "sub_bytes (ptr + i * 32) 32 sig = ?pk"
    using assms(2) by (auto simp: Let_def)
  have n3: "unat (solana_len sig - 99) = unat (solana_len sig) - 99" "35 < unat ?n"
    using r(3) n by (simp_all add: unat_sub word_le_nat_alt word_less_nat_alt)
  then have "101 + unat (solana_len sig - 99) \<le> length sig" using le eq(1) by simp
  from read_varint_safe [OF this] r(1) obtain j where j: "ptr = 101 + j" "j \<le> 3" by auto
  have "unat num_keys < 65536" using unsigned_less [of num_keys, where ?'a = nat] by simp
  then have small: "j + 32 * unat num_keys < 4194304" using j(2) by linarith
  then have "unat (word_of_nat (j + 32 * unat num_keys) :: u64) = j + 32 * unat num_keys" by (intro unat_word_of_nat) simp
  then have "unat (3 + word_of_nat (j + 32 * unat num_keys) + 32 :: u64) = 3 + (j + 32 * unat num_keys) + 32"
    using small by (simp add: unat_word_ariths)
  then have bound: "3 + j + 32 * unat num_keys + 32 < unat ?n" using r(2) j(1) by (simp add: word_less_nat_alt)
  have "sub_bytes (3 + j + 32 * unat num_keys) 32 signed = msg"
    using inner [of "3 + j + 32 * unat num_keys" 32] bound r(4) j(1) by (simp add: ac_simps)
  moreover have "signed ! 0 = sig ! 98" using n3(2) eq(1,3) by (simp add: signed_def sub_bytes_def)
  moreover have "sub_bytes (3 + j + 32 * i) 32 signed = ?pk" if "i < unat num_keys"
    using inner [of "3 + j + 32 * i" 32] that bound r(6) j(1) by (simp add: ac_simps)
  moreover have "sub_bytes (101 + j + 32 * i) 32 sig = ?pk" using r(6) j(1) by (simp add: ac_simps)
  ultimately show ?thesis
    using r(1,5) eq le ge bound len j(1) unfolding n [symmetric] signed_def [symmetric] Let_def
    by (intro conjI exI [of _ j] exI [of _ num_keys] exI [of _ i]) simp_all
qed


text \<open>The search for the key: a hit inside of the signature is found, and without one the search reads behind the end
  if a position lies there.\<close>

lemma signer_loop_hit:
  assumes "i < ns" and "p + i * 32 + 32 \<le> length sig" and "sub_bytes (p + i * 32) 32 sig = sub_bytes pk 32 sig"
    and "pk + 32 \<le> length sig"
  shows "solana_signer_loop sig p pk [0..<ns] = Ret ()"
proof -
  have "solana_signer_loop sig p pk [m..<ns] = Ret ()" if "m \<le> i" for m
    using that
  proof (induction "i - m" arbitrary: m)
    case 0
    then show ?case using assms by (simp add: upt_conv_Cons)
  next
    case (Suc d)
    then have "solana_signer_loop sig p pk [Suc m..<ns] = Ret ()" by simp
    moreover have "p + m * 32 + 32 \<le> length sig" using Suc.prems assms(2) by simp
    ultimately show ?case using Suc.prems assms by (simp add: upt_conv_Cons)
  qed
  then show ?thesis by simp
qed

lemma signer_loop_overrun:
  assumes "i \<in> set is" and "length sig < p + i * 32 + 32" and "pk + 32 \<le> length sig"
    and "\<And>i. i \<in> set is \<Longrightarrow> p + i * 32 + 32 \<le> length sig \<Longrightarrow> sub_bytes (p + i * 32) 32 sig \<noteq> sub_bytes pk 32 sig"
  shows "solana_signer_loop sig p pk is = Fault"
  using assms
proof (induction "is")
  case (Cons j js)
  show ?case
  proof (cases "p + j * 32 + 32 \<le> length sig")
    case True
    then have "i \<in> set js" using Cons.prems(1,2) by auto
    then have "solana_signer_loop sig p pk js = Fault" using Cons by simp
    then show ?thesis using True Cons.prems(3,4) by simp
  next
    case False
    then show ?thesis by (simp add: memcmp_eq_def rd_def)
  qed
qed simp

lemma signed_message_to_signers:
  assumes len: "length sig = 512" "length msg = 32" "unat (solana_len sig) \<le> 510"
    and rv: "read_varint_u16 sig 101 (solana_len sig - 99) = Ret (ptr, k)"
    and guard: "unat (solana_len sig) < 96 \<or> ptr + 32 * unat k + 32 < 98 + (unat (solana_len sig) - 96)"
    and hash: "ptr + 32 * unat k + 32 \<le> 512" "sub_bytes (ptr + 32 * unat k) 32 sig = msg"
  shows "validate_solana_signed_message sig 98 (solana_len sig - 96) 66 msg =
    solana_signer_loop sig ptr 66 [0..<unat (sig ! 98)]"
proof -
  let ?n = "solana_len sig - 96"
  have ptr: "101 \<le> ptr" by (rule read_varint_forward [OF rv [unfolded read_varint_u16_def]])
  let ?size = "ptr - 101 + 32 * unat k"
  have small: "?size < 512" using hash(1) ptr by linarith
  then have "unat (word_of_nat ?size :: u64) = ?size" by (intro unat_word_of_nat) simp
  then have size: "unat (3 + word_of_nat ?size + 32 :: u64) = ?size + 35" using small by (simp add: unat_word_ariths)
  have "?size + 35 < unat ?n"
  proof (cases "unat (solana_len sig) < 96")
    case True
    then have "unat ?n = unat (solana_len sig) + 2 ^ 64 - 96" by (simp add: unat_sub_if')
    then show ?thesis using small by simp
  next
    case False
    then have "unat ?n = unat (solana_len sig) - 96" by (simp add: unat_sub word_le_nat_alt)
    then show ?thesis using guard ptr False by linarith
  qed
  then have "?n > 3 + word_of_nat ?size + 32" "?n > 35" using size by (simp_all add: word_less_nat_alt)
  moreover have "98 + 3 + ?size = ptr + 32 * unat k" using ptr by simp
  ultimately show ?thesis
    using rv len hash by (simp add: validate_solana_signed_message_def Let_def CHECK2_def)
qed

section \<open>Properties\<close>

text \<open>C12: A Cardano signature is accepted only if the Ed25519 signature in it holds, under the key in it, for the
  digest of the bytes without the first and the last 105; the output is the hash of that key. The message
  that is being verified occurs in the structure, and it is bound to what was signed: if the signed bytes begin
  as the body of a Cardano transaction does (a map with the inputs under the key 0 first, heads of one byte), then the message is
  the transaction hash of its first input, whatever the attacker puts around the signed bytes.\<close>

theorem cardano_accepts_only_signed:
  assumes "env_ok E" and "unat sig_len = length sig" and "length msg = 32" and "length out = 20"
    and "validate_signature_cardano fuel u E sig sig_len msg 32 out 20 = Ret (h, n)"
  shows "\<exists>pk sg. slice_of 32 sig pk \<and> slice_of 64 sig sg \<and> slice_of 32 sig msg \<and> 106 \<le> length sig \<and>
    ed25519_verify E sg (cardano_digest E (sub_bytes 1 (length sig - 106) sig)) pk = 1 \<and>
    h = blake160 E pk \<and> n = 20 \<and>
    (\<forall>tx. length sig < 2 ^ 31 \<and> first_input (sub_bytes 1 (length sig - 106) sig) tx \<longrightarrow> msg = tx)"
proof -
  let ?o = "\<lparr>ckb_sign_msg = uninit E 32, public_key = uninit E 32, signature = uninit E 64, sign_message = uninit E 32\<rparr>"
  obtain d where d: "get_cardano_data fuel E sig sig_len u ?o = Ret d" "ckb_sign_msg d = msg"
    "ed25519_verify E (signature d) (sign_message d) (public_key d) = 1" "h = blake160 E (public_key d)" "n = 20"
    using assms(5) cardano.validate_eq [OF assms(1-4), of fuel u] word_of_nat_eqI [OF assms(2)]
    by (auto simp: cardano_key_hash_def split: if_splits)
  have "blake2b_ok E" using assms(1) by (simp add: env_ok_def)
  note fields = get_cardano_data_Ret [OF d(1) assms(2) this]
  have "length (sign_message ?o) = 32" using assms(1) by (simp add: env_ok_def)
  note fields = fields [OF this]
  have "msg = tx" if "length sig < 2 ^ 31" "first_input (sub_bytes 1 (length sig - 106) sig) tx" for tx
  proof -
    have "sig = (sig ! 0) # sub_bytes 1 (length sig - 106) sig @ drop (Suc (length sig - 106)) sig"
      using fields by (cases sig) (auto simp: sub_bytes_def)
    from cardano_data_first_input [OF d(1) assms(2) that(1) this that(2)] show ?thesis using d(2) by simp
  qed
  then show ?thesis using fields d by auto
qed

theorem cardano_accepts_only_signed_witness:
  "(\<exists>pk sg. slice_of 32 cardano_example pk \<and> slice_of 64 cardano_example sg \<and>
    slice_of 32 cardano_example (replicate 32 9) \<and> 106 \<le> length cardano_example \<and>
    ed25519_verify example_env sg (cardano_digest example_env (sub_bytes 1 (length cardano_example - 106) cardano_example)) pk = 1 \<and>
    replicate 20 7 = blake160 example_env pk \<and> (20 :: u64) = 20 \<and>
    (\<forall>tx. length cardano_example < 2 ^ 31 \<and> first_input (sub_bytes 1 (length cardano_example - 106) cardano_example) tx \<longrightarrow>
      replicate 32 9 = tx)) \<and>
   length cardano_example < 2 ^ 31 \<and> first_input (sub_bytes 1 (length cardano_example - 106) cardano_example) (replicate 32 9)"
proof (rule conjI [OF cardano_accepts_only_signed [OF example_env_ok]])
  show "unat (145 :: u64) = length cardano_example" by (simp add: cardano_example_def)
  show "validate_signature_cardano 146 empty_value example_env cardano_example 145 (replicate 32 9) 32 (replicate 20 0) 20 =
      Ret (replicate 20 7, 20)"
    by code_simp
  have "sub_bytes 1 (length cardano_example - 106) cardano_example =
      0xA1 # 0x00 # 0x81 # 0x82 # 0x58 # 0x20 # replicate 32 9 @ [0x00]" by code_simp
  then show "length cardano_example < 2 ^ 31 \<and>
      first_input (sub_bytes 1 (length cardano_example - 106) cardano_example) (replicate 32 9)"
    unfolding first_input_def
    by (intro conjI exI [of _ "0xA1"] exI [of _ "0x81"] exI [of _ "0x82"] exI [of _ "[0x00]"])
      (simp_all add: short_head_def major_type_def head_size_def cardano_example_def)
qed simp_all

text \<open>C14: A Solana signature is accepted only if its length field is between 96 and 510 and the Ed25519 signature
  holds, under the key in the wrapper, for the signed bytes; the output is the hash of that key. The message that is
  being verified is the block hash at its place inside of these signed bytes, behind the account keys that they
  announce, and the key is found at one of the positions that their first byte counts as signers; if that
  position is one of the account keys (which the code does not check), the key is part of the signed bytes too.\<close>

theorem solana_accepts_only_signed:
  assumes "env_ok E" and "unat sig_len = length sig" and "length msg = 32" and "length out = 20"
    and "validate_signature_solana E sig sig_len msg 32 out 20 = Ret (h, n)"
  shows "length sig = 512 \<and> 96 \<le> unat (solana_len sig) \<and> unat (solana_len sig) \<le> 510 \<and>
    (let pk = sub_bytes 66 32 sig; signed = sub_bytes 98 (unat (solana_len sig) - 96) sig in
       ed25519_verify E (sub_bytes 2 64 sig) signed pk = 1 \<and> h = blake160 E pk \<and>
       (\<exists>j num_keys i. read_varint_u16 sig 101 (solana_len sig - 99) = Ret (101 + j, num_keys) \<and>
          3 + j + 32 * unat num_keys + 32 < length signed \<and> sub_bytes (3 + j + 32 * unat num_keys) 32 signed = msg \<and>
          i < unat (signed ! 0) \<and> sub_bytes (101 + j + 32 * i) 32 sig = pk \<and>
          (i < unat num_keys \<longrightarrow> sub_bytes (3 + j + 32 * i) 32 signed = pk)))"
proof -
  have "run_bind (solana_key_hash E sig msg) (\<lambda>h. Ret (h, 20)) = Ret (h, n)"
    using solana.validate_eq [OF assms(1-4)] assms(5) by simp
  then have "solana_key_hash E sig msg = Ret h" by simp
  then show ?thesis using assms(3) by (rule solana_key_hash_Ret)
qed

definition solana_example :: bytes where
  "solana_example = [0xFE, 0x01] @ replicate 64 3 @ replicate 32 7 @ [1, 0, 0, 1] @ replicate 32 7 @
     replicate 32 9 @ replicate 346 0"

theorem solana_accepts_only_signed_witness:
  "96 \<le> unat (solana_len solana_example) \<and> unat (solana_len solana_example) \<le> 510 \<and>
   (let signed = sub_bytes 98 (unat (solana_len solana_example) - 96) solana_example in
     \<exists>j num_keys. read_varint_u16 solana_example 101 (solana_len solana_example - 99) = Ret (101 + j, num_keys) \<and>
       3 + j + 32 * unat num_keys + 32 < length signed \<and> sub_bytes (3 + j + 32 * unat num_keys) 32 signed = replicate 32 9)"
proof -
  have r: "validate_signature_solana example_env solana_example 512 (replicate 32 9) 32 (replicate 20 0) 20 =
      Ret (replicate 20 7, 20)"
    by code_simp
  have "unat (512 :: u64) = length solana_example" by (simp add: solana_example_def)
  from solana_accepts_only_signed [OF example_env_ok this _ _ r] show ?thesis by (auto simp: Let_def)
qed

text \<open>C36: Two checks are missing in the Solana path, and each makes it read out of bounds. Suppose that the number of
  keys is read, the length checks pass and the block hash behind the keys is the message. If the length field is below 96 and the key is found among
  the signers, \<open>signed_msg_len\<close> has wrapped around and \<open>ed25519_verify\<close> reads far out of bounds. If the key is
  at no position inside of the 512 bytes and the number of signers, which is never compared with the number of keys,
  reaches behind them, the search for the key runs out of the signature.\<close>

theorem solana_reads_out_of_bounds:
  fixes sig :: bytes and ptr :: nat
  defines "hit \<equiv> \<lambda>i. ptr + i * 32 + 32 \<le> 512 \<and> sub_bytes (ptr + i * 32) 32 sig = sub_bytes 66 32 sig"
  assumes "env_ok E" and "length sig = 512" and "length msg = 32" and "length out = 20"
    and "unat (solana_len sig) \<le> 510" and "read_varint_u16 sig 101 (solana_len sig - 99) = Ret (ptr, k)"
    and "unat (solana_len sig) < 96 \<or> ptr + 32 * unat k + 32 < 98 + (unat (solana_len sig) - 96)"
    and "ptr + 32 * unat k + 32 \<le> 512" and "sub_bytes (ptr + 32 * unat k) 32 sig = msg"
    and "unat (solana_len sig) < 96 \<and> (\<exists>i < unat (sig ! 98). hit i) \<or>
      (\<forall>i < unat (sig ! 98). \<not> hit i) \<and> 512 < ptr + 32 * unat (sig ! 98)"
  shows "validate_signature_solana E sig 512 msg 32 out 20 = Fault"
proof -
  let ?n = "solana_len sig - 96"
  have loop: "validate_solana_signed_message sig 98 ?n 66 msg = solana_signer_loop sig ptr 66 [0..<unat (sig ! 98)]"
    by (rule signed_message_to_signers [OF assms(3,4,6-10)])
  have "solana_key_hash E sig msg = Fault"
    using assms(11)
  proof (elim disjE conjE)
    assume short: "unat (solana_len sig) < 96" and "\<exists>i < unat (sig ! 98). hit i"
    then obtain i where "i < unat (sig ! 98)" "hit i" by blast
    then have "validate_solana_signed_message sig 98 ?n 66 msg = Ret ()"
      unfolding loop using assms(3) by (intro signer_loop_hit [of i]) (simp_all add: hit_def)
    moreover have "unat ?n = unat (solana_len sig) + 2 ^ 64 - 96" using short by (simp add: unat_sub_if')
    then have "rd 98 (unat ?n) sig = Fault" using assms(3) by (simp add: rd_def)
    ultimately show ?thesis using assms(3,6) by (simp add: solana_key_hash_def Let_def word_less_nat_alt rd_def)
  next
    assume "\<forall>i < unat (sig ! 98). \<not> hit i" and over: "512 < ptr + 32 * unat (sig ! 98)"
    have ns: "0 < unat (sig ! 98)" using over assms(9) by (cases "unat (sig ! 98)") auto
    then have "validate_solana_signed_message sig 98 ?n 66 msg = Fault"
      unfolding loop using assms(3) over \<open>\<forall>i < unat (sig ! 98). \<not> hit i\<close>
      by (intro signer_loop_overrun [of "unat (sig ! 98) - 1"]) (auto simp: hit_def)
    then show ?thesis using assms(3,6) by (simp add: solana_key_hash_def Let_def word_less_nat_alt)
  qed
  then show ?thesis using solana.validate_eq [OF assms(2) _ assms(4,5), of 512 sig] assms(3) by simp
qed

theorem solana_reads_out_of_bounds_witness:
  "validate_signature_solana example_env
     ([0xFE, 0x01] @ replicate 64 3 @ replicate 32 7 @ [255, 0, 0, 1] @ replicate 410 0)
     512 (replicate 32 0) 32 (replicate 20 0) 20 = Fault \<and>
   validate_signature_solana example_env
     ([0, 0] @ replicate 96 0 @ [1] @ replicate 413 0)
     512 (replicate 32 0) 32 (replicate 20 0) 20 = Fault"
proof
  let ?a = "[0xFE, 0x01] @ replicate 64 3 @ replicate 32 7 @ [255, 0, 0, 1] @ replicate 410 0 :: bytes"
  have key: "sub_bytes 66 32 ?a = replicate 32 7" by code_simp
  have rest: "drop 102 ?a = replicate 410 0" by code_simp
  have no: "\<not> (102 + i * 32 + 32 \<le> 512 \<and> sub_bytes (102 + i * 32) 32 ?a = sub_bytes 66 32 ?a)" for i
  proof -
    have "sub_bytes (102 + i * 32) 32 ?a = take 32 (drop (i * 32) (drop 102 ?a))"
      unfolding sub_bytes_def drop_drop by (simp only: add.commute)
    then show ?thesis unfolding key rest by (auto simp: replicate_eq_replicate)
  qed
  show "validate_signature_solana example_env ?a 512 (replicate 32 0) 32 (replicate 20 0) 20 = Fault"
  proof (rule solana_reads_out_of_bounds [OF example_env_ok, of _ _ _ 102 1])
    show "read_varint_u16 ?a 101 (solana_len ?a - 99) = Ret (102, 1)" by code_simp
    show "unat (solana_len ?a) \<le> 510" by code_simp
    show "unat (solana_len ?a) < 96 \<or> 102 + 32 * unat (1 :: u16) + 32 < 98 + (unat (solana_len ?a) - 96)" by code_simp
    show "sub_bytes (102 + 32 * unat (1 :: u16)) 32 ?a = replicate 32 0" by code_simp
    have "unat (?a ! 98) = 255" by code_simp
    then show "unat (solana_len ?a) < 96 \<and>
        (\<exists>i < unat (?a ! 98). 102 + i * 32 + 32 \<le> 512 \<and> sub_bytes (102 + i * 32) 32 ?a = sub_bytes 66 32 ?a) \<or>
      (\<forall>i < unat (?a ! 98). \<not> (102 + i * 32 + 32 \<le> 512 \<and> sub_bytes (102 + i * 32) 32 ?a = sub_bytes 66 32 ?a)) \<and>
      512 < 102 + 32 * unat (?a ! 98)" using no by simp
  qed simp_all
  let ?b = "[0, 0] @ replicate 96 0 @ [1] @ replicate 413 0 :: bytes"
  show "validate_signature_solana example_env ?b 512 (replicate 32 0) 32 (replicate 20 0) 20 = Fault"
  proof (rule solana_reads_out_of_bounds [OF example_env_ok, of _ _ _ 102 0])
    show "read_varint_u16 ?b 101 (solana_len ?b - 99) = Ret (102, 0)" by code_simp
    show "sub_bytes (102 + 32 * unat (0 :: u16)) 32 ?b = replicate 32 0" by code_simp
    have l: "unat (solana_len ?b) = 0" by code_simp
    then show "unat (solana_len ?b) \<le> 510" "unat (solana_len ?b) < 96 \<or> 102 + 32 * unat (0 :: u16) + 32 < 98 + (unat (solana_len ?b) - 96)"
      by simp_all
    have "unat (?b ! 98) = 1" "sub_bytes (102 + 0 * 32) 32 ?b = sub_bytes 66 32 ?b" by code_simp+
    then show "unat (solana_len ?b) < 96 \<and>
        (\<exists>i < unat (?b ! 98). 102 + i * 32 + 32 \<le> 512 \<and> sub_bytes (102 + i * 32) 32 ?b = sub_bytes 66 32 ?b) \<or>
      (\<forall>i < unat (?b ! 98). \<not> (102 + i * 32 + 32 \<le> 512 \<and> sub_bytes (102 + i * 32) 32 ?b = sub_bytes 66 32 ?b)) \<and>
      512 < 102 + 32 * unat (?b ! 98)" using l by (intro disjI1 conjI exI [of _ 0]) simp_all
  qed simp_all
qed

end
