(* ===== verification/Auth_Multisig.thy ===== *)
theory Auth_Multisig
  imports Auth_Schemes
begin

text \<open>
  \<open>verify_multisig\<close> of c/auth.c: threshold signatures over a list of public key hashes. The lock
  bytes are four flag bytes, \<open>pubkeys_cnt\<close> key hashes of 20 bytes and \<open>threshold\<close> recoverable
  signatures of 65 bytes.
\<close>

section \<open>Model\<close>

abbreviation (input) ERROR_INVALID_RESERVE_FIELD :: int where "ERROR_INVALID_RESERVE_FIELD \<equiv> - 41"
abbreviation (input) ERROR_INVALID_PUBKEYS_CNT :: int where "ERROR_INVALID_PUBKEYS_CNT \<equiv> - 42"
abbreviation (input) ERROR_INVALID_THRESHOLD :: int where "ERROR_INVALID_THRESHOLD \<equiv> - 43"
abbreviation (input) ERROR_INVALID_REQUIRE_FIRST_N :: int where "ERROR_INVALID_REQUIRE_FIRST_N \<equiv> - 44"
abbreviation (input) ERROR_MULTSIG_SCRIPT_HASH :: int where "ERROR_MULTSIG_SCRIPT_HASH \<equiv> - 51"
abbreviation (input) ERROR_VERIFICATION :: int where "ERROR_VERIFICATION \<equiv> - 52"
abbreviation (input) ERROR_WITNESS_SIZE :: int where "ERROR_WITNESS_SIZE \<equiv> - 22"
abbreviation (input) ERROR_SECP_PARSE_SIGNATURE :: int where "ERROR_SECP_PARSE_SIGNATURE \<equiv> - 14"
abbreviation (input) ERROR_SECP_RECOVER_PUBKEY :: int where "ERROR_SECP_RECOVER_PUBKEY \<equiv> - 11"
abbreviation (input) ERROR_SECP_SERIALIZE_PUBKEY :: int where "ERROR_SECP_SERIALIZE_PUBKEY \<equiv> - 15"
abbreviation (input) FLAGS_SIZE :: nat where "FLAGS_SIZE \<equiv> 4"
abbreviation (input) SIGNATURE_SIZE :: nat where "SIGNATURE_SIZE \<equiv> 65"
abbreviation (input) PUBKEY_SIZE :: nat where "PUBKEY_SIZE \<equiv> 33"

text \<open>The inner loop: the first unused key with the given hash is marked.\<close>

fun match_key_loop :: "bytes \<Rightarrow> bytes \<Rightarrow> bytes \<Rightarrow> nat list \<Rightarrow> (bytes \<times> bool) run" where
  "match_key_loop lock_bytes calculated used_signatures [] = Ret (used_signatures, False)"
| "match_key_loop lock_bytes calculated used_signatures (i # is) =
     run_bind (rd1 i used_signatures) (\<lambda>u.
     if u = 1 then match_key_loop lock_bytes calculated used_signatures is
     else run_bind (memcmp_eq (FLAGS_SIZE + i * BLAKE160_SIZE) lock_bytes 0 calculated BLAKE160_SIZE) (\<lambda>same.
       if \<not> same then match_key_loop lock_bytes calculated used_signatures is
       else run_bind (wr i [1] used_signatures) (\<lambda>used_signatures. Ret (used_signatures, True))))"

text \<open>The loop over the signatures, for the remaining indices.\<close>

fun multisig_loop ::
  "env \<Rightarrow> secp256k1_context \<Rightarrow> bytes \<Rightarrow> nat \<Rightarrow> nat \<Rightarrow> bytes \<Rightarrow> bytes \<Rightarrow> bytes \<Rightarrow> nat list \<Rightarrow> bytes run" where
  "multisig_loop E context lock_bytes multisig_script_len pubkeys_cnt message temp used_signatures [] =
     Ret used_signatures"
| "multisig_loop E context lock_bytes multisig_script_len pubkeys_cnt message temp used_signatures (i # is) =
     (let signature_offset = multisig_script_len + i * SIGNATURE_SIZE in
      run_bind (rd1 (signature_offset + RECID_INDEX) lock_bytes) (\<lambda>recid.
      run_bind (rd signature_offset 64 lock_bytes) (\<lambda>input64.
      run_bind (secp_call (recoverable_signature_parse_compact E input64 (uint recid))) (\<lambda>s.
      run_bind (or_fail ERROR_SECP_PARSE_SIGNATURE s) (\<lambda>signature.
      run_bind (rd 0 32 message) (\<lambda>msg32.
      run_bind (secp_call (ecdsa_recover E context signature msg32)) (\<lambda>p.
      run_bind (or_fail ERROR_SECP_RECOVER_PUBKEY p) (\<lambda>pubkey.
      run_bind (secp_call (ec_pubkey_serialize E pubkey (word_of_nat PUBKEY_SIZE) True)) (\<lambda>o'.
      run_bind (or_fail ERROR_SECP_SERIALIZE_PUBKEY o') (\<lambda>bs.
      run_bind (wr 0 bs temp) (\<lambda>temp.
      run_bind (rd 0 PUBKEY_SIZE temp) (\<lambda>data.
      let ctx = blake2b_init E 32;
          ctx = blake2b_update E ctx data in
      run_bind (wr 0 (blake2b_final E ctx 32) (uninit E 32)) (\<lambda>calculated_pubkey_hash.
      run_bind (match_key_loop lock_bytes calculated_pubkey_hash used_signatures [0..<pubkeys_cnt])
        (\<lambda>(used_signatures, matched).
      if \<not> matched then Err ERROR_VERIFICATION
      else multisig_loop E context lock_bytes multisig_script_len pubkeys_cnt message temp used_signatures is))))))))))))))"

fun first_n_loop :: "bytes \<Rightarrow> nat list \<Rightarrow> unit run" where
  "first_n_loop used_signatures [] = Ret ()"
| "first_n_loop used_signatures (i # is) =
     run_bind (rd1 i used_signatures) (\<lambda>u.
     if u \<noteq> 1 then Err ERROR_VERIFICATION else first_n_loop used_signatures is)"

definition verify_multisig :: "env \<Rightarrow> bytes \<Rightarrow> u64 \<Rightarrow> bytes \<Rightarrow> bytes \<Rightarrow> unit run" where
  "verify_multisig E lock_bytes lock_bytes_len message hash =
     run_bind (rd1 3 lock_bytes) (\<lambda>pubkeys_cnt.
     run_bind (rd1 2 lock_bytes) (\<lambda>threshold.
     run_bind (rd1 1 lock_bytes) (\<lambda>require_first_n.
     run_bind (rd1 0 lock_bytes) (\<lambda>reserved_field.
     if reserved_field \<noteq> 0 then Err ERROR_INVALID_RESERVE_FIELD
     else if pubkeys_cnt = 0 then Err ERROR_INVALID_PUBKEYS_CNT
     else if threshold > pubkeys_cnt then Err ERROR_INVALID_THRESHOLD
     else if threshold = 0 then Err ERROR_INVALID_THRESHOLD
     else if require_first_n > threshold then Err ERROR_INVALID_REQUIRE_FIRST_N
     else
       let multisig_script_len = FLAGS_SIZE + BLAKE160_SIZE * unat pubkeys_cnt;
           signatures_len = SIGNATURE_SIZE * unat threshold;
           required_lock_len = multisig_script_len + signatures_len in
       if lock_bytes_len \<noteq> word_of_nat required_lock_len then Err ERROR_WITNESS_SIZE
       else
         run_bind (rd 0 multisig_script_len lock_bytes) (\<lambda>script.
         let blake2b_ctx = blake2b_init E 32;
             blake2b_ctx = blake2b_update E blake2b_ctx script in
         run_bind (wr 0 (blake2b_final E blake2b_ctx 32) (uninit E PUBKEY_SIZE)) (\<lambda>temp.
         run_bind (memcmp_eq 0 hash 0 temp BLAKE160_SIZE) (\<lambda>same.
         if \<not> same then Err ERROR_MULTSIG_SCRIPT_HASH
         else
           run_bind (ckb_secp256k1_custom_verify_only_initialize E (uninit E (unat (CKB_SECP256K1_DATA_SIZE E)))) (\<lambda>context.
           run_bind (multisig_loop E context lock_bytes multisig_script_len (unat pubkeys_cnt) message temp
               (replicate (unat pubkeys_cnt) 0) [0..<unat threshold]) (\<lambda>used_signatures.
           first_n_loop used_signatures [0..<unat require_first_n])))))))))"

section \<open>Specification\<close>

definition ms_key :: "bytes \<Rightarrow> nat \<Rightarrow> bytes" where
  "ms_key lock j = sub_bytes (4 + j * 20) 20 lock"

text \<open>The key that signature \<open>i\<close> recovers to, and its hash.\<close>

definition ms_pubkey :: "env \<Rightarrow> secp256k1_context \<Rightarrow> bytes \<Rightarrow> nat \<Rightarrow> bytes \<Rightarrow> nat \<Rightarrow> bytes run" where
  "ms_pubkey E context lock script_len msg i =
     run_bind (secp_call (recoverable_signature_parse_compact E (sub_bytes (script_len + i * 65) 64 lock)
         (uint (lock ! (script_len + i * 65 + 64))))) (\<lambda>s.
     run_bind (or_fail ERROR_SECP_PARSE_SIGNATURE s) (\<lambda>signature.
     run_bind (secp_call (ecdsa_recover E context signature msg)) (\<lambda>p.
     run_bind (or_fail ERROR_SECP_RECOVER_PUBKEY p) (\<lambda>pubkey.
     run_bind (secp_call (ec_pubkey_serialize E pubkey 33 True)) (\<lambda>o'.
     or_fail ERROR_SECP_SERIALIZE_PUBKEY o')))))"

definition ms_signer :: "env \<Rightarrow> secp256k1_context \<Rightarrow> bytes \<Rightarrow> nat \<Rightarrow> bytes \<Rightarrow> nat \<Rightarrow> bytes run" where
  "ms_signer E context lock script_len msg i =
     run_bind (ms_pubkey E context lock script_len msg i) (\<lambda>bs. Ret (blake160 E bs))"

section \<open>The loops\<close>

lemma wr_one: "i < length used \<Longrightarrow> wr i [x] used = Ret (used[i := x])"
  by (simp add: upd_conv_take_nth_drop)

lemma match_key_eq:
  assumes "20 \<le> length calc" and "\<forall>i \<in> set is. i < length used \<and> 4 + i * 20 + 20 \<le> length lock"
  shows "match_key_loop lock calc used is =
    (case find (\<lambda>j. used ! j \<noteq> 1 \<and> ms_key lock j = take 20 calc) is of
       None \<Rightarrow> Ret (used, False) | Some j \<Rightarrow> Ret (used[j := 1], True))"
  using assms(2)
proof (induction "is")
  case (Cons i js)
  then have i: "i < length used" "4 + i * 20 + 20 \<le> length lock" by auto
  have "memcmp_eq (4 + i * 20) lock 0 calc 20 = Ret (ms_key lock i = take 20 calc)"
    using i assms(1) by (simp add: ms_key_def)
  then show ?case
    using Cons i wr_one [OF i(1)] by simp
qed simp

lemma ms_pubkey_length: "env_ok E \<Longrightarrow> ms_pubkey E ctx lock sl msg i = Ret bs \<Longrightarrow> length bs = 33"
  by (auto simp: ms_pubkey_def env_ok_def serialize_ok_def)

text \<open>One iteration of the loop over the signatures. The key overwrites \<open>temp\<close> completely, so what it
  held before does not matter.\<close>

lemma multisig_iteration:
  assumes ok: "env_ok E" and msg: "length msg = 32" and temp: "length temp = 33"
    and lock: "sl + i * 65 + 65 \<le> length lock" "4 + cnt * 20 \<le> length lock" and used: "length used = cnt"
  shows "multisig_loop E ctx lock sl cnt msg temp used (i # is) =
    run_bind (ms_pubkey E ctx lock sl msg i) (\<lambda>bs.
      case find (\<lambda>j. used ! j \<noteq> 1 \<and> ms_key lock j = blake160 E bs) [0..<cnt] of
        None \<Rightarrow> Err ERROR_VERIFICATION
      | Some j \<Rightarrow> multisig_loop E ctx lock sl cnt msg bs (used[j := 1]) is)"
proof -
  have unf: "multisig_loop E ctx lock sl cnt msg temp used (i # is) =
    run_bind (ms_pubkey E ctx lock sl msg i) (\<lambda>bs.
      run_bind (wr 0 bs temp) (\<lambda>temp.
      run_bind (rd 0 33 temp) (\<lambda>data.
      run_bind (wr 0 (blake2b_256 E data) (uninit E 32)) (\<lambda>calculated.
      run_bind (match_key_loop lock calculated used [0..<cnt]) (\<lambda>(used, matched).
      if \<not> matched then Err ERROR_VERIFICATION
      else multisig_loop E ctx lock sl cnt msg temp used is)))))"
    using lock(1) msg by (simp add: ms_pubkey_def run_simps Let_def blake2b_256_def)
  show ?thesis
    unfolding unf
  proof (rule run_bind_cong [OF refl])
    fix bs assume "ms_pubkey E ctx lock sl msg i = Ret bs"
    then have bs: "length bs = 33" by (rule ms_pubkey_length [OF ok])
    have h: "length (blake2b_256 E bs) = 32" using ok by (simp add: env_ok_def)
    have m: "match_key_loop lock (blake2b_256 E bs) used [0..<cnt] =
      (case find (\<lambda>j. used ! j \<noteq> 1 \<and> ms_key lock j = blake160 E bs) [0..<cnt] of
         None \<Rightarrow> Ret (used, False) | Some j \<Rightarrow> Ret (used[j := 1], True))"
      unfolding blake160_def using h lock(2) used by (intro match_key_eq) auto
    show "run_bind (wr 0 bs temp) (\<lambda>temp.
      run_bind (rd 0 33 temp) (\<lambda>data.
      run_bind (wr 0 (blake2b_256 E data) (uninit E 32)) (\<lambda>calculated.
      run_bind (match_key_loop lock calculated used [0..<cnt]) (\<lambda>(used, matched).
      if \<not> matched then Err ERROR_VERIFICATION
      else multisig_loop E ctx lock sl cnt msg temp used is)))) =
      (case find (\<lambda>j. used ! j \<noteq> 1 \<and> ms_key lock j = blake160 E bs) [0..<cnt] of
        None \<Rightarrow> Err ERROR_VERIFICATION
      | Some j \<Rightarrow> multisig_loop E ctx lock sl cnt msg bs (used[j := 1]) is)"
      using bs temp h m by (simp split: option.split)
  qed
qed

text \<open>
  The signatures with indices \<open>is\<close> are matched to keys by \<open>f\<close>: different signatures to different
  keys, none of them used before.
\<close>

definition matching :: "env \<Rightarrow> secp256k1_context \<Rightarrow> bytes \<Rightarrow> nat \<Rightarrow> nat \<Rightarrow> bytes \<Rightarrow> nat list \<Rightarrow> (nat \<Rightarrow> nat) \<Rightarrow> bool" where
  "matching E ctx lock sl cnt msg is f \<longleftrightarrow> inj_on f (set is) \<and>
     (\<forall>i \<in> set is. f i < cnt \<and> ms_signer E ctx lock sl msg i = Ret (ms_key lock (f i)))"

lemma multisig_loop_sound:
  assumes ok: "env_ok E" and msg: "length msg = 32" and lock: "4 + cnt * 20 \<le> length lock"
  shows "\<lbrakk>\<forall>i \<in> set is. sl + i * 65 + 65 \<le> length lock; distinct is; length temp = 33; length used = cnt;
     multisig_loop E ctx lock sl cnt msg temp used is = Ret used'\<rbrakk> \<Longrightarrow>
   length used' = cnt \<and> (\<exists>f. matching E ctx lock sl cnt msg is f \<and> (\<forall>i \<in> set is. used ! f i \<noteq> 1) \<and>
     (\<forall>j < cnt. used' ! j = 1 \<longleftrightarrow> used ! j = 1 \<or> j \<in> f ` set is))"
proof (induction "is" arbitrary: temp used)
  case Nil
  then show ?case by (simp add: matching_def)
next
  case (Cons i js)
  have i: "sl + i * 65 + 65 \<le> length lock" using Cons.prems by simp
  note it = multisig_iteration [OF ok msg Cons.prems(3) i lock Cons.prems(4), of ctx js]
  obtain bs j where bs: "ms_pubkey E ctx lock sl msg i = Ret bs"
    and j: "find (\<lambda>j. used ! j \<noteq> 1 \<and> ms_key lock j = blake160 E bs) [0..<cnt] = Some j"
    and rest: "multisig_loop E ctx lock sl cnt msg bs (used[j := 1]) js = Ret used'"
    using Cons.prems(5) unfolding it by (auto split: option.splits)
  have jp: "j < cnt" "used ! j \<noteq> 1" "ms_key lock j = blake160 E bs"
    using j by (auto simp: find_Some_iff)
  obtain f where f: "length used' = cnt" "matching E ctx lock sl cnt msg js f"
    "\<forall>i \<in> set js. used[j := 1] ! f i \<noteq> 1"
    "\<forall>k < cnt. used' ! k = 1 \<longleftrightarrow> used[j := 1] ! k = 1 \<or> k \<in> f ` set js"
    using Cons.IH [of bs "used[j := 1]"] Cons.prems rest ms_pubkey_length [OF ok bs] by auto
  let ?g = "f(i := j)"
  have ni: "i \<notin> set js" using Cons.prems(2) by simp
  have fj: "\<forall>k \<in> set js. f k \<noteq> j \<and> used ! f k \<noteq> 1"
    using f(2,3) jp(1) Cons.prems(4) by (auto simp: matching_def nth_list_update split: if_splits)
  have "matching E ctx lock sl cnt msg (i # js) ?g"
    using f(2) fj ni jp bs by (auto simp: matching_def ms_signer_def inj_on_def)
  moreover have "\<forall>k \<in> set (i # js). used ! ?g k \<noteq> 1" using fj jp ni by auto
  moreover have "\<forall>k < cnt. used' ! k = 1 \<longleftrightarrow> used ! k = 1 \<or> k \<in> ?g ` set (i # js)"
    using f(4) ni jp(1) Cons.prems(4) by (auto simp: nth_list_update)
  ultimately show ?case using f(1) by blast
qed

lemma first_n_eq:
  assumes "\<forall>i \<in> set is. i < length used"
  shows "first_n_loop used is = (if \<forall>i \<in> set is. used ! i = 1 then Ret () else Err ERROR_VERIFICATION)"
  using assms by (induction "is") auto


text \<open>The other direction, for key lists without duplicates.\<close>

lemma find_unique:
  assumes "j < cnt" and "P j" and "\<And>k. k < cnt \<Longrightarrow> P k \<Longrightarrow> k = j"
  shows "find P [0..<cnt] = Some j"
proof -
  have "\<not> P k" if "k < j" for k using assms(3) [of k] assms(1) that by auto
  then show ?thesis using assms(1,2) by (auto simp: find_Some_iff)
qed

lemma multisig_loop_complete:
  assumes ok: "env_ok E" and msg: "length msg = 32" and lock: "4 + cnt * 20 \<le> length lock"
    and uniq: "inj_on (ms_key lock) {..<cnt}"
  shows "\<lbrakk>\<forall>i \<in> set is. sl + i * 65 + 65 \<le> length lock; distinct is; length temp = 33; length used = cnt;
     matching E ctx lock sl cnt msg is f; \<forall>i \<in> set is. used ! f i \<noteq> 1\<rbrakk> \<Longrightarrow>
   \<exists>used'. multisig_loop E ctx lock sl cnt msg temp used is = Ret used' \<and> length used' = cnt \<and>
     (\<forall>j < cnt. used' ! j = 1 \<longleftrightarrow> used ! j = 1 \<or> j \<in> f ` set is)"
proof (induction "is" arbitrary: temp used)
  case (Cons i js)
  have i: "sl + i * 65 + 65 \<le> length lock" using Cons.prems by simp
  have fi: "f i < cnt" "used ! f i \<noteq> 1" "ms_signer E ctx lock sl msg i = Ret (ms_key lock (f i))"
    using Cons.prems(5,6) by (auto simp: matching_def)
  then obtain bs where bs: "ms_pubkey E ctx lock sl msg i = Ret bs" "ms_key lock (f i) = blake160 E bs"
    by (auto simp: ms_signer_def)
  have fnd: "find (\<lambda>j. used ! j \<noteq> 1 \<and> ms_key lock j = blake160 E bs) [0..<cnt] = Some (f i)"
    using fi bs uniq by (intro find_unique) (auto simp: inj_on_def)
  have ni: "i \<notin> set js" "\<forall>k \<in> set js. f k \<noteq> f i"
    using Cons.prems(2,5) by (auto simp: matching_def inj_on_def)
  have "\<forall>k \<in> set js. used[f i := 1] ! f k \<noteq> 1" using ni Cons.prems(6) by auto
  moreover have "matching E ctx lock sl cnt msg js f"
    using Cons.prems(5) by (auto simp: matching_def inj_on_def)
  ultimately obtain used' where u: "multisig_loop E ctx lock sl cnt msg bs (used[f i := 1]) js = Ret used'"
    "length used' = cnt" "\<forall>j < cnt. used' ! j = 1 \<longleftrightarrow> used[f i := 1] ! j = 1 \<or> j \<in> f ` set js"
    using Cons.IH [of bs "used[f i := 1]"] Cons.prems ms_pubkey_length [OF ok bs(1)] by auto
  show ?case
    using u fi(1) Cons.prems(4) fnd bs(1)
    unfolding multisig_iteration [OF ok msg Cons.prems(3) i lock Cons.prems(4)]
    by (auto simp: nth_list_update)
qed simp

section \<open>The whole check\<close>

text \<open>The lock bytes are well formed and hash to the expected script hash.\<close>

definition ms_script_ok :: "env \<Rightarrow> bytes \<Rightarrow> bytes \<Rightarrow> bool" where
  "ms_script_ok E lock hash \<longleftrightarrow>
     4 \<le> length lock \<and> lock ! 0 = 0 \<and> 0 < unat (lock ! 2) \<and> unat (lock ! 2) \<le> unat (lock ! 3) \<and>
     unat (lock ! 1) \<le> unat (lock ! 2) \<and>
     length lock = 4 + 20 * unat (lock ! 3) + 65 * unat (lock ! 2) \<and>
     take 20 hash = blake160 E (take (4 + 20 * unat (lock ! 3)) lock)"

text \<open>Distinct listed keys signed, as many as the threshold, among them the first \<open>n\<close>.\<close>

definition ms_signed :: "env \<Rightarrow> secp256k1_context \<Rightarrow> bytes \<Rightarrow> bytes \<Rightarrow> (nat \<Rightarrow> nat) \<Rightarrow> bool" where
  "ms_signed E ctx lock msg f \<longleftrightarrow>
     matching E ctx lock (4 + 20 * unat (lock ! 3)) (unat (lock ! 3)) msg [0..<unat (lock ! 2)] f \<and>
     {..<unat (lock ! 1)} \<subseteq> f ` {..<unat (lock ! 2)}"

definition ms_temp :: "env \<Rightarrow> bytes \<Rightarrow> bytes" where
  "ms_temp E lock = blake2b_256 E (take (4 + 20 * unat (lock ! 3)) lock) @ drop 32 (uninit E 33)"

text \<open>The check after the script hash.\<close>

definition ms_quorum :: "env \<Rightarrow> bytes \<Rightarrow> bytes \<Rightarrow> unit run" where
  "ms_quorum E lock msg =
     run_bind (secp_context E) (\<lambda>context.
     run_bind (multisig_loop E context lock (4 + 20 * unat (lock ! 3)) (unat (lock ! 3)) msg (ms_temp E lock)
         (replicate (unat (lock ! 3)) 0) [0..<unat (lock ! 2)]) (\<lambda>used.
     first_n_loop used [0..<unat (lock ! 1)]))"

lemma ms_temp_length: "env_ok E \<Longrightarrow> length (ms_temp E lock) = 33"
  by (simp add: ms_temp_def env_ok_def)

lemma ms_script_hash_step:
  fixes f :: "bytes \<Rightarrow> unit run"
  assumes ok: "env_ok E" and hash: "20 \<le> length hash" and sl: "4 + 20 * unat (lock ! 3) \<le> length lock"
  shows "run_bind (rd 0 (4 + 20 * unat (lock ! 3)) lock) (\<lambda>script.
      run_bind (wr 0 (blake2b_256 E script) (uninit E 33)) (\<lambda>temp.
      run_bind (memcmp_eq 0 hash 0 temp 20) (\<lambda>same.
      if \<not> same then Err ERROR_MULTSIG_SCRIPT_HASH else f temp))) =
    (if take 20 hash \<noteq> blake160 E (take (4 + 20 * unat (lock ! 3)) lock)
     then Err ERROR_MULTSIG_SCRIPT_HASH else f (ms_temp E lock))"
proof -
  have "length (blake2b_256 E (take (4 + 20 * unat (lock ! 3)) lock)) = 32" using ok by (simp add: env_ok_def)
  then show ?thesis using hash sl by (simp add: ms_temp_def blake160_def)
qed

text \<open>The checks in their order, with the error of each.\<close>

lemma verify_multisig_eq:
  assumes ok: "env_ok E" and len: "unat lock_len = length lock" and hash: "20 \<le> length hash"
    and four: "4 \<le> length lock"
  shows "verify_multisig E lock lock_len msg hash =
    (if lock ! 0 \<noteq> 0 then Err ERROR_INVALID_RESERVE_FIELD
     else if lock ! 3 = 0 then Err ERROR_INVALID_PUBKEYS_CNT
     else if lock ! 2 > lock ! 3 then Err ERROR_INVALID_THRESHOLD
     else if lock ! 2 = 0 then Err ERROR_INVALID_THRESHOLD
     else if lock ! 1 > lock ! 2 then Err ERROR_INVALID_REQUIRE_FIRST_N
     else if length lock \<noteq> 4 + 20 * unat (lock ! 3) + 65 * unat (lock ! 2) then Err ERROR_WITNESS_SIZE
     else if take 20 hash \<noteq> blake160 E (take (4 + 20 * unat (lock ! 3)) lock) then Err ERROR_MULTSIG_SCRIPT_HASH
     else ms_quorum E lock msg)"
proof -
  let ?sl = "4 + 20 * unat (lock ! 3)" and ?thr = "unat (lock ! 2)"
  have r: "rd1 3 lock = Ret (lock ! 3)" "rd1 2 lock = Ret (lock ! 2)" "rd1 1 lock = Ret (lock ! 1)"
    "rd1 0 lock = Ret (lock ! 0)" using four by (auto simp: rd1_def)
  have "unat (lock ! 3) < 256" "?thr < 256" by simp_all
  then have "?sl + 65 * ?thr < 18446744073709551616" by linarith
  then have "?sl + 65 * ?thr < 2 ^ 64" by simp
  then have size: "lock_len = word_of_nat (?sl + 65 * ?thr) \<longleftrightarrow> length lock = ?sl + 65 * ?thr"
    using sig_len_iff [OF len] by blast
  have sl: "?sl \<le> length lock" if "length lock = ?sl + 65 * ?thr" using that by linarith
  show ?thesis
    unfolding verify_multisig_def r run_bind.simps Let_def size ms_quorum_def secp_context_def
    by (intro if_cong refl) (simp only: not_not ms_script_hash_step [OF ok hash sl] flip: blake2b_256_def)
qed

lemma verify_multisig_reduce:
  assumes ok: "env_ok E" and len: "unat lock_len = length lock" and hash: "20 \<le> length hash"
  shows "verify_multisig E lock lock_len msg hash = Ret () \<longleftrightarrow>
    ms_script_ok E lock hash \<and> ms_quorum E lock msg = Ret ()"
proof (cases "4 \<le> length lock")
  case False
  then show ?thesis by (simp add: verify_multisig_def rd1_def ms_script_ok_def)
next
  case True
  have flags: "\<not> lock ! 2 > lock ! 3 \<longleftrightarrow> unat (lock ! 2) \<le> unat (lock ! 3)"
    "\<not> lock ! 1 > lock ! 2 \<longleftrightarrow> unat (lock ! 1) \<le> unat (lock ! 2)" "lock ! 2 \<noteq> 0 \<longleftrightarrow> 0 < unat (lock ! 2)"
    by (simp_all add: not_less word_le_nat_alt unat_gt_0)
  have ifs: "(if b then Err e else r) = Ret () \<longleftrightarrow> \<not> b \<and> r = Ret ()" for b e and r :: "unit run" by simp
  have "lock ! 3 \<noteq> 0" if "0 < unat (lock ! 2)" "unat (lock ! 2) \<le> unat (lock ! 3)" using that by auto
  then show ?thesis
    unfolding verify_multisig_eq [OF assms True] ifs flags not_not ms_script_ok_def using True by blast
qed

lemma ms_bounds:
  assumes "length lock = 4 + 20 * unat (lock ! 3) + 65 * unat (lock ! 2)"
  shows "4 + unat (lock ! 3) * 20 \<le> length lock"
    and "\<forall>i \<in> set [0..<unat (lock ! 2)]. 4 + 20 * unat (lock ! 3) + i * 65 + 65 \<le> length lock"
  using assms by auto

lemma ms_script_ok_length:
  "ms_script_ok E lock hash \<Longrightarrow> length lock = 4 + 20 * unat (lock ! 3) + 65 * unat (lock ! 2)"
  by (simp add: ms_script_ok_def)

text \<open>The loop stays in bounds and ends, whatever the signatures are.\<close>

lemma multisig_loop_defined:
  assumes ok: "env_ok E" and msg: "length msg = 32" and lock: "4 + cnt * 20 \<le> length lock"
  shows "\<lbrakk>\<forall>i \<in> set is. sl + i * 65 + 65 \<le> length lock; length temp = 33; length used = cnt\<rbrakk> \<Longrightarrow>
   well_defined (multisig_loop E ctx lock sl cnt msg temp used is) \<and>
   (\<forall>used'. multisig_loop E ctx lock sl cnt msg temp used is = Ret used' \<longrightarrow> length used' = cnt)"
proof (induction "is" arbitrary: temp used)
  case (Cons i js)
  have i: "sl + i * 65 + 65 \<le> length lock" using Cons.prems by simp
  have pk: "well_defined (ms_pubkey E ctx lock sl msg i)"
    unfolding ms_pubkey_def by (auto intro!: well_defined_bind)
  note it = multisig_iteration [OF ok msg Cons.prems(2) i lock Cons.prems(3), of ctx js]
  show ?case
  proof (cases "ms_pubkey E ctx lock sl msg i")
    case (Ret bs)
    have IH: "well_defined (multisig_loop E ctx lock sl cnt msg bs (used[j := 1]) js) \<and>
        (\<forall>used'. multisig_loop E ctx lock sl cnt msg bs (used[j := 1]) js = Ret used' \<longrightarrow> length used' = cnt)" for j
      using Cons.prems ms_pubkey_length [OF ok Ret] by (intro Cons.IH) simp_all
    show ?thesis
      unfolding it Ret run_bind.simps using IH by (simp split: option.split)
  qed (use pk in \<open>simp_all add: it del: multisig_loop.simps\<close>)
qed simp

lemma verify_multisig_defined:
  assumes ok: "env_ok E" and len: "unat lock_len = length lock" and hash: "20 \<le> length hash"
    and msg: "length msg = 32" and four: "4 \<le> length lock"
  shows "well_defined (verify_multisig E lock lock_len msg hash)"
proof -
  have "well_defined (ms_quorum E lock msg)"
    if "length lock = 4 + 20 * unat (lock ! 3) + 65 * unat (lock ! 2)" "\<not> lock ! 2 > lock ! 3" "\<not> lock ! 1 > lock ! 2"
  proof -
    have n: "unat (lock ! 1) \<le> unat (lock ! 3)" using that(2,3) by (simp add: not_less word_le_nat_alt)
    have first: "well_defined (first_n_loop used [0..<unat (lock ! 1)])" if "length used = unat (lock ! 3)" for used
      using that n by (subst first_n_eq) auto
    note loop = multisig_loop_defined [OF ok msg ms_bounds [OF that(1)] ms_temp_length [OF ok, of lock] length_replicate]
    show ?thesis
      unfolding ms_quorum_def
      by (intro well_defined_bind secp_context_defined [OF ok] loop [THEN conjunct1] first)
        (rule loop [THEN conjunct2, rule_format])
  qed
  moreover have "well_defined (if b then Err e else r) \<longleftrightarrow> (\<not> b \<longrightarrow> well_defined r)" for b e and r :: "unit run"
    by simp
  ultimately show ?thesis unfolding verify_multisig_eq [OF ok len hash four] by (simp only:) blast
qed

lemma verify_multisig_sound:
  assumes ok: "env_ok E" and len: "unat lock_len = length lock" and hash: "20 \<le> length hash"
    and msg: "length msg = 32" and ret: "verify_multisig E lock lock_len msg hash = Ret ()"
  shows "ms_script_ok E lock hash \<and> (\<exists>ctx f. secp_context E = Ret ctx \<and> ms_signed E ctx lock msg f)"
proof -
  let ?cnt = "unat (lock ! 3)" and ?thr = "unat (lock ! 2)" and ?n = "unat (lock ! 1)"
  obtain ctx used where s: "ms_script_ok E lock hash" "secp_context E = Ret ctx"
    "multisig_loop E ctx lock (4 + 20 * ?cnt) ?cnt msg (ms_temp E lock) (replicate ?cnt 0) [0..<?thr] = Ret used"
    "first_n_loop used [0..<?n] = Ret ()"
    using ret unfolding verify_multisig_reduce [OF ok len hash] ms_quorum_def by auto
  obtain f where f: "length used = ?cnt"
    "matching E ctx lock (4 + 20 * ?cnt) ?cnt msg [0..<?thr] f"
    "\<forall>j < ?cnt. used ! j = 1 \<longleftrightarrow> replicate ?cnt (0 :: byte) ! j = 1 \<or> j \<in> f ` set [0..<?thr]"
    using multisig_loop_sound [OF ok msg ms_bounds [OF ms_script_ok_length [OF s(1)]] _ ms_temp_length [OF ok, of lock]
        length_replicate s(3)] by auto
  have n: "?n \<le> ?cnt" using s(1) by (simp add: ms_script_ok_def)
  then have "\<forall>i < ?n. used ! i = 1"
    using s(4) first_n_eq [of "[0..<?n]" used] f(1) by (auto split: if_splits)
  then have "{..<?n} \<subseteq> f ` {..<?thr}"
    using f(3) n by (auto simp: atLeast0LessThan)
  then show ?thesis using s(1,2) f(2) by (auto simp: ms_signed_def)
qed

lemma verify_multisig_complete:
  assumes ok: "env_ok E" and len: "unat lock_len = length lock" and hash: "20 \<le> length hash"
    and msg: "length msg = 32" and script: "ms_script_ok E lock hash"
    and uniq: "inj_on (ms_key lock) {..<unat (lock ! 3)}"
    and ctx: "secp_context E = Ret ctx" and signed: "ms_signed E ctx lock msg f"
  shows "verify_multisig E lock lock_len msg hash = Ret ()"
proof -
  let ?cnt = "unat (lock ! 3)" and ?thr = "unat (lock ! 2)" and ?n = "unat (lock ! 1)"
  have m: "matching E ctx lock (4 + 20 * ?cnt) ?cnt msg [0..<?thr] f" "{..<?n} \<subseteq> f ` {..<?thr}"
    using signed by (auto simp: ms_signed_def)
  have fresh: "\<forall>i \<in> set [0..<?thr]. replicate ?cnt (0 :: byte) ! f i \<noteq> 1"
    using m(1) by (auto simp: matching_def)
  obtain used where u: "multisig_loop E ctx lock (4 + 20 * ?cnt) ?cnt msg (ms_temp E lock)
      (replicate ?cnt 0) [0..<?thr] = Ret used" "length used = ?cnt"
    "\<forall>j < ?cnt. used ! j = 1 \<longleftrightarrow> replicate ?cnt (0 :: byte) ! j = 1 \<or> j \<in> f ` set [0..<?thr]"
    using multisig_loop_complete [OF ok msg ms_bounds(1) [OF ms_script_ok_length [OF script]] uniq
        ms_bounds(2) [OF ms_script_ok_length [OF script]] _
        ms_temp_length [OF ok, of lock] length_replicate m(1) fresh] by auto
  have n: "?n \<le> ?cnt" using script by (simp add: ms_script_ok_def)
  have "\<forall>i \<in> set [0..<?n]. used ! i = 1"
    using u(3) m(2) n by (auto simp: atLeast0LessThan)
  then have "first_n_loop used [0..<?n] = Ret ()"
    using first_n_eq [of "[0..<?n]" used] u(2) n by simp
  then show ?thesis
    unfolding verify_multisig_reduce [OF ok len hash] ms_quorum_def using script ctx u(1) by simp
qed

section \<open>Properties\<close>

definition ms_example :: bytes where
  "ms_example = [0, 1, 2, 3] @ (2 # replicate 19 5) @ (2 # replicate 19 6) @ (2 # replicate 19 7) @
     replicate 64 5 @ [0] @ replicate 64 7 @ [1]"

definition ms_example_hash :: bytes where
  "ms_example_hash = take 20 ms_example"

text \<open>C4: When \<open>verify_multisig\<close> succeeds, the lock bytes are well formed and hash to the expected script
  hash, and there is a one-to-one assignment of the \<open>threshold\<close> signatures to listed keys such
  that each signature over the message recovers to a key with the assigned hash, and the first
  \<open>require_first_n\<close> keys are all assigned.\<close>

theorem multisig_sound:
  assumes "env_ok E" and "unat lock_len = length lock" and "20 \<le> length hash" and "length msg = 32"
    and "verify_multisig E lock lock_len msg hash = Ret ()"
  shows "ms_script_ok E lock hash \<and> (\<exists>ctx f. secp_context E = Ret ctx \<and> ms_signed E ctx lock msg f)"
  using assms by (rule verify_multisig_sound)

lemma ms_example_verifies:
  "verify_multisig example_env ms_example 194 (replicate 32 1) ms_example_hash = Ret ()"
  by code_simp

theorem multisig_sound_witness:
  "ms_script_ok example_env ms_example ms_example_hash \<and>
    (\<exists>ctx f. secp_context example_env = Ret ctx \<and> ms_signed example_env ctx ms_example (replicate 32 1) f)"
  by (rule multisig_sound [OF example_env_ok _ _ _ ms_example_verifies])
     (simp_all add: ms_example_def ms_example_hash_def)

lemma ms_example_keys_differ: "inj_on (ms_key ms_example) {..<unat (ms_example ! 3)}"
proof -
  have n: "unat (ms_example ! 3) = 3" by code_simp
  have "distinct (map (ms_key ms_example) [0..<3])" by code_simp
  then have "inj_on (ms_key ms_example) (set [0..<3])" by (simp only: distinct_map)
  then show ?thesis by (simp only: n set_upt atLeast0LessThan)
qed

text \<open>C8: Conversely, when the listed key hashes are pairwise different, every well-formed lock with such an
  assignment passes: a valid quorum is never rejected, in whatever order the signatures come.\<close>

theorem multisig_complete:
  assumes "env_ok E" and "unat lock_len = length lock" and "20 \<le> length hash" and "length msg = 32"
    and "ms_script_ok E lock hash" and "inj_on (ms_key lock) {..<unat (lock ! 3)}"
    and "secp_context E = Ret ctx" and "ms_signed E ctx lock msg f"
  shows "verify_multisig E lock lock_len msg hash = Ret ()"
  using assms by (rule verify_multisig_complete)


theorem multisig_complete_witness:
  "verify_multisig example_env ms_example 194 (replicate 32 1) ms_example_hash = Ret ()"
proof -
  have len: "unat (194 :: u64) = length ms_example" and h: "20 \<le> length ms_example_hash"
    and m: "length (replicate 32 (1 :: byte)) = 32"
    by (simp_all add: ms_example_def ms_example_hash_def)
  obtain ctx f where sc: "ms_script_ok example_env ms_example ms_example_hash" "secp_context example_env = Ret ctx"
    "ms_signed example_env ctx ms_example (replicate 32 1) f"
    using verify_multisig_sound [OF example_env_ok len h m ms_example_verifies] by blast
  show ?thesis
    by (rule multisig_complete [OF example_env_ok len h m sc(1) ms_example_keys_differ sc(2,3)])
qed

text \<open>C22: With a 32 byte message and a signature object as long as its length says, \<open>verify_multisig\<close> is
  memory safe and ends exactly if the object has at least four bytes: the flag bytes are read
  before the length is looked at, so a shorter signature is read out of bounds instead of being
  rejected with \<open>ERROR_WITNESS_SIZE\<close>.\<close>

theorem multisig_safe_iff_four_bytes:
  assumes "env_ok E" and "unat lock_len = length lock" and "20 \<le> length hash" and "length msg = 32"
  shows "well_defined (verify_multisig E lock lock_len msg hash) \<longleftrightarrow> 4 \<le> length lock"
  using verify_multisig_defined [OF assms] by (auto simp: verify_multisig_def rd1_def)

theorem multisig_safe_iff_four_bytes_witness:
  "\<not> well_defined (verify_multisig example_env [0, 0, 1] 3 (replicate 32 1) (replicate 20 0)) \<and>
   well_defined (verify_multisig example_env [0, 0, 1, 1, 9] 5 (replicate 32 1) (replicate 20 0))"
  using multisig_safe_iff_four_bytes [OF example_env_ok, of 3 "[0, 0, 1]" "replicate 20 0" "replicate 32 1"]
    multisig_safe_iff_four_bytes [OF example_env_ok, of 5 "[0, 0, 1, 1, 9]" "replicate 20 0" "replicate 32 1"]
  by simp

end
