(* ===== verification/Auth_Entry.thy ===== *)
theory Auth_Entry
  imports Auth_Multisig
begin

text \<open>
  The entry points of c/auth.c below the ELF start-up: \<open>is_lock_script_hash_present\<close>, \<open>verify\<close>,
  which composes a converter with a validator, and \<open>ckb_auth_validate\<close>, which chooses them by
  the algorithm id. The contract of \<open>verify\<close> is proved once, for every converter and validator
  that keep their contracts, and instantiated for the eleven schemes.
\<close>

section \<open>Model\<close>

abbreviation (input) AuthAlgorithmIdCkb :: byte where "AuthAlgorithmIdCkb \<equiv> 0"
abbreviation (input) AuthAlgorithmIdEthereum :: byte where "AuthAlgorithmIdEthereum \<equiv> 1"
abbreviation (input) AuthAlgorithmIdEos :: byte where "AuthAlgorithmIdEos \<equiv> 2"
abbreviation (input) AuthAlgorithmIdTron :: byte where "AuthAlgorithmIdTron \<equiv> 3"
abbreviation (input) AuthAlgorithmIdBitcoin :: byte where "AuthAlgorithmIdBitcoin \<equiv> 4"
abbreviation (input) AuthAlgorithmIdDogecoin :: byte where "AuthAlgorithmIdDogecoin \<equiv> 5"
abbreviation (input) AuthAlgorithmIdCkbMultisig :: byte where "AuthAlgorithmIdCkbMultisig \<equiv> 6"
abbreviation (input) AuthAlgorithmIdSchnorr :: byte where "AuthAlgorithmIdSchnorr \<equiv> 7"
abbreviation (input) AuthAlgorithmIdLitecoin :: byte where "AuthAlgorithmIdLitecoin \<equiv> 10"
abbreviation (input) AuthAlgorithmIdCardano :: byte where "AuthAlgorithmIdCardano \<equiv> 11"
abbreviation (input) AuthAlgorithmIdMonero :: byte where "AuthAlgorithmIdMonero \<equiv> 12"
abbreviation (input) AuthAlgorithmIdSolana :: byte where "AuthAlgorithmIdSolana \<equiv> 13"
abbreviation (input) AuthAlgorithmIdOwnerLock :: byte where "AuthAlgorithmIdOwnerLock \<equiv> 0xFC"
abbreviation (input) SECP256K1_SIGNATURE_SIZE :: u32 where "SECP256K1_SIGNATURE_SIZE \<equiv> 65"

text \<open>
  The loop over the input cells. It ends when the system call reports an error; a fuel bounds the
  iterations, since \<open>i\<close> wraps around.
\<close>

fun lock_hash_loop :: "nat \<Rightarrow> env \<Rightarrow> bytes \<Rightarrow> u64 \<Rightarrow> bool run" where
  "lock_hash_loop 0 E lock_script_hash i = NoFuel"
| "lock_hash_loop (Suc fuel) E lock_script_hash i =
     (case checked_load_cell_by_field E 32 0 i CKB_SOURCE_INPUT CKB_CELL_FIELD_LOCK_HASH of
        (err, _, out) \<Rightarrow>
        run_bind (wr 0 out (uninit E 32)) (\<lambda>buff.
        if err = CKB_INDEX_OUT_OF_BOUND then Ret False
        else if err \<noteq> 0 then Ret False
        else run_bind (memcmp_eq 0 lock_script_hash 0 buff BLAKE160_SIZE) (\<lambda>same.
          if same then Ret True else lock_hash_loop fuel E lock_script_hash (i + 1))))"

definition is_lock_script_hash_present :: "nat \<Rightarrow> env \<Rightarrow> bytes \<Rightarrow> bool run" where
  "is_lock_script_hash_present fuel E lock_script_hash = lock_hash_loop fuel E lock_script_hash 0"

text \<open>
  \<open>mbedtls_memory_buffer_alloc_init\<close> gives mbedtls 1024 bytes of memory; whether that is enough
  shows in the status of \<open>md_setup\<close>.
\<close>

definition verify :: "env \<Rightarrow> bytes \<Rightarrow> bytes \<Rightarrow> u32 \<Rightarrow> bytes \<Rightarrow> u32 \<Rightarrow> validate_signature_t \<Rightarrow> convert_msg_t \<Rightarrow> unit run" where
  "verify E pubkey_hash sig sig_len msg msg_len func convert =
     run_bind (convert E msg (ucast msg_len) (uninit E BLAKE2B_BLOCK_SIZE) 32) (\<lambda>new_msg.
     run_bind (func E sig (ucast sig_len) new_msg 32 (uninit E BLAKE160_SIZE) 20)
       (\<lambda>(output_pubkey_hash, output_len).
     run_bind (memcmp_eq 0 pubkey_hash 0 output_pubkey_hash BLAKE160_SIZE) (\<lambda>same.
     CHECK2 same ERROR_MISMATCHED)))"

text \<open>\<open>fuel\<close> bounds the loops of the Cardano parser and of the owner lock; \<open>u\<close> is the content of
  uninitialised CBOR contexts. The pointers \<open>signature\<close> and \<open>message\<close> may be null.\<close>

definition ckb_auth_validate ::
  "nat \<Rightarrow> nanocbor_value \<Rightarrow> env \<Rightarrow> byte \<Rightarrow> bytes option \<Rightarrow> u32 \<Rightarrow> bytes option \<Rightarrow> u32 \<Rightarrow> bytes \<Rightarrow> u32 \<Rightarrow> unit run" where
  "ckb_auth_validate fuel u E auth_algorithm_id signature' signature_size message message_size
       pubkey_hash pubkey_hash_size =
     run_bind (CHECK2 (signature' \<noteq> None) ERROR_INVALID_ARG) (\<lambda>_.
     run_bind (CHECK2 (message \<noteq> None) ERROR_INVALID_ARG) (\<lambda>_.
     run_bind (CHECK2 (message_size > 0) ERROR_INVALID_ARG) (\<lambda>_.
     run_bind (CHECK2 (pubkey_hash_size = word_of_nat BLAKE160_SIZE) ERROR_INVALID_ARG) (\<lambda>_.
     let sig = the signature'; msg = the message in
     if auth_algorithm_id = AuthAlgorithmIdCkb then
       run_bind (CHECK2 (signature_size = SECP256K1_SIGNATURE_SIZE) ERROR_INVALID_ARG) (\<lambda>_.
       verify E pubkey_hash sig signature_size msg message_size validate_signature_ckb convert_copy)
     else if auth_algorithm_id = AuthAlgorithmIdEthereum then
       run_bind (CHECK2 (signature_size = SECP256K1_SIGNATURE_SIZE) ERROR_INVALID_ARG) (\<lambda>_.
       verify E pubkey_hash sig signature_size msg message_size validate_signature_eth convert_eth_message)
     else if auth_algorithm_id = AuthAlgorithmIdEos then
       run_bind (CHECK2 (signature_size = SECP256K1_SIGNATURE_SIZE) ERROR_INVALID_ARG) (\<lambda>_.
       verify E pubkey_hash sig signature_size msg message_size validate_signature_eth convert_eos_message)
     else if auth_algorithm_id = AuthAlgorithmIdTron then
       run_bind (CHECK2 (signature_size = SECP256K1_SIGNATURE_SIZE) ERROR_INVALID_ARG) (\<lambda>_.
       verify E pubkey_hash sig signature_size msg message_size validate_signature_eth convert_tron_message)
     else if auth_algorithm_id = AuthAlgorithmIdBitcoin then
       verify E pubkey_hash sig signature_size msg message_size validate_signature_btc convert_btc_message
     else if auth_algorithm_id = AuthAlgorithmIdDogecoin then
       verify E pubkey_hash sig signature_size msg message_size validate_signature_btc convert_doge_message
     else if auth_algorithm_id = AuthAlgorithmIdLitecoin then
       verify E pubkey_hash sig signature_size msg message_size validate_signature_btc convert_litecoin_message
     else if auth_algorithm_id = AuthAlgorithmIdCkbMultisig then
       verify_multisig E sig (ucast signature_size) msg pubkey_hash
     else if auth_algorithm_id = AuthAlgorithmIdSchnorr then
       verify E pubkey_hash sig signature_size msg message_size validate_signature_schnorr convert_copy
     else if auth_algorithm_id = AuthAlgorithmIdCardano then
       verify E pubkey_hash sig signature_size msg message_size (validate_signature_cardano fuel u) convert_copy
     else if auth_algorithm_id = AuthAlgorithmIdMonero then
       verify E pubkey_hash sig signature_size msg message_size validate_signature_monero convert_copy
     else if auth_algorithm_id = AuthAlgorithmIdSolana then
       verify E pubkey_hash sig signature_size msg message_size validate_signature_solana convert_copy
     else if auth_algorithm_id = AuthAlgorithmIdOwnerLock then
       run_bind (is_lock_script_hash_present fuel E pubkey_hash) (\<lambda>present.
       CHECK2 present ERROR_MISMATCHED)
     else Err ERROR_NOT_IMPLEMENTED))))"

section \<open>The contract of \<open>verify\<close>\<close>

text \<open>The hash of the key under which \<open>sig\<close> signs what a wallet makes of \<open>msg\<close>.\<close>

definition scheme_key_hash ::
  "(env \<Rightarrow> bytes \<Rightarrow> bytes run) \<Rightarrow> (env \<Rightarrow> bytes \<Rightarrow> bytes \<Rightarrow> bytes run) \<Rightarrow> env \<Rightarrow> bytes \<Rightarrow> bytes \<Rightarrow> bytes run" where
  "scheme_key_hash sd key_hash E sig msg = run_bind (sd E msg) (key_hash E sig)"

lemma unat_u32_u64: "unat (ucast (w :: u32) :: u64) = unat w"
proof -
  have "unat w < 18446744073709551616" using unat_u32_less [of w] by linarith
  then show ?thesis by (simp add: unat_ucast_mod)
qed

text \<open>
  \<open>verify\<close> relies on a converter and a validator; with any that keep their contracts it compares the
  hash of the key that signed with the expected one.
\<close>

locale auth_scheme = message_converter convert signed + signature_validator validate key_hash
  for convert signed validate key_hash
begin

lemma verify_eq:
  assumes ok: "env_ok E" and len: "unat sig_len = length sig" and msg: "length msg = 32" and hash: "length hash = 20"
  shows "verify E hash sig sig_len msg 32 validate convert =
    run_bind (scheme_key_hash signed key_hash E sig msg) (\<lambda>h. CHECK2 (hash = h) ERROR_MISMATCHED)"
proof -
  have len': "unat (ucast sig_len :: u64) = length sig" using len by (simp only: unat_u32_u64)
  have v: "validate E sig (ucast sig_len) m 32 (uninit E 20) 20 = run_bind (key_hash E sig m) (\<lambda>h. Ret (h, 20))"
    if "signed E msg = Ret m" for m
    using validate_eq [OF ok len' signed_length [OF ok msg that]] by simp
  have h: "length h = 20" if "signed E msg = Ret m" "key_hash E sig m = Ret h" for m h
    using key_hash_length [OF ok signed_length [OF ok msg that(1)] that(2)] .
  have c: "convert E msg (ucast (32 :: u32)) (uninit E 32) 32 = signed E msg"
    using convert_signed [OF ok msg, of "uninit E 32"] by simp
  show ?thesis
    unfolding verify_def scheme_key_hash_def c run_bind_assoc
    using v h hash by (auto simp: run_simps intro!: run_bind_cong)
qed

lemma verify_wrong_length: "msg_len \<noteq> 32 \<Longrightarrow> verify E hash sig sig_len msg msg_len validate convert = Err ERROR_INVALID_ARG"
proof -
  assume "msg_len \<noteq> (32 :: u32)"
  then have "(ucast msg_len :: u64) \<noteq> 32"
    by (simp add: word_unat_eq_iff unat_u32_u64)
  then show ?thesis by (simp add: verify_def convert_wrong_length)
qed

end

locale safe_scheme = message_converter convert signed + safe_validator validate key_hash
  for convert signed validate key_hash
begin

sublocale auth_scheme convert signed validate key_hash
  by unfold_locales

lemma verify_defined:
  assumes ok: "env_ok E" and len: "unat sig_len = length sig" and msg: "unat msg_len = length msg"
    and hash: "length hash = 20"
  shows "well_defined (verify E hash sig sig_len msg msg_len validate convert)"
proof (cases "msg_len = 32")
  case True
  then have m: "length msg = 32" using msg by simp
  show ?thesis
    unfolding True verify_eq [OF ok len m hash] scheme_key_hash_def
    using signed_defined key_hash_defined [OF ok signed_length [OF ok m]]
    by (auto intro!: well_defined_bind)
qed (simp add: verify_wrong_length)

end

interpretation ckb_scheme: safe_scheme convert_copy signed_copy validate_signature_ckb ckb_key_hash
  by unfold_locales
interpretation eth_scheme: safe_scheme convert_eth_message signed_eth validate_signature_eth eth_key_hash
  by unfold_locales
interpretation eos_scheme: safe_scheme convert_eos_message signed_eos validate_signature_eth eth_key_hash
  by unfold_locales
interpretation tron_scheme: safe_scheme convert_tron_message signed_tron validate_signature_eth eth_key_hash
  by unfold_locales
interpretation btc_scheme: safe_scheme convert_btc_message "signed_btc_magic btc_magic" validate_signature_btc btc_key_hash
  by unfold_locales
interpretation doge_scheme: safe_scheme convert_doge_message "signed_btc_magic doge_magic" validate_signature_btc btc_key_hash
  by unfold_locales
interpretation lite_scheme: safe_scheme convert_litecoin_message "signed_btc_magic lite_magic" validate_signature_btc btc_key_hash
  by unfold_locales
interpretation schnorr_scheme: safe_scheme convert_copy signed_copy validate_signature_schnorr schnorr_key_hash
  by unfold_locales
interpretation monero_scheme: safe_scheme convert_copy signed_copy validate_signature_monero monero_key_hash
  by unfold_locales
interpretation cardano_scheme: auth_scheme convert_copy signed_copy "validate_signature_cardano fuel u" "cardano_key_hash fuel u" for fuel u
  by unfold_locales
interpretation solana_scheme: auth_scheme convert_copy signed_copy validate_signature_solana solana_key_hash
  by unfold_locales

section \<open>The dispatch on the algorithm id\<close>

text \<open>What the algorithms that compare a key hash compute; the first four check the signature size
  before they convert the message.\<close>

definition if_65 :: "(env \<Rightarrow> bytes \<Rightarrow> bytes \<Rightarrow> bytes run) \<Rightarrow> env \<Rightarrow> bytes \<Rightarrow> bytes \<Rightarrow> bytes run" where
  "if_65 key_hash E sig msg = (if length sig = 65 then key_hash E sig msg else Err ERROR_INVALID_ARG)"

definition auth_key_hash :: "nat \<Rightarrow> nanocbor_value \<Rightarrow> byte \<Rightarrow> (env \<Rightarrow> bytes \<Rightarrow> bytes \<Rightarrow> bytes run) option" where
  "auth_key_hash fuel u alg =
     (if alg = AuthAlgorithmIdCkb then Some (if_65 (scheme_key_hash signed_copy ckb_key_hash))
      else if alg = AuthAlgorithmIdEthereum then Some (if_65 (scheme_key_hash signed_eth eth_key_hash))
      else if alg = AuthAlgorithmIdEos then Some (if_65 (scheme_key_hash signed_eos eth_key_hash))
      else if alg = AuthAlgorithmIdTron then Some (if_65 (scheme_key_hash signed_tron eth_key_hash))
      else if alg = AuthAlgorithmIdBitcoin then Some (scheme_key_hash (signed_btc_magic btc_magic) btc_key_hash)
      else if alg = AuthAlgorithmIdDogecoin then Some (scheme_key_hash (signed_btc_magic doge_magic) btc_key_hash)
      else if alg = AuthAlgorithmIdLitecoin then Some (scheme_key_hash (signed_btc_magic lite_magic) btc_key_hash)
      else if alg = AuthAlgorithmIdSchnorr then Some (scheme_key_hash signed_copy schnorr_key_hash)
      else if alg = AuthAlgorithmIdCardano then Some (scheme_key_hash signed_copy (cardano_key_hash fuel u))
      else if alg = AuthAlgorithmIdMonero then Some (scheme_key_hash signed_copy monero_key_hash)
      else if alg = AuthAlgorithmIdSolana then Some (scheme_key_hash signed_copy solana_key_hash)
      else None)"

lemma size_65: "unat (sig_len :: u32) = length sig \<Longrightarrow> sig_len = 65 \<longleftrightarrow> length sig = 65"
  by (auto simp: word_unat_eq_iff)

lemma validate_key_hash:
  assumes ok: "env_ok E" and len: "unat sig_len = length sig" and msg: "length msg = 32" and hash: "length hash = 20"
    and key: "auth_key_hash fuel u alg = Some key"
  shows "ckb_auth_validate fuel u E alg (Some sig) sig_len (Some msg) 32 hash 20 =
    run_bind (key E sig msg) (\<lambda>h. CHECK2 (hash = h) ERROR_MISMATCHED)"
proof -
  note a = ok len msg hash
  note v = ckb_scheme.verify_eq [OF a] eth_scheme.verify_eq [OF a] eos_scheme.verify_eq [OF a]
    tron_scheme.verify_eq [OF a] btc_scheme.verify_eq [OF a] doge_scheme.verify_eq [OF a]
    lite_scheme.verify_eq [OF a] schnorr_scheme.verify_eq [OF a] monero_scheme.verify_eq [OF a]
    cardano_scheme.verify_eq [OF a] solana_scheme.verify_eq [OF a]
  show ?thesis
    using key size_65 [OF len]
    by (auto simp: ckb_auth_validate_def auth_key_hash_def if_65_def v Let_def split: if_splits)
qed

lemmas wrong_length = ckb_scheme.verify_wrong_length eth_scheme.verify_wrong_length
  eos_scheme.verify_wrong_length tron_scheme.verify_wrong_length btc_scheme.verify_wrong_length
  doge_scheme.verify_wrong_length lite_scheme.verify_wrong_length schnorr_scheme.verify_wrong_length
  monero_scheme.verify_wrong_length cardano_scheme.verify_wrong_length solana_scheme.verify_wrong_length

lemma validate_wrong_message_size:
  assumes "auth_key_hash fuel u alg = Some key" and "msg_len \<noteq> 32"
  shows "ckb_auth_validate fuel u E alg (Some sig) sig_len (Some msg) msg_len hash 20 = Err ERROR_INVALID_ARG"
  using assms
  by (auto simp: ckb_auth_validate_def auth_key_hash_def wrong_length Let_def CHECK2_def split: if_splits)

section \<open>The owner lock\<close>

definition lock_status :: "env \<Rightarrow> nat \<Rightarrow> int" where
  "lock_status E i = fst (checked_load_cell_by_field E 32 0 (word_of_nat i) CKB_SOURCE_INPUT CKB_CELL_FIELD_LOCK_HASH)"

definition lock_hash :: "env \<Rightarrow> nat \<Rightarrow> bytes" where
  "lock_hash E i =
     (let out = snd (snd (checked_load_cell_by_field E 32 0 (word_of_nat i) CKB_SOURCE_INPUT CKB_CELL_FIELD_LOCK_HASH))
      in out @ drop (length out) (uninit E 32))"

lemma lock_hash_step:
  assumes ok: "loads_ok E" and hash: "20 \<le> length hash"
  shows "lock_hash_loop (Suc fuel) E hash (word_of_nat i) =
    (if lock_status E i \<noteq> 0 then Ret False
     else if take 20 hash = take 20 (lock_hash E i) then Ret True
     else lock_hash_loop fuel E hash (word_of_nat (Suc i)))"
proof -
  obtain err n out where l: "checked_load_cell_by_field E 32 0 (word_of_nat i) CKB_SOURCE_INPUT CKB_CELL_FIELD_LOCK_HASH = (err, n, out)"
    using prod_cases3 by blast
  have "length (snd (snd (checked_load_cell_by_field E 32 0 (word_of_nat i) CKB_SOURCE_INPUT CKB_CELL_FIELD_LOCK_HASH))) \<le> unat (32 :: u64)"
    using ok unfolding loads_ok_def by blast
  then have "length out \<le> 32" using l by simp
  then show ?thesis using l hash by (simp add: lock_status_def lock_hash_def Let_def add.commute)
qed

text \<open>\<open>n\<close> is the number of inputs, the first index at which the system call fails.\<close>

definition inputs :: "env \<Rightarrow> nat \<Rightarrow> bool" where
  "inputs E n \<longleftrightarrow> lock_status E n \<noteq> 0 \<and> (\<forall>i < n. lock_status E i = 0)"

lemma lock_hash_loop_eq:
  assumes ok: "loads_ok E" and hash: "20 \<le> length hash" and n: "inputs E n"
  shows "i \<le> n \<Longrightarrow> n < i + fuel \<Longrightarrow>
    lock_hash_loop fuel E hash (word_of_nat i) = Ret (\<exists>j \<in> {i..<n}. take 20 hash = take 20 (lock_hash E j))"
proof (induction fuel arbitrary: i)
  case (Suc fuel)
  show ?case
  proof (cases "i = n")
    case True
    then show ?thesis using n unfolding lock_hash_step [OF ok hash] by (simp add: inputs_def)
  next
    case False
    then have "{i..<n} = insert i {Suc i..<n}" using Suc.prems(1) by auto
    moreover have "lock_status E i = 0" using n Suc.prems(1) False by (simp add: inputs_def)
    moreover have "lock_hash_loop fuel E hash (word_of_nat (Suc i)) =
        Ret (\<exists>j \<in> {Suc i..<n}. take 20 hash = take 20 (lock_hash E j))"
      using Suc.prems False by (intro Suc.IH) simp_all
    ultimately show ?thesis unfolding lock_hash_step [OF ok hash] by simp
  qed
qed simp

lemma validate_owner_lock:
  assumes ok: "env_ok E" and hash: "length hash = 20" and n: "inputs E n" "n < fuel" and ml: "0 < msg_len"
  shows "ckb_auth_validate fuel u E AuthAlgorithmIdOwnerLock (Some sig) sig_len (Some msg) msg_len hash 20 =
    (if \<exists>j < n. take 20 (lock_hash E j) = hash then Ret () else Err ERROR_MISMATCHED)"
proof -
  have "is_lock_script_hash_present fuel E hash = Ret (\<exists>j \<in> {0..<n}. take 20 hash = take 20 (lock_hash E j))"
    unfolding is_lock_script_hash_present_def
    using lock_hash_loop_eq [of E hash n 0 fuel] ok hash n by (simp add: env_ok_def)
  then show ?thesis
    using hash ml by (auto simp: ckb_auth_validate_def Let_def CHECK2_def)
qed

section \<open>Memory safety\<close>

lemma auth_validate_defined:
  assumes ok: "env_ok E" and len: "unat sig_len = length sig" and msg: "unat msg_len = length msg" and hash: "length hash = 20"
    and alg: "alg \<notin> {AuthAlgorithmIdCardano, AuthAlgorithmIdSolana, AuthAlgorithmIdOwnerLock}"
    and ms: "alg = AuthAlgorithmIdCkbMultisig \<Longrightarrow> 4 \<le> length sig \<and> length msg = 32"
  shows "well_defined (ckb_auth_validate fuel u E alg (Some sig) sig_len (Some msg) msg_len hash n)"
proof -
  note a = ok len msg hash
  note v = ckb_scheme.verify_defined [OF a] eth_scheme.verify_defined [OF a] eos_scheme.verify_defined [OF a]
    tron_scheme.verify_defined [OF a] btc_scheme.verify_defined [OF a] doge_scheme.verify_defined [OF a]
    lite_scheme.verify_defined [OF a] schnorr_scheme.verify_defined [OF a] monero_scheme.verify_defined [OF a]
  have "unat (ucast sig_len :: u64) = length sig" using len by (simp only: unat_u32_u64)
  then have "well_defined (verify_multisig E sig (ucast sig_len) msg hash)" if "alg = AuthAlgorithmIdCkbMultisig"
    using verify_multisig_defined [OF ok _ _ _, of "ucast sig_len" sig hash msg] hash ms [OF that] by simp
  then show ?thesis
    using alg v by (auto simp: ckb_auth_validate_def Let_def intro!: well_defined_bind)
qed

section \<open>Properties\<close>

text \<open>C1: For every algorithm that compares a key hash, \<open>ckb_auth_validate\<close> with a 32 byte message computes
  the hash of the key under which the signature signs the chain's form of the message, and returns
  success exactly if that succeeds and gives the expected 20 bytes; it returns \<open>ERROR_MISMATCHED\<close>
  for another key and otherwise the error of the scheme.\<close>

theorem auth_validate_refines:
  assumes "env_ok E" and "unat sig_len = length sig" and "length msg = 32" and "length hash = 20"
    and "auth_key_hash fuel u alg = Some key"
  shows "ckb_auth_validate fuel u E alg (Some sig) sig_len (Some msg) 32 hash 20 =
    run_bind (key E sig msg) (\<lambda>h. CHECK2 (hash = h) ERROR_MISMATCHED)"
  using assms by (rule validate_key_hash)

theorem auth_validate_refines_witness:
  "ckb_auth_validate 0 empty_value example_env 7 (Some (replicate 96 3)) 96 (Some (replicate 32 1)) 32 (replicate 20 3) 20 = Ret () \<and>
   ckb_auth_validate 0 empty_value example_env 7 (Some (replicate 96 3)) 96 (Some (replicate 32 1)) 32 (replicate 20 4) 20 = Err ERROR_MISMATCHED"
proof -
  have k: "auth_key_hash 0 empty_value 7 = Some (scheme_key_hash signed_copy schnorr_key_hash)"
    by (simp add: auth_key_hash_def)
  have r: "scheme_key_hash signed_copy schnorr_key_hash example_env (replicate 96 3) (replicate 32 1) = Ret (replicate 20 3)"
    by code_simp
  have d: "replicate 20 4 \<noteq> (replicate 20 3 :: bytes)" by code_simp
  show ?thesis
    using auth_validate_refines [OF example_env_ok _ _ _ k, of 96 "replicate 96 3" "replicate 32 1"] r d by simp
qed

text \<open>C11: The owner lock accepts exactly if one of the transaction's inputs has a lock script whose hash starts
  with the 20 given bytes, whatever signature and message are: the search over the inputs ends
  after the last one, and the comparison is right at every index.\<close>

theorem owner_lock_iff_input:
  assumes "env_ok E" and "length hash = 20" and "inputs E n" and "n < fuel" and "0 < msg_len"
  shows "ckb_auth_validate fuel u E 0xFC (Some sig) sig_len (Some msg) msg_len hash 20 =
    (if \<exists>j < n. take 20 (lock_hash E j) = hash then Ret () else Err ERROR_MISMATCHED)"
  using assms by (rule validate_owner_lock)

lemma example_inputs: "inputs example_env 1"
  by (auto simp: inputs_def lock_status_def example_env_def)

theorem owner_lock_iff_input_witness:
  "ckb_auth_validate 2 empty_value example_env 0xFC (Some []) 0 (Some [7]) 1 (replicate 20 5) 20 = Ret ()"
proof -
  have "take 20 (lock_hash example_env 0) = replicate 20 5"
    by (simp add: lock_hash_def example_env_def Let_def)
  then show ?thesis
    using owner_lock_iff_input [OF example_env_ok _ example_inputs, of "replicate 20 5" 2 1 empty_value "[]" 0 "[7]"]
    by simp
qed

text \<open>C24: Every other request is refused: a null signature or message, an empty message or a key hash of another
  size than 20 gives \<open>ERROR_INVALID_ARG\<close>, as does a message of another size than 32 for the
  algorithms that compare a key hash, and an algorithm id without an implementation (RSA and
  ISO 9796-2 included) gives \<open>ERROR_NOT_IMPLEMENTED\<close>.\<close>

theorem auth_validate_rejects:
  assumes "wrong_len \<noteq> 32" and "auth_key_hash fuel u known = Some key" and "0 < some_len"
    and "unknown \<notin> {0, 1, 2, 3, 4, 5, 6, 7, 10, 11, 12, 13, 0xFC}"
  shows "ckb_auth_validate fuel u E alg None sig_len msg' msg_len hash n = Err ERROR_INVALID_ARG \<and>
    ckb_auth_validate fuel u E alg sig' sig_len None msg_len hash n = Err ERROR_INVALID_ARG \<and>
    ckb_auth_validate fuel u E alg sig' sig_len msg' 0 hash n = Err ERROR_INVALID_ARG \<and>
    (n \<noteq> 20 \<longrightarrow> ckb_auth_validate fuel u E alg sig' sig_len msg' msg_len hash n = Err ERROR_INVALID_ARG) \<and>
    ckb_auth_validate fuel u E known (Some sig) sig_len (Some msg) wrong_len hash 20 = Err ERROR_INVALID_ARG \<and>
    ckb_auth_validate fuel u E unknown (Some sig) sig_len (Some msg) some_len hash 20 = Err ERROR_NOT_IMPLEMENTED"
  using validate_wrong_message_size [OF assms(2,1)] assms(3,4)
  by (simp add: ckb_auth_validate_def CHECK2_def)

theorem auth_validate_rejects_witness:
  "ckb_auth_validate 0 empty_value example_env 0 (Some (replicate 65 0)) 65 (Some [1]) 1 (replicate 20 0) 20 = Err ERROR_INVALID_ARG \<and>
   ckb_auth_validate 0 empty_value example_env 8 (Some (replicate 65 0)) 65 (Some [1]) 1 (replicate 20 0) 20 = Err ERROR_NOT_IMPLEMENTED"
  using auth_validate_rejects [of 1 0 empty_value 0 "if_65 (scheme_key_hash signed_copy ckb_key_hash)" 1 8 example_env 0 65 None 1
      "replicate 20 0" 20 None "replicate 65 0" "[1]"]
  by (simp add: auth_key_hash_def)

text \<open>C10: \<open>ckb_auth_validate\<close> is memory safe and ends for every algorithm id other than Cardano, Solana and the
  owner lock, on every signature, message and key hash object whose sizes are those passed
  along; multisig (algorithm id 6) needs at least four signature bytes and a 32 byte message for it.\<close>

theorem auth_validate_memory_safe:
  assumes "env_ok E" and "unat sig_len = length sig" and "unat msg_len = length msg" and "length hash = 20"
    and "alg \<notin> {11, 13, 0xFC}" and "alg = 6 \<Longrightarrow> 4 \<le> length sig \<and> length msg = 32"
  shows "well_defined (ckb_auth_validate fuel u E alg (Some sig) sig_len (Some msg) msg_len hash n)"
  using assms by (rule auth_validate_defined)

theorem auth_validate_memory_safe_witness:
  "well_defined (ckb_auth_validate 0 empty_value example_env 4 (Some [1, 2, 3]) 3 (Some (replicate 32 7)) 32 (replicate 20 0) 20)"
  by (rule auth_validate_memory_safe [OF example_env_ok]) simp_all

end
