(* ===== verification/Elf_Reloc.thy ===== *)
theory Elf_Reloc
  imports Auth_Prelude
begin

text \<open>
  The start-up code of \<open>main\<close> in c/auth.c: the position independent binary, loaded by the VM at
  address 0, finds its own program headers, scans the dynamic section for the relocation table
  and applies the entries. Memory is a function from 64 bit addresses to bytes; the layout of the ELF
  structures is that of the ELF-64 object file format.
\<close>

section \<open>Model\<close>

type_synonym mem = "u64 \<Rightarrow> byte"

abbreviation (input) PT_DYNAMIC :: u32 where "PT_DYNAMIC \<equiv> 2"
abbreviation (input) R_RISCV_RELATIVE :: u64 where "R_RISCV_RELATIVE \<equiv> 3"
abbreviation (input) OFFSETOF_e_phoff :: u64 where "OFFSETOF_e_phoff \<equiv> 32"
abbreviation (input) OFFSETOF_e_phnum :: u64 where "OFFSETOF_e_phnum \<equiv> 56"

definition ld :: "nat \<Rightarrow> mem \<Rightarrow> u64 \<Rightarrow> bytes" where
  "ld n m a = map (\<lambda>k. m (a + word_of_nat k)) [0..<n]"

definition ld16 :: "mem \<Rightarrow> u64 \<Rightarrow> u16" where "ld16 m a = le_word (ld 2 m a)"
definition ld32 :: "mem \<Rightarrow> u64 \<Rightarrow> u32" where "ld32 m a = le_word (ld 4 m a)"
definition ld64 :: "mem \<Rightarrow> u64 \<Rightarrow> u64" where "ld64 m a = le_word (ld 8 m a)"

definition st64 :: "mem \<Rightarrow> u64 \<Rightarrow> u64 \<Rightarrow> mem" where
  "st64 m a w = (\<lambda>x. if x - a < 8 then le_bytes 8 w ! unat (x - a) else m x)"

text \<open>The \<open>while\<close> loop over the dynamic section, entries of 16 bytes.\<close>

fun scan_dynamic :: "nat \<Rightarrow> mem \<Rightarrow> u64 \<Rightarrow> u64 \<Rightarrow> u64 \<Rightarrow> (u64 \<times> u64) run" where
  "scan_dynamic 0 m d rela_address rela_count = NoFuel"
| "scan_dynamic (Suc fuel) m d rela_address rela_count =
     (let type = ld64 m d; val = ld64 m (d + 8) in
      if type = 0 then Ret (rela_address, rela_count)
      else if type = 0x7 then scan_dynamic fuel m (d + 16) val rela_count
      else if type = 0x6ffffff9 then scan_dynamic fuel m (d + 16) rela_address val
      else scan_dynamic fuel m (d + 16) rela_address rela_count)"

text \<open>The loop over the relocations, entries of 24 bytes; the counter \<open>j\<close> is a 32 bit \<open>int\<close>, whose
  overflow is undefined. \<open>ERROR_INVALID_ELF\<close> is a constant of ckb-c-stdlib.\<close>

function relocate_loop :: "int \<Rightarrow> mem \<Rightarrow> u64 \<Rightarrow> u64 \<Rightarrow> int \<Rightarrow> mem run" where
  "relocate_loop ERROR_INVALID_ELF m relocations rela_count j =
     (if word_of_int j < rela_count then
        let relocation = relocations + 24 * word_of_int j in
        if ld64 m (relocation + 8) \<noteq> R_RISCV_RELATIVE then Err ERROR_INVALID_ELF
        else let m = st64 m (ld64 m relocation) (ld64 m (relocation + 16)) in
          if j \<ge> 2147483647 then Fault
          else relocate_loop ERROR_INVALID_ELF m relocations rela_count (j + 1)
      else Ret m)"
  by pat_completeness auto
termination
  by (relation "measure (\<lambda>(e, m, r, c, j). nat (2147483648 - j))") auto

declare relocate_loop.simps [simp del]

text \<open>The loop over the program headers, entries of 56 bytes. \<open>*phnum\<close> is read in every iteration.\<close>

function phdr_loop :: "int \<Rightarrow> nat \<Rightarrow> mem \<Rightarrow> u64 \<Rightarrow> nat \<Rightarrow> mem run" where
  "phdr_loop ERROR_INVALID_ELF fuel m program_headers i =
     (if i < unat (ld16 m OFFSETOF_e_phnum) then
        let program_header = program_headers + 56 * word_of_nat i in
        run_bind (if ld32 m program_header = PT_DYNAMIC then
            run_bind (scan_dynamic fuel m (ld64 m (program_header + 16)) 0 0) (\<lambda>(rela_address, rela_count).
            if rela_address > 0 \<and> rela_count > 0
            then relocate_loop ERROR_INVALID_ELF m rela_address rela_count 0 else Ret m)
          else Ret m) (\<lambda>m.
        phdr_loop ERROR_INVALID_ELF fuel m program_headers (i + 1))
      else Ret m)"
  by pat_completeness auto
termination
proof (relation "measure (\<lambda>(e, fuel, m, p, i). 65536 - i)", goal_cases)
  case (2 e fuel m p i)
  then have "i < 65536" using unat_u16_less [of "ld16 m 56"] by linarith
  then show ?case by simp
qed simp

declare phdr_loop.simps [simp del]

definition elf_relocate :: "int \<Rightarrow> nat \<Rightarrow> mem \<Rightarrow> mem run" where
  "elf_relocate ERROR_INVALID_ELF fuel m = phdr_loop ERROR_INVALID_ELF fuel m (ld64 m OFFSETOF_e_phoff) 0"

section \<open>Loads and stores\<close>

text \<open>No byte of the \<open>n\<close> bytes at \<open>a\<close> is one of the \<open>k\<close> bytes at \<open>b\<close>.\<close>

definition apart :: "u64 \<Rightarrow> nat \<Rightarrow> u64 \<Rightarrow> nat \<Rightarrow> bool" where
  "apart a n b k \<longleftrightarrow> (\<forall>i \<in> set [0..<n]. \<forall>j \<in> set [0..<k]. a + word_of_nat i \<noteq> b + word_of_nat j)"

lemma length_ld [simp]: "length (ld n m a) = n"
  by (simp add: ld_def)

lemma st64_other: "\<forall>j \<in> set [0..<8]. x \<noteq> a + word_of_nat j \<Longrightarrow> st64 m a w x = m x"
proof -
  assume a: "\<forall>j \<in> set [0..<8]. x \<noteq> a + word_of_nat j"
  have "\<not> unat (x - a) < 8"
  proof
    assume "unat (x - a) < 8"
    then have "unat (x - a) \<in> set [0..<8]" by simp
    then have "x \<noteq> a + word_of_nat (unat (x - a))" using a by blast
    then show False by simp
  qed
  then show ?thesis by (simp add: st64_def word_less_nat_alt)
qed

lemma ld_st64_apart: "apart a n b 8 \<Longrightarrow> ld n (st64 m b w) a = ld n m a"
  by (simp add: ld_def apart_def st64_other)

lemma ld64_st64: "ld64 (st64 m a w) a = w"
proof -
  have "ld 8 (st64 m a w) a = le_bytes 8 w"
  proof (rule nth_equalityI)
    fix k assume "k < length (ld 8 (st64 m a w) a)"
    then have k: "k < 8" by simp
    have "unat (word_of_nat k :: u64) = k" by (rule unat_word_of_nat) (use k in simp)
    then show "ld 8 (st64 m a w) a ! k = le_bytes 8 w ! k"
      using k by (simp add: ld_def st64_def word_less_nat_alt)
  qed simp
  then show ?thesis by (simp add: ld64_def)
qed

text \<open>Memories that agree on \<open>N\<close> bytes at \<open>a\<close> agree on every part of them.\<close>

lemma ld_sub:
  assumes "ld N m a = ld N m' a" and "i + n \<le> N" and "b = a + word_of_nat i"
  shows "ld n m b = ld n m' b"
proof (rule nth_equalityI)
  fix k assume "k < length (ld n m b)"
  then have k: "k < n" by simp
  then have "ld N m a ! (i + k) = ld N m' a ! (i + k)" using assms by simp
  then show "ld n m b ! k = ld n m' b ! k"
    using k assms(2,3) by (simp add: ld_def add.assoc)
qed simp

section \<open>The tables of an image\<close>

fun phdr_table :: "mem \<Rightarrow> u64 \<Rightarrow> (u32 \<times> u64) list \<Rightarrow> bool" where
  "phdr_table m p [] = True"
| "phdr_table m p ((type, vaddr) # hs) =
     (ld32 m p = type \<and> ld64 m (p + 16) = vaddr \<and> phdr_table m (p + 56) hs)"

fun dyn_table :: "mem \<Rightarrow> u64 \<Rightarrow> (u64 \<times> u64) list \<Rightarrow> bool" where
  "dyn_table m d [] = (ld64 m d = 0)"
| "dyn_table m d ((type, val) # ds) =
     (type \<noteq> 0 \<and> ld64 m d = type \<and> ld64 m (d + 8) = val \<and> dyn_table m (d + 16) ds)"

text \<open>The value of the last entry of a type.\<close>

fun dyn_get :: "u64 \<Rightarrow> u64 \<Rightarrow> (u64 \<times> u64) list \<Rightarrow> u64" where
  "dyn_get key dflt [] = dflt"
| "dyn_get key dflt ((type, val) # ds) = dyn_get key (if type = key then val else dflt) ds"

text \<open>Offsets and addends of a table of relative relocations.\<close>

fun rela_table :: "mem \<Rightarrow> u64 \<Rightarrow> (u64 \<times> u64) list \<Rightarrow> bool" where
  "rela_table m a [] = True"
| "rela_table m a ((off, addend) # rs) =
     (ld64 m a = off \<and> ld64 m (a + 8) = R_RISCV_RELATIVE \<and> ld64 m (a + 16) = addend \<and> rela_table m (a + 24) rs)"

fun apply_relas :: "mem \<Rightarrow> (u64 \<times> u64) list \<Rightarrow> mem" where
  "apply_relas m [] = m"
| "apply_relas m ((off, addend) # rs) = apply_relas (st64 m off addend) rs"

lemma phdr_table_frame:
  "ld (56 * length hs) m p = ld (56 * length hs) m' p \<Longrightarrow> phdr_table m p hs = phdr_table m' p hs"
proof (induction hs arbitrary: p)
  case (Cons h hs)
  note eq = ld_sub [OF Cons.prems]
  have "ld 4 m p = ld 4 m' p" "ld 8 m (p + 16) = ld 8 m' (p + 16)"
    "ld (56 * length hs) m (p + 56) = ld (56 * length hs) m' (p + 56)"
    using eq [of 0 4 p] eq [of 16 8 "p + 16"] eq [of 56 "56 * length hs" "p + 56"] by simp_all
  then show ?case using Cons.IH by (cases h) (simp add: ld32_def ld64_def)
qed simp

lemma rela_table_frame:
  "ld (24 * length rs) m a = ld (24 * length rs) m' a \<Longrightarrow> rela_table m a rs = rela_table m' a rs"
proof (induction rs arbitrary: a)
  case (Cons r rs)
  note eq = ld_sub [OF Cons.prems]
  have "ld 8 m a = ld 8 m' a" "ld 8 m (a + 8) = ld 8 m' (a + 8)" "ld 8 m (a + 16) = ld 8 m' (a + 16)"
    "ld (24 * length rs) m (a + 24) = ld (24 * length rs) m' (a + 24)"
    using eq [of 0 8 a] eq [of 8 8 "a + 8"] eq [of 16 8 "a + 16"] eq [of 24 "24 * length rs" "a + 24"] by simp_all
  then show ?case using Cons.IH by (cases r) (simp add: ld64_def)
qed simp

lemma apart_sub:
  assumes "apart a N b k" and "i + n \<le> N" and "a' = a + word_of_nat i"
  shows "apart a' n b k"
  unfolding apart_def
proof (intro ballI)
  fix x y assume "x \<in> set [0..<n]" "y \<in> set [0..<k]"
  moreover from this have "i + x \<in> set [0..<N]" using assms(2) by simp
  ultimately have "a + word_of_nat (i + x) \<noteq> b + word_of_nat y" using assms(1) unfolding apart_def by blast
  then show "a' + word_of_nat x \<noteq> b + word_of_nat y" by (simp add: assms(3) add.assoc)
qed

lemma ld_apply_apart: "\<forall>r \<in> set rs. apart a n (fst r) 8 \<Longrightarrow> ld n (apply_relas m rs) a = ld n m a"
  by (induction m rs rule: apply_relas.induct) (simp_all add: ld_st64_apart)

section \<open>The loops\<close>

lemma scan_dynamic_eq:
  "dyn_table m d ds \<Longrightarrow> length ds < fuel \<Longrightarrow>
   scan_dynamic fuel m d ra rc = Ret (dyn_get 7 ra ds, dyn_get 0x6ffffff9 rc ds)"
proof (induction ds arbitrary: d ra rc fuel)
  case Nil
  then show ?case by (cases fuel) simp_all
next
  case (Cons e ds)
  then show ?case by (cases fuel; cases e) (auto simp: Let_def)
qed

lemma relocate_loop_eq:
  assumes "rela_table m (a + 24 * word_of_int j) rs" and "\<forall>r \<in> set rs. apart (a + 24 * word_of_int j) (24 * length rs) (fst r) 8"
    and "0 \<le> j" and "j + int (length rs) < 2147483648" and "cnt = word_of_int (j + int (length rs))"
  shows "relocate_loop e m a cnt j = Ret (apply_relas m rs)"
  using assms
proof (induction rs arbitrary: m j)
  case Nil
  then show ?case by (subst relocate_loop.simps) simp
next
  case (Cons r rs)
  obtain off addend where r: "r = (off, addend)" by (cases r)
  let ?b = "a + 24 * word_of_int j" and ?m = "st64 m off addend"
  have next_b: "a + 24 * word_of_int (j + 1) = ?b + 24" by (simp add: algebra_simps)
  have u: "uint (word_of_int k :: u64) = k" if "0 \<le> k" "k < 2147483648" for k
    using that by (simp add: uint_word_of_int)
  have "uint (word_of_int j :: u64) = j" using Cons.prems(3,4) by (intro u) simp_all
  moreover have "uint cnt = j + int (length (r # rs))"
    unfolding Cons.prems(5) using Cons.prems(3,4) by (intro u) linarith+
  ultimately have "(word_of_int j :: u64) < cnt" by (simp add: word_less_def)
  moreover have "\<not> j \<ge> 2147483647" using Cons.prems(4) by simp
  moreover have "ld64 m ?b = off" "ld64 m (?b + 8) = 3" "ld64 m (?b + 16) = addend"
    using Cons.prems(1) r by simp_all
  ultimately have step: "relocate_loop e m a cnt j = relocate_loop e ?m a cnt (j + 1)"
    by (subst relocate_loop.simps) (simp only: Let_def if_True if_False not_True_eq_False refl simp_thms)
  have ap: "apart (?b + 24) (24 * length rs) (fst q) 8" if "q \<in> set (r # rs)" for q
  proof -
    have "apart ?b (24 * length (r # rs)) (fst q) 8" using Cons.prems(2) that by blast
    then show ?thesis by (rule apart_sub [of _ _ _ _ 24]) simp_all
  qed
  have "rela_table ?m (?b + 24) rs"
    using rela_table_frame [OF ld_st64_apart [OF ap [of r]], of m addend] Cons.prems(1) r by simp
  then have "relocate_loop e ?m a cnt (j + 1) = Ret (apply_relas ?m rs)"
    using ap Cons.prems(3-5) by (intro Cons.IH) (simp_all add: next_b algebra_simps)
  then show ?case using step r by simp
qed

lemma phdr_skip:
  "phdr_table m (p + 56 * word_of_nat i) hs \<Longrightarrow> 2 \<notin> fst ` set hs \<Longrightarrow> i + length hs \<le> unat (ld16 m 56) \<Longrightarrow>
   phdr_loop e fuel m p i = phdr_loop e fuel m p (i + length hs)"
proof (induction hs arbitrary: i)
  case (Cons h hs)
  have "p + 56 * word_of_nat (Suc i) = p + 56 * word_of_nat i + 56" by (simp add: algebra_simps)
  then have "phdr_table m (p + 56 * word_of_nat (Suc i)) hs" using Cons.prems(1) by (cases h) (simp only: phdr_table.simps)
  then have "phdr_loop e fuel m p (Suc i) = phdr_loop e fuel m p (Suc i + length hs)"
    using Cons.prems(2,3) by (intro Cons.IH) simp_all
  moreover have "phdr_loop e fuel m p i = phdr_loop e fuel m p (Suc i)"
    using Cons.prems by (subst phdr_loop.simps) (cases h, simp add: Let_def)
  ultimately show ?case by simp
qed simp

lemma phdr_table_append:
  "phdr_table m p (xs @ ys) \<longleftrightarrow> phdr_table m p xs \<and> phdr_table m (p + 56 * word_of_nat (length xs)) ys"
  by (induction m p xs rule: phdr_table.induct) (simp_all add: algebra_simps)

section \<open>The whole start-up\<close>

text \<open>
  A memory image with one dynamic segment, at \<open>d\<close>, whose section \<open>dyn\<close> names the table of the
  relocations \<open>rels\<close>; the other program headers are \<open>pre\<close> and \<open>post\<close>.
\<close>

definition elf_image ::
  "mem \<Rightarrow> (u32 \<times> u64) list \<Rightarrow> (u32 \<times> u64) list \<Rightarrow> u64 \<Rightarrow> (u64 \<times> u64) list \<Rightarrow> (u64 \<times> u64) list \<Rightarrow> bool" where
  "elf_image m pre post d dyn rels \<longleftrightarrow>
     unat (ld16 m OFFSETOF_e_phnum) = length (pre @ (PT_DYNAMIC, d) # post) \<and>
     phdr_table m (ld64 m OFFSETOF_e_phoff) (pre @ (PT_DYNAMIC, d) # post) \<and>
     list_all (\<lambda>h. fst h \<noteq> PT_DYNAMIC) (pre @ post) \<and> dyn_table m d dyn \<and> 0 < dyn_get 7 0 dyn \<and>
     dyn_get 0x6ffffff9 0 dyn = word_of_int (int (length rels)) \<and>
     0 < int (length rels) \<and> int (length rels) < 2147483648 \<and> rela_table m (dyn_get 7 0 dyn) rels"

text \<open>No relocation touches the tables that the start-up code reads later.\<close>

definition targets_apart :: "mem \<Rightarrow> nat \<Rightarrow> (u64 \<times> u64) list \<Rightarrow> (u64 \<times> u64) list \<Rightarrow> bool" where
  "targets_apart m phnum dyn rels \<longleftrightarrow> list_all (\<lambda>r. apart (dyn_get 7 0 dyn) (24 * length rels) (fst r) 8 \<and>
     apart (ld64 m OFFSETOF_e_phoff) (56 * phnum) (fst r) 8 \<and> apart OFFSETOF_e_phnum 2 (fst r) 8) rels"

lemma elf_relocate_eq:
  assumes img: "elf_image m pre post d dyn rels" and ta: "targets_apart m (length (pre @ (2, d) # post)) dyn rels"
    and fuel: "length dyn < fuel"
  shows "elf_relocate e fuel m = Ret (apply_relas m rels)"
proof -
  let ?p = "ld64 m 32" and ?hs = "pre @ (2, d) # post" and ?i = "length pre" and ?m = "apply_relas m rels"
  note im = img [unfolded elf_image_def]
  have nd: "2 \<notin> fst ` set pre" "2 \<notin> fst ` set post" using im by (simp_all add: list_all_iff image_iff eq_commute [of 2])
  have tab: "phdr_table m ?p pre" "ld32 m (?p + 56 * word_of_nat ?i) = 2" "ld64 m (?p + 56 * word_of_nat ?i + 16) = d"
    using im by (simp_all add: phdr_table_append)
  have ap: "\<forall>r \<in> set rels. apart (dyn_get 7 0 dyn) (24 * length rels) (fst r) 8"
    "\<forall>r \<in> set rels. apart ?p (56 * length ?hs) (fst r) 8" "\<forall>r \<in> set rels. apart 56 2 (fst r) 8"
    using ta by (auto simp: targets_apart_def list_all_iff)
  have rel: "relocate_loop e m (dyn_get 7 0 dyn) (dyn_get 0x6ffffff9 0 dyn) 0 = Ret ?m"
    using im ap(1) by (intro relocate_loop_eq) simp_all
  have cnt: "0 < dyn_get 0x6ffffff9 0 dyn"
    using im by (simp add: word_less_def uint_word_of_int del: of_int_of_nat_eq)
  have num: "ld16 ?m 56 = ld16 m 56" using ld_apply_apart [OF ap(3)] by (simp add: ld16_def)
  have "phdr_table ?m ?p ?hs" using phdr_table_frame [OF ld_apply_apart [OF ap(2)]] im by blast
  then have post: "phdr_table ?m (?p + 56 * word_of_nat (Suc ?i)) post"
    by (simp add: phdr_table_append algebra_simps)
  have "phdr_loop e fuel m ?p 0 = phdr_loop e fuel m ?p ?i"
    using phdr_skip [of m ?p 0 pre e fuel] tab(1) nd(1) im by simp
  also have "\<dots> = phdr_loop e fuel ?m ?p (Suc ?i)"
    using scan_dynamic_eq [of m d dyn fuel 0 0] im fuel tab rel cnt by (subst phdr_loop.simps) (simp add: Let_def)
  also have "\<dots> = phdr_loop e fuel ?m ?p (Suc ?i + length post)"
    using post nd(2) num im by (intro phdr_skip) simp_all
  also have "\<dots> = Ret ?m" using num im by (subst phdr_loop.simps) simp
  finally show ?thesis by (simp add: elf_relocate_def)
qed

text \<open>The effect of relocations at pairwise disjoint targets.\<close>

fun disjoint_targets :: "(u64 \<times> u64) list \<Rightarrow> bool" where
  "disjoint_targets [] = True"
| "disjoint_targets (r # rs) = (list_all (\<lambda>q. apart (fst r) 8 (fst q) 8) rs \<and> disjoint_targets rs)"

lemma apply_relas_target: "disjoint_targets rs \<Longrightarrow> (off, addend) \<in> set rs \<Longrightarrow> ld64 (apply_relas m rs) off = addend"
proof (induction m rs rule: apply_relas.induct)
  case (2 m o' a' rs)
  have "ld 8 (apply_relas (st64 m o' a') rs) o' = ld 8 (st64 m o' a') o'"
    using "2.prems"(1) by (intro ld_apply_apart) (simp add: list_all_iff)
  then have "ld64 (apply_relas (st64 m o' a') rs) o' = a'"
    using ld64_st64 [of m o' a'] by (simp add: ld64_def)
  then show ?case using 2 by auto
qed simp

lemma apply_relas_other: "\<forall>r \<in> set rs. apart x 1 (fst r) 8 \<Longrightarrow> apply_relas m rs x = m x"
  using ld_apply_apart [of rs x 1 m] by (simp add: ld_def)

section \<open>Properties\<close>

text \<open>C23: On an image with one dynamic segment whose relocations are all relative, do not overlap each other and
  leave the tables alone, the start-up code ends with success; afterwards every relocated
  word holds its addend and every other byte of memory is unchanged.\<close>

theorem elf_relocate_correct:
  assumes "elf_image m pre post d dyn rels" and "targets_apart m (length (pre @ (2, d) # post)) dyn rels"
    and "disjoint_targets rels" and "length dyn < fuel"
  shows "\<exists>m'. elf_relocate e fuel m = Ret m' \<and> (\<forall>(off, addend) \<in> set rels. ld64 m' off = addend) \<and>
    (\<forall>x. (\<forall>r \<in> set rels. apart x 1 (fst r) 8) \<longrightarrow> m' x = m x)"
  using elf_relocate_eq [OF assms(1,2,4)] apply_relas_target [OF assms(3)] apply_relas_other by auto

definition example_bytes :: bytes where
  "example_bytes = replicate 32 0 @ le_bytes 8 (64 :: u64) @ replicate 16 0 @ [2, 0] @ replicate 6 0 @
     le_bytes 4 (1 :: u32) @ replicate 52 0 @
     le_bytes 4 (2 :: u32) @ replicate 12 0 @ le_bytes 8 (176 :: u64) @ replicate 32 0 @
     le_bytes 8 (7 :: u64) @ le_bytes 8 (224 :: u64) @ le_bytes 8 (0x6ffffff9 :: u64) @ le_bytes 8 (1 :: u64) @ replicate 16 0 @
     le_bytes 8 (248 :: u64) @ le_bytes 8 (3 :: u64) @ le_bytes 8 (0x1234 :: u64) @ replicate 8 0xFF"

definition example_mem :: mem where
  "example_mem a = (if a < 256 then example_bytes ! unat a else 0)"

theorem elf_relocate_correct_witness:
  "\<exists>m'. elf_relocate (- 22) 3 example_mem = Ret m' \<and> ld64 m' 248 = 0x1234"
proof -
  have "elf_image example_mem [(1, 0)] [] 176 [(7, 224), (0x6ffffff9, 1)] [(248, 0x1234)]" by code_simp
  moreover have "targets_apart example_mem (length ([(1, 0)] @ (2 :: u32, 176 :: u64) # [])) [(7, 224), (0x6ffffff9, 1)] [(248, 0x1234)]"
    by code_simp
  ultimately show ?thesis using elf_relocate_correct [of example_mem "[(1, 0)]" "[]" 176 "[(7, 224), (0x6ffffff9, 1)]"
    "[(248, 0x1234)]" 3 "- 22"] by auto
qed

end
