(* ===== verification/Auth_Main.thy ===== *)
theory Auth_Main
  imports Auth_Entry Elf_Reloc
begin

text \<open>
  The spawn entry \<open>main\<close> of c/auth.c: the relocation of the image (theory \<open>Elf_Reloc\<close>), then the four
  hexadecimal arguments are checked, decoded and handed to \<open>ckb_auth_validate\<close>. An argument is the
  object that holds the C string. The memory of the start-up code and the objects of the rest of the
  program are separate in the model.
\<close>

section \<open>Model\<close>

text \<open>\<open>CHECK2(!ckb_hex2bin(text, buf, size, &len) && ok(len), code)\<close>\<close>

definition hex_arg :: "bytes \<Rightarrow> bytes \<Rightarrow> u32 \<Rightarrow> (u32 \<Rightarrow> bool) \<Rightarrow> int \<Rightarrow> (bytes \<times> u32) run" where
  "hex_arg text buf size' ok code =
     run_bind (run_catch (ckb_hex2bin (Some text) buf size') (\<lambda>_. Err code)) (\<lambda>(buf, len).
     run_bind (CHECK2 (ok len) code) (\<lambda>_. Ret (buf, len)))"

definition main_args :: "nat \<Rightarrow> nanocbor_value \<Rightarrow> env \<Rightarrow> int \<Rightarrow> bytes list \<Rightarrow> unit run" where
  "main_args fuel u E argc argv =
     (if argc \<noteq> 4 then Err (- 1)
      else case argv of [ARGV_ALGORITHM_ID, ARGV_SIGNATURE, ARGV_MESSAGE, ARGV_PUBKEY_HASH] \<Rightarrow>
        run_bind (c_strlen ARGV_ALGORITHM_ID) (\<lambda>n0.
        run_bind (c_strlen ARGV_SIGNATURE) (\<lambda>n1.
        run_bind (c_strlen ARGV_MESSAGE) (\<lambda>n2.
        run_bind (c_strlen ARGV_PUBKEY_HASH) (\<lambda>n3.
        let algorithm_id_len = word_of_nat n0 :: u32;
            signature_len = word_of_nat n1 :: u32;
            message_len = word_of_nat n2 :: u32;
            pubkey_hash_len = word_of_nat n3 :: u32 in
        if algorithm_id_len \<noteq> 2 \<or> signature_len mod 2 \<noteq> 0 \<or> message_len \<noteq> 32 * 2 \<or> pubkey_hash_len \<noteq> 20 * 2
        then Err ERROR_SPAWN_INVALID_LENGTH
        else if signature_len > 1024 * 64 * 2 then Err ERROR_SPAWN_SIGN_TOO_LONG
        else
          run_bind (hex_arg ARGV_ALGORITHM_ID [0] 1 (\<lambda>len. len = 1) ERROR_SPAWN_INVALID_ALGORITHM_ID)
            (\<lambda>(algorithm_id, algorithm_id_len).
          run_bind (hex_arg ARGV_SIGNATURE (uninit E (unat (signature_len div 2))) signature_len (\<lambda>len. True)
              ERROR_SPAWN_INVALID_SIG) (\<lambda>(sig, signature_len).
          run_bind (hex_arg ARGV_MESSAGE (uninit E BLAKE2B_BLOCK_SIZE) message_len (\<lambda>len. len = 32)
              ERROR_SPAWN_INVALID_MSG) (\<lambda>(message, message_len).
          run_bind (hex_arg ARGV_PUBKEY_HASH (uninit E BLAKE160_SIZE) pubkey_hash_len (\<lambda>len. len = 20)
              ERROR_SPAWN_INVALID_PUBKEY) (\<lambda>(pubkey_hash, pubkey_hash_len).
          ckb_auth_validate fuel u E (algorithm_id ! 0) (Some sig) signature_len (Some message) message_len
            pubkey_hash pubkey_hash_len))))))))
      | _ \<Rightarrow> Fault)"

definition auth_main :: "int \<Rightarrow> nat \<Rightarrow> nanocbor_value \<Rightarrow> env \<Rightarrow> mem \<Rightarrow> int \<Rightarrow> bytes list \<Rightarrow> unit run" where
  "auth_main ERROR_INVALID_ELF fuel u E m argc argv =
     run_bind (elf_relocate ERROR_INVALID_ELF fuel m) (\<lambda>_. main_args fuel u E argc argv)"

section \<open>The arguments\<close>

lemma hex_arg_eq:
  assumes "0 \<notin> set cs" and "length cs \<le> 2 * unat n" and "unat n < 2 ^ 31" and "length buf = length cs div 2"
    and "even (length cs)" and "length cs < 2 ^ 32"
  shows "hex_arg (cs @ [0]) buf n ok code =
    (case unhex cs of Some bs \<Rightarrow> run_bind (CHECK2 (ok (word_of_nat (length bs))) code) (\<lambda>_. Ret (bs, word_of_nat (length bs)))
     | None \<Rightarrow> Err code)"
  using ckb_hex2bin_eq [of cs n buf "[]"] assms unhex_length [of cs]
  by (auto simp: hex_arg_def split: option.splits)

text \<open>What \<open>main\<close> makes of the four strings.\<close>

definition parse_args :: "bytes \<Rightarrow> bytes \<Rightarrow> bytes \<Rightarrow> bytes \<Rightarrow> (byte \<times> bytes \<times> bytes \<times> bytes) run" where
  "parse_args a s m p =
     (if length a \<noteq> 2 \<or> odd (length s) \<or> length m \<noteq> 64 \<or> length p \<noteq> 40 then Err ERROR_SPAWN_INVALID_LENGTH
      else if int (length s) > 131072 then Err ERROR_SPAWN_SIGN_TOO_LONG
      else run_bind (or_fail ERROR_SPAWN_INVALID_ALGORITHM_ID (unhex a)) (\<lambda>alg.
        run_bind (or_fail ERROR_SPAWN_INVALID_SIG (unhex s)) (\<lambda>sig.
        run_bind (or_fail ERROR_SPAWN_INVALID_MSG (unhex m)) (\<lambda>msg.
        run_bind (or_fail ERROR_SPAWN_INVALID_PUBKEY (unhex p)) (\<lambda>hash.
        Ret (alg ! 0, sig, msg, hash))))))"

lemma unat_u32_len: "length xs < 2 ^ 32 \<Longrightarrow> unat (word_of_nat (length xs) :: u32) = length xs"
  by (rule unat_word_of_nat) simp

lemma arg_checks:
  assumes "length a < 2 ^ 32" and "length s < 2 ^ 32" and "length m < 2 ^ 32" and "length p < 2 ^ 32"
  shows "(word_of_nat (length a) :: u32) = 2 \<longleftrightarrow> length a = 2"
    and "(word_of_nat (length s) :: u32) mod 2 = 0 \<longleftrightarrow> even (length s)"
    and "(word_of_nat (length m) :: u32) = 64 \<longleftrightarrow> length m = 64"
    and "(word_of_nat (length p) :: u32) = 40 \<longleftrightarrow> length p = 40"
    and "(word_of_nat (length s) :: u32) > 131072 \<longleftrightarrow> length s > 131072"
  using assms [THEN unat_u32_len]
  by (simp_all add: word_unat_eq_iff word_less_nat_alt unat_mod even_iff_mod_2_eq_zero)

lemma or_fail_bind: "run_bind (or_fail c x) f = (case x of None \<Rightarrow> Err c | Some y \<Rightarrow> f y)"
  by (simp add: or_fail_def split: option.split)

lemma main_args_eq:
  assumes nz: "0 \<notin> set a" "0 \<notin> set s" "0 \<notin> set m" "0 \<notin> set p"
    and len: "length a < 2 ^ 32" "length s < 2 ^ 32" "length m < 2 ^ 32" "length p < 2 ^ 32"
  shows "main_args fuel u E 4 [a @ [0], s @ [0], m @ [0], p @ [0]] =
    run_bind (parse_args a s m p) (\<lambda>(alg, sig, msg, hash).
      ckb_auth_validate fuel u E alg (Some sig) (word_of_nat (length sig)) (Some msg) 32 hash 20)"
proof (cases "length a = 2 \<and> even (length s) \<and> length m = 64 \<and> length p = 40 \<and> length s \<le> 131072")
  case False
  then show ?thesis
    using nz by (auto simp: main_args_def parse_args_def arg_checks [OF len] Let_def)
next
  case True
  have sl: "unat (word_of_nat (length s) :: u32) = length s" using len(2) by (rule unat_u32_len)
  have half: "unat ((word_of_nat (length s) :: u32) div 2) = length s div 2" using sl by (simp add: unat_div)
  have h: "hex_arg (a @ [0]) [0] 1 (\<lambda>len. len = 1) ERROR_SPAWN_INVALID_ALGORITHM_ID =
      run_bind (or_fail ERROR_SPAWN_INVALID_ALGORITHM_ID (unhex a)) (\<lambda>b. Ret (b, 1))"
    "hex_arg (s @ [0]) (uninit E (length s div 2)) (word_of_nat (length s)) (\<lambda>len. True) ERROR_SPAWN_INVALID_SIG =
      run_bind (or_fail ERROR_SPAWN_INVALID_SIG (unhex s)) (\<lambda>b. Ret (b, word_of_nat (length b)))"
    "hex_arg (m @ [0]) (uninit E 32) 64 (\<lambda>len. len = 32) ERROR_SPAWN_INVALID_MSG =
      run_bind (or_fail ERROR_SPAWN_INVALID_MSG (unhex m)) (\<lambda>b. Ret (b, 32))"
    "hex_arg (p @ [0]) (uninit E 20) 40 (\<lambda>len. len = 20) ERROR_SPAWN_INVALID_PUBKEY =
      run_bind (or_fail ERROR_SPAWN_INVALID_PUBKEY (unhex p)) (\<lambda>b. Ret (b, 20))"
    using True nz sl unhex_length [of a] unhex_length [of m] unhex_length [of p]
    by (simp_all add: hex_arg_eq or_fail_def split: option.split)
  have mp: "(word_of_nat (length m) :: u32) = 64" "(word_of_nat (length p) :: u32) = 40"
    using True by simp_all
  have ev: "(word_of_nat (length s) :: u32) mod 2 = 0" using arg_checks(2) [OF len] True by blast
  show ?thesis
    using True nz
    by (simp add: main_args_def parse_args_def Let_def half mp h ev arg_checks [OF len] run_simps or_fail_bind split: option.split)
qed

section \<open>Properties\<close>

text \<open>C21: The spawn entry decodes its four arguments and hands them to \<open>ckb_auth_validate\<close>: for any four C strings,
  a wrong length, a signature of more than 64 KiB or a string that is not hexadecimal is refused
  with the error of the first failing check, in the order of the code; otherwise \<open>main\<close> returns what
  \<open>ckb_auth_validate\<close> returns on the decoded bytes and their sizes.\<close>

theorem main_decodes_arguments:
  assumes "elf_relocate err fuel m = Ret m'"
    and "0 \<notin> set a" and "0 \<notin> set s" and "0 \<notin> set msg" and "0 \<notin> set p"
    and "length a < 2 ^ 32" and "length s < 2 ^ 32" and "length msg < 2 ^ 32" and "length p < 2 ^ 32"
  shows "auth_main err fuel u E m 4 [a @ [0], s @ [0], msg @ [0], p @ [0]] =
    run_bind (parse_args a s msg p) (\<lambda>(alg, sig, message, hash).
      ckb_auth_validate fuel u E alg (Some sig) (word_of_nat (length sig)) (Some message) 32 hash 20)"
  using assms(1) main_args_eq [OF assms(2-9)] by (simp add: auth_main_def)

lemma example_no_headers: "elf_relocate e fuel (\<lambda>_. 0) = Ret (\<lambda>_. 0)"
proof -
  have "ld16 (\<lambda>_. 0) 56 = 0" by (simp add: ld16_def ld_def numeral_2_eq_2)
  then show ?thesis by (subst elf_relocate_def, subst phdr_loop.simps) simp
qed

theorem main_decodes_arguments_witness:
  "auth_main (- 22) 0 empty_value example_env (\<lambda>_. 0) 4
     [[0x30, 0x38] @ [0], [] @ [0], replicate 64 0x31 @ [0], replicate 40 0x32 @ [0]] = Err ERROR_NOT_IMPLEMENTED"
proof -
  have p: "parse_args [0x30, 0x38] [] (replicate 64 0x31) (replicate 40 0x32) =
      Ret (8, [], replicate 32 0x11, replicate 20 0x22)"
    by code_simp
  show ?thesis
    using main_decodes_arguments [OF example_no_headers, of "[0x30, 0x38]" "[]" "replicate 64 0x31" "replicate 40 0x32"
        "- 22" 0 empty_value example_env] p
    by (simp add: ckb_auth_validate_def)
qed

end
