(* ===== verification/Ckb_Auth.thy ===== *)
theory Ckb_Auth
  imports Auth_Main
begin

text \<open>
  c/ckb_auth.h: how a lock script calls ckb-auth, as a dynamic library or as a spawned process. The
  loader of ckb-c-stdlib (\<open>ckb_dlopen2\<close>, \<open>ckb_dlsym\<close>, \<open>ckb_spawn_cell\<close>) is a record of parameters.
\<close>

section \<open>Model\<close>

record CkbAuthType =
  algorithm_id :: byte
  content :: bytes

record CkbEntryType =
  code_hash :: bytes
  hash_type :: byte
  entry_category :: byte

abbreviation (input) EntryCategoryDynamicLinking :: byte where "EntryCategoryDynamicLinking \<equiv> 1"
abbreviation (input) EntryCategorySpawn :: byte where "EntryCategorySpawn \<equiv> 2"

type_synonym ckb_auth_validate_t =
  "byte \<Rightarrow> bytes option \<Rightarrow> u32 \<Rightarrow> bytes option \<Rightarrow> u32 \<Rightarrow> bytes \<Rightarrow> u32 \<Rightarrow> unit run"

text \<open>
  \<open>dlopen2\<close> takes the code hash, the hash type and the size of the buffer and returns the status
  and a handle; \<open>dlsym\<close> the handle and the symbol; \<open>spawn_cell\<close> the code hash, the hash type,
  offset, length, \<open>argc\<close>, \<open>argv\<close> and the memory limit, and returns the status and the exit code.
\<close>

record loader =
  dlopen2 :: "bytes \<Rightarrow> byte \<Rightarrow> u64 \<Rightarrow> int \<times> u64"
  dlsym :: "u64 \<Rightarrow> string \<Rightarrow> ckb_auth_validate_t option"
  spawn_cell :: "bytes \<Rightarrow> byte \<Rightarrow> u32 \<Rightarrow> u32 \<Rightarrow> int \<Rightarrow> bytes list \<Rightarrow> u64 \<Rightarrow> int \<times> byte"

text \<open>A call of \<open>ckb_bin2hex\<close> with \<open>last_field\<close> set; every failure is \<open>CKB_INVALID_DATA\<close>.\<close>

definition hex_str :: "bytes \<Rightarrow> u32 \<Rightarrow> bytes \<Rightarrow> u32 \<Rightarrow> bytes run" where
  "hex_str bin bin_len hex hex_len =
     run_bind (run_catch (ckb_bin2hex bin bin_len hex hex_len True) (\<lambda>_. Err CKB_INVALID_DATA)) (\<lambda>(hex, _). Ret hex)"

definition ckb_auth :: "loader \<Rightarrow> env \<Rightarrow> CkbEntryType \<Rightarrow> CkbAuthType \<Rightarrow> bytes \<Rightarrow> u32 \<Rightarrow> bytes \<Rightarrow> unit run" where
  "ckb_auth L E entry id' sig signature_size message32 =
     (if entry_category entry = EntryCategoryDynamicLinking then
        (case dlopen2 L (code_hash entry) (hash_type entry) (300 * 1024) of (err, handle) \<Rightarrow>
           if err \<noteq> 0 then Err err
           else (case dlsym L handle ''ckb_auth_validate'' of
              None \<Rightarrow> Err CKB_INVALID_DATA
            | Some func \<Rightarrow> func (algorithm_id id') (Some sig) signature_size (Some message32) 32 (content id') 20))
      else if entry_category entry = EntryCategorySpawn then
        (if signature_size > 1024 * 8 then Err CKB_INVALID_DATA
         else
           run_bind (hex_str [algorithm_id id'] 1 (uninit E 3) 3) (\<lambda>algorithm_id_str.
           run_bind (hex_str sig signature_size (uninit E (unat (signature_size * 2 + 1))) (signature_size * 2 + 1)) (\<lambda>signature_str.
           run_bind (hex_str message32 32 (uninit E 65) 65) (\<lambda>message_str.
           run_bind (hex_str (content id') 20 (uninit E 41) 41) (\<lambda>pubkey_hash_str.
           case spawn_cell L (code_hash entry) (hash_type entry) 0 0 4
               [algorithm_id_str, signature_str, message_str, pubkey_hash_str] 8 of (err, exit_code) \<Rightarrow>
             if err \<noteq> 0 then Err err
             else if sint exit_code \<noteq> 0 then Err (sint exit_code) else Ret ())))))
      else Err CKB_INVALID_DATA)"

section \<open>The loader runs the code of c/auth.c\<close>

text \<open>The exit code of a process is the low byte of what \<open>main\<close> returns or passes to \<open>ckb_exit\<close>.\<close>

fun exit_code :: "unit run \<Rightarrow> byte option" where
  "exit_code (Ret _) = Some 0"
| "exit_code (Err e) = Some (word_of_int e)"
| "exit_code (Exit e) = Some (word_of_int e)"
| "exit_code _ = None"

text \<open>The parent reads it as a signed byte.\<close>

definition as_int8 :: "unit run \<Rightarrow> unit run" where
  "as_int8 r = (case exit_code r of Some c \<Rightarrow> if sint c = 0 then Ret () else Err (sint c) | None \<Rightarrow> r)"

definition spawns :: "loader \<Rightarrow> CkbEntryType \<Rightarrow> (int \<Rightarrow> bytes list \<Rightarrow> unit run) \<Rightarrow> bool" where
  "spawns L entry prog \<longleftrightarrow> (\<forall>argv c. exit_code (prog (int (length argv)) argv) = Some c \<longrightarrow>
     spawn_cell L (code_hash entry) (hash_type entry) 0 0 (int (length argv)) argv 8 = (0, c))"

definition links :: "loader \<Rightarrow> CkbEntryType \<Rightarrow> ckb_auth_validate_t \<Rightarrow> bool" where
  "links L entry f \<longleftrightarrow> (\<exists>h. dlopen2 L (code_hash entry) (hash_type entry) (300 * 1024) = (0, h) \<and>
     dlsym L h ''ckb_auth_validate'' = Some f)"

lemma ckb_auth_linked:
  assumes "links L entry f" and "entry_category entry = EntryCategoryDynamicLinking"
  shows "ckb_auth L E entry id' sig n msg = f (algorithm_id id') (Some sig) n (Some msg) 32 (content id') 20"
  using assms by (auto simp: ckb_auth_def links_def)

section \<open>The arguments of the spawned process\<close>

lemma hex_str_eq:
  assumes "unat bin_len \<le> length bin" and "unat bin_len < 2 ^ 31 - 1" and "unat hex_len = length hex"
    and "length hex = 2 * unat bin_len + 1"
  shows "hex_str bin bin_len hex hex_len = Ret (tohex (take (unat bin_len) bin) @ [0])"
  using ckb_bin2hex_prefix [of bin_len bin hex_len hex True] assms by (simp add: hex_str_def)

lemma ckb_auth_spawn_argv:
  assumes cat: "entry_category entry = EntryCategorySpawn" and len: "unat n \<le> length sig" and small: "unat n \<le> 8192"
    and msg: "length msg = 32" and key: "length (content id') = 20"
  shows "ckb_auth L E entry id' sig n msg =
    (case spawn_cell L (code_hash entry) (hash_type entry) 0 0 4
       [tohex [algorithm_id id'] @ [0], tohex (take (unat n) sig) @ [0], tohex msg @ [0], tohex (content id') @ [0]] 8 of
       (err, c) \<Rightarrow> if err \<noteq> 0 then Err err else if sint c \<noteq> 0 then Err (sint c) else Ret ())"
proof -
  have n: "\<not> n > 1024 * 8" using small by (simp add: word_less_nat_alt)
  have sz: "unat (n * 2 + 1) = 2 * unat n + 1" using small by (simp add: unat_word_ariths)
  have h: "hex_str [algorithm_id id'] 1 (uninit E 3) 3 = Ret (tohex [algorithm_id id'] @ [0])"
    "hex_str sig n (uninit E (unat (n * 2 + 1))) (n * 2 + 1) = Ret (tohex (take (unat n) sig) @ [0])"
    "hex_str msg 32 (uninit E 65) 65 = Ret (tohex msg @ [0])"
    "hex_str (content id') 20 (uninit E 41) 41 = Ret (tohex (content id') @ [0])"
    using len small sz msg key by (simp_all add: hex_str_eq)
  show ?thesis using cat n unfolding ckb_auth_def h run_bind.simps by simp
qed

lemma tohex_args:
  assumes "length sig \<le> 8192" and "length msg = 32" and "length hash = 20"
  shows "parse_args (tohex [alg]) (tohex sig) (tohex msg) (tohex hash) = Ret (alg, sig, msg, hash)"
proof -
  have "length (tohex [alg]) = 2" by (simp del: tohex_simps)
  moreover have "\<not> int (length (tohex sig)) > 131072" using assms(1) by (simp del: tohex_simps)
  moreover have "even (length (tohex sig))" "length (tohex msg) = 64" "length (tohex hash) = 40"
    using assms(2,3) by (simp_all del: tohex_simps)
  ultimately show ?thesis
    unfolding parse_args_def unhex_tohex or_fail_def by simp
qed

lemma main_on_tohex:
  assumes rel: "elf_relocate err fuel m = Ret m'" and small: "length sig \<le> 8192"
    and msg: "length msg = 32" and hash: "length hash = 20"
  shows "auth_main err fuel u E m 4 [tohex [alg] @ [0], tohex sig @ [0], tohex msg @ [0], tohex hash @ [0]] =
    ckb_auth_validate fuel u E alg (Some sig) (word_of_nat (length sig)) (Some msg) 32 hash 20"
proof -
  have l: "length (tohex [alg]) < 2 ^ 32" "length (tohex sig) < 2 ^ 32" "length (tohex msg) < 2 ^ 32" "length (tohex hash) < 2 ^ 32"
    using small msg hash by (simp_all del: tohex_simps)
  show ?thesis
    unfolding auth_main_def rel run_bind.simps
      main_args_eq [OF tohex_nonzero tohex_nonzero tohex_nonzero tohex_nonzero l] tohex_args [OF small msg hash]
    by simp
qed

lemma spawn_validates:
  assumes sp: "spawns L entry (auth_main err fuel u E m)" and rel: "elf_relocate err fuel m = Ret m'"
    and cat: "entry_category entry = EntryCategorySpawn" and len: "unat n \<le> length sig" and small: "unat n \<le> 8192"
    and msg: "length msg = 32" and key: "length (content id') = 20"
    and r: "r = ckb_auth_validate fuel u E (algorithm_id id') (Some (take (unat n) sig)) n (Some msg) 32 (content id') 20" "well_defined r"
  shows "ckb_auth L E0 entry id' sig n msg = as_int8 r"
proof -
  let ?s = "take (unat n) sig"
  let ?argv = "[tohex [algorithm_id id'] @ [0], tohex ?s @ [0], tohex msg @ [0], tohex (content id') @ [0]]"
  have s: "length ?s \<le> 8192" using small by simp
  have n: "word_of_nat (length ?s) = n" using len by (intro word_of_nat_eqI) simp
  have prog: "auth_main err fuel u E m 4 ?argv = r"
    using main_on_tohex [OF rel s msg key, of u E "algorithm_id id'"] r(1) by (simp only: n)
  obtain c where c: "exit_code r = Some c" using r(2) by (cases r) auto
  then have "spawn_cell L (code_hash entry) (hash_type entry) 0 0 (int (length ?argv)) ?argv 8 = (0, c)"
    using sp [unfolded spawns_def, rule_format, of ?argv c] prog by simp
  then show ?thesis
    using c unfolding ckb_auth_spawn_argv [OF cat len small msg key] by (simp add: as_int8_def)
qed

section \<open>Properties\<close>

text \<open>C7: With the entry category spawn and a loader that runs the binary of c/auth.c, \<open>ckb_auth\<close> returns the verdict
  of \<open>ckb_auth_validate\<close> on exactly the bytes it was given, reduced to a signed byte: what is
  encoded by the caller and decoded by \<open>main\<close> is the same signature, message and key hash.\<close>

theorem spawn_reaches_validate:
  assumes "spawns L entry (auth_main err fuel u E m)" and "elf_relocate err fuel m = Ret m'"
    and "entry_category entry = 2" and "unat n \<le> length sig" and "unat n \<le> 8192"
    and "length msg = 32" and "length (content id') = 20"
    and "r = ckb_auth_validate fuel u E (algorithm_id id') (Some (take (unat n) sig)) n (Some msg) 32 (content id') 20"
    and "well_defined r"
  shows "ckb_auth L E0 entry id' sig n msg = as_int8 r"
  using assms by (rule spawn_validates)

definition example_loader :: "(int \<Rightarrow> bytes list \<Rightarrow> unit run) \<Rightarrow> ckb_auth_validate_t \<Rightarrow> loader" where
  "example_loader prog f = \<lparr>dlopen2 = (\<lambda>_ _ _. (0, 1)), dlsym = (\<lambda>_ _. Some f),
     spawn_cell = (\<lambda>_ _ _ _ argc argv _. case exit_code (prog argc argv) of Some c \<Rightarrow> (0, c) | None \<Rightarrow> (1, 0))\<rparr>"

lemma example_spawns: "spawns (example_loader prog f) entry prog"
  by (simp add: spawns_def example_loader_def)

lemma example_links: "links (example_loader prog f) entry f"
  by (simp add: links_def example_loader_def)

abbreviation example_main :: "env \<Rightarrow> int \<Rightarrow> bytes list \<Rightarrow> unit run" where
  "example_main E \<equiv> auth_main (- 22) 1 empty_value E (\<lambda>_. 0)"

definition example_entry :: "byte \<Rightarrow> CkbEntryType" where
  "example_entry category = \<lparr>code_hash = replicate 32 0, hash_type = 1, entry_category = category\<rparr>"

theorem spawn_reaches_validate_witness:
  "ckb_auth (example_loader (example_main example_env) (ckb_auth_validate 1 empty_value example_env)) example_env
     (example_entry 2) \<lparr>algorithm_id = 8, content = replicate 20 0\<rparr> [] 0 (replicate 32 1) = Err ERROR_NOT_IMPLEMENTED"
proof -
  have r: "Err ERROR_NOT_IMPLEMENTED = ckb_auth_validate 1 empty_value example_env
      (algorithm_id \<lparr>algorithm_id = 8, content = replicate 20 0\<rparr>) (Some (take (unat (0 :: u32)) [])) 0 (Some (replicate 32 1)) 32
      (content \<lparr>algorithm_id = 8, content = replicate 20 0\<rparr>) 20"
    by (simp add: ckb_auth_validate_def)
  show ?thesis
    by (subst spawn_reaches_validate [OF example_spawns example_no_headers _ _ _ _ _ r])
       (simp_all add: example_entry_def as_int8_def)
qed

text \<open>The two ways of calling ckb-auth agree whenever the verdict fits into a signed byte: dynamic linking
  and spawn then return the same status.\<close>

theorem entry_categories_agree:
  assumes "spawns L spawned (auth_main err fuel u E m)" and "elf_relocate err fuel m = Ret m'"
    and "entry_category spawned = 2" and "links L linked (ckb_auth_validate fuel u E)" and "entry_category linked = 1"
    and "unat n = length sig" and "length sig \<le> 8192" and "length msg = 32" and "length (content id') = 20"
    and "r = ckb_auth_validate fuel u E (algorithm_id id') (Some sig) n (Some msg) 32 (content id') 20"
    and "r = Ret () \<or> (\<exists>e. r = Err e \<and> e \<noteq> 0 \<and> - 128 \<le> e \<and> e < 128)"
  shows "ckb_auth L E0 spawned id' sig n msg = ckb_auth L E0 linked id' sig n msg"
proof -
  have "well_defined r" using assms(11) by auto
  then have "ckb_auth L E0 spawned id' sig n msg = as_int8 r"
    using assms(1-3,6-10) by (intro spawn_validates) simp_all
  moreover have "as_int8 r = r"
  proof -
    have "sint (word_of_int e :: byte) = e" if "- 128 \<le> e" "e < 128" for e
      using that by (simp add: int_word_sint)
    then show ?thesis using assms(11) by (auto simp: as_int8_def)
  qed
  ultimately show ?thesis using ckb_auth_linked [OF assms(4,5)] assms(10) by simp
qed

theorem entry_categories_agree_witness:
  "let L = example_loader (example_main example_env) (ckb_auth_validate 1 empty_value example_env);
       i = \<lparr>algorithm_id = 7, content = replicate 20 4\<rparr> in
   ckb_auth L example_env (example_entry 2) i (replicate 96 3) 96 (replicate 32 1) =
   ckb_auth L example_env (example_entry 1) i (replicate 96 3) 96 (replicate 32 1)"
proof -
  have r: "Err ERROR_MISMATCHED = ckb_auth_validate 1 empty_value example_env
      (algorithm_id \<lparr>algorithm_id = 7, content = replicate 20 4\<rparr>) (Some (replicate 96 3)) 96 (Some (replicate 32 1)) 32
      (content \<lparr>algorithm_id = 7, content = replicate 20 4\<rparr>) 20"
    by code_simp
  show ?thesis
    unfolding Let_def
    by (rule entry_categories_agree [OF example_spawns example_no_headers _ example_links _ _ _ _ _ r])
       (simp_all add: example_entry_def)
qed

text \<open>C34: Otherwise they need not agree, and a failed verification can become a success: whenever
  \<open>ckb_auth_validate\<close> fails with a code whose low byte is 0, dynamic linking returns that error while the spawned process reports
  the exit code of success. Such codes occur: mbedtls has -0x5100, \<open>MBEDTLS_ERR_MD_BAD_INPUT_DATA\<close>, with which
  an EOS signature fails when mbedtls has no SHA-256.\<close>

theorem spawn_truncates_error_to_success:
  assumes "spawns L spawned (auth_main err fuel u E m)" and "elf_relocate err fuel m = Ret m'"
    and "entry_category spawned = 2" and "links L linked (ckb_auth_validate fuel u E)" and "entry_category linked = 1"
    and "unat n = length sig" and "length sig \<le> 8192" and "length msg = 32" and "length (content id') = 20"
    and "ckb_auth_validate fuel u E (algorithm_id id') (Some sig) n (Some msg) 32 (content id') 20 = Err e"
    and "e mod 256 = 0"
  shows "ckb_auth L E0 linked id' sig n msg = Err e \<and> ckb_auth L E0 spawned id' sig n msg = Ret ()"
proof
  show "ckb_auth L E0 linked id' sig n msg = Err e" using ckb_auth_linked [OF assms(4,5)] assms(10) by simp
  have "(word_of_int e :: byte) = 0" using assms(11) by (simp add: word_of_int_eq_0_iff mod_eq_0_iff_dvd)
  then have "as_int8 (Err e) = Ret ()" by (simp add: as_int8_def)
  moreover have "ckb_auth L E0 spawned id' sig n msg = as_int8 (Err e)"
    using assms(6-10) by (intro spawn_validates [OF assms(1-3)]) simp_all
  ultimately show "ckb_auth L E0 spawned id' sig n msg = Ret ()" by simp
qed

theorem spawn_truncates_error_to_success_witness:
  "let E = example_env\<lparr>md_info_from_type := \<lambda>_. None\<rparr>;
       L = example_loader (example_main E) (ckb_auth_validate 1 empty_value E);
       i = \<lparr>algorithm_id = 2, content = replicate 20 4\<rparr> in
   ckb_auth L E (example_entry 1) i (replicate 65 3) 65 (replicate 32 1) = Err MBEDTLS_ERR_MD_BAD_INPUT_DATA \<and>
   ckb_auth L E (example_entry 2) i (replicate 65 3) 65 (replicate 32 1) = Ret ()"
proof -
  let ?E = "example_env\<lparr>md_info_from_type := \<lambda>_. None\<rparr>"
  let ?i = "\<lparr>algorithm_id = 2, content = replicate 20 4\<rparr> :: CkbAuthType"
  have "env_ok ?E"
    using example_env_ok
    by (simp add: env_ok_def loads_ok_def serialize_ok_def blake2b_ok_def md_ok_def md_context_def ed_ok_def)
  from validate_key_hash [OF this, of 65 "replicate 65 3" "replicate 32 1" "content ?i" 1 empty_value 2
      "if_65 (scheme_key_hash signed_eos eth_key_hash)"]
  have r: "ckb_auth_validate 1 empty_value ?E (algorithm_id ?i) (Some (replicate 65 3)) 65
      (Some (replicate 32 1)) 32 (content ?i) 20 = Err MBEDTLS_ERR_MD_BAD_INPUT_DATA"
    by (simp add: auth_key_hash_def if_65_def scheme_key_hash_def signed_eos_def md_hash_def)
  show ?thesis
    unfolding Let_def
    by (rule spawn_truncates_error_to_success [OF example_spawns example_no_headers _ example_links _ _ _ _ _ r])
       (simp_all add: example_entry_def)
qed

end
