(* ===== verification/Auth_Demo.thy ===== *)
theory Auth_Demo
  imports Ckb_Auth
begin

text \<open>
  examples/auth-demo/auth_demo.c: a lock script that uses ckb-auth. It hashes the transaction with the
  lock field of its first witness cleared, takes the signature from that field and calls \<open>ckb_auth\<close>.
  The system calls that only this program makes and the molecule readers are the record \<open>chain\<close>; c/always_success.c
  is at the end.
\<close>

section \<open>Model\<close>

abbreviation (input) ONE_BATCH_SIZE :: u64 where "ONE_BATCH_SIZE \<equiv> 32768"
abbreviation (input) MAX_WITNESS_SIZE :: u64 where "MAX_WITNESS_SIZE \<equiv> 32768"
abbreviation (input) TEMP_SIZE :: nat where "TEMP_SIZE \<equiv> 32768"
abbreviation (input) SCRIPT_SIZE :: u64 where "SCRIPT_SIZE \<equiv> 32768"

text \<open>
  A load takes the size of the buffer, the offset, and index and source where it has them, and
  returns the status, the new length and the bytes written. \<open>script_args\<close> is the content of the segment that
  \<open>MolReader_Script_get_args\<close> and \<open>MolReader_Bytes_raw_bytes\<close> select.
\<close>

record chain =
  load_witness :: "u64 \<Rightarrow> u64 \<Rightarrow> u64 \<Rightarrow> u64 \<Rightarrow> int \<times> u64 \<times> bytes"
  load_tx_hash :: "u64 \<Rightarrow> u64 \<Rightarrow> int \<times> u64 \<times> bytes"
  load_script :: "u64 \<Rightarrow> u64 \<Rightarrow> int \<times> u64 \<times> bytes"
  calculate_inputs_len :: int
  script_verify :: "bytes \<Rightarrow> bool"
  script_args :: "bytes \<Rightarrow> bytes"

text \<open>The lock segment: its offset in the witness and its size. \<open>20 + lock_length\<close> is computed in 32 bits.\<close>

definition extract_witness_lock :: "bytes \<Rightarrow> u64 \<Rightarrow> (nat \<times> u32) run" where
  "extract_witness_lock witness len =
     (if len < 20 then Err CKB_INVALID_DATA
      else run_bind (rd 16 4 witness) (\<lambda>b.
        let lock_length = le_word b :: u32 in
        if len < ucast (20 + lock_length) then Err CKB_INVALID_DATA
        else Ret (20, lock_length)))"

text \<open>The loop over the rest of a witness; the status and the hash state, which is updated through a pointer.\<close>

fun hash_witness_loop :: "nat \<Rightarrow> env \<Rightarrow> chain \<Rightarrow> bytes \<Rightarrow> bytes \<Rightarrow> u64 \<Rightarrow> u64 \<Rightarrow> u64 \<Rightarrow> u64 \<Rightarrow> u64 \<Rightarrow> (int \<times> bytes) run" where
  "hash_witness_loop 0 E D ctx temp start index source offset len = NoFuel"
| "hash_witness_loop (Suc fuel) E D ctx temp start index source offset len =
     (if offset < len then
        (case load_witness D ONE_BATCH_SIZE (start + offset) index source of (ret, current_len, out) \<Rightarrow>
           run_bind (wr 0 out temp) (\<lambda>temp.
           if ret \<noteq> CKB_SUCCESS then Ret (ret, ctx)
           else let current_read = (if current_len > ONE_BATCH_SIZE then ONE_BATCH_SIZE else current_len) in
             run_bind (rd 0 (unat current_read) temp) (\<lambda>data.
             hash_witness_loop fuel E D (blake2b_update E ctx data) temp start index source (offset + current_read) len)))
      else Ret (CKB_SUCCESS, ctx))"

definition load_and_hash_witness :: "nat \<Rightarrow> env \<Rightarrow> chain \<Rightarrow> bytes \<Rightarrow> u64 \<Rightarrow> u64 \<Rightarrow> u64 \<Rightarrow> bool \<Rightarrow> (int \<times> bytes) run" where
  "load_and_hash_witness fuel E D ctx start index source hash_length =
     (case load_witness D ONE_BATCH_SIZE start index source of (ret, len, out) \<Rightarrow>
        run_bind (wr 0 out (uninit E TEMP_SIZE)) (\<lambda>temp.
        if ret \<noteq> CKB_SUCCESS then Ret (ret, ctx)
        else
          let ctx = (if hash_length then blake2b_update E ctx (le_bytes 8 len) else ctx);
              offset = (if len > ONE_BATCH_SIZE then ONE_BATCH_SIZE else len) in
          run_bind (rd 0 (unat offset) temp) (\<lambda>data.
          hash_witness_loop fuel E D (blake2b_update E ctx data) temp start index source offset len)))"

text \<open>The two \<open>while (1)\<close> loops, over the witnesses from index \<open>i\<close> on.\<close>

fun witnesses_loop :: "nat \<Rightarrow> env \<Rightarrow> chain \<Rightarrow> bytes \<Rightarrow> u64 \<Rightarrow> u64 \<Rightarrow> bytes run" where
  "witnesses_loop 0 E D ctx i source = NoFuel"
| "witnesses_loop (Suc fuel) E D ctx i source =
     run_bind (load_and_hash_witness fuel E D ctx 0 i source True) (\<lambda>(ret, ctx).
     if ret = CKB_INDEX_OUT_OF_BOUND then Ret ctx
     else if ret \<noteq> CKB_SUCCESS then Err CKB_INVALID_DATA
     else witnesses_loop fuel E D ctx (i + 1) source)"

definition generate_sighash_all :: "nat \<Rightarrow> env \<Rightarrow> chain \<Rightarrow> bytes \<Rightarrow> u64 \<Rightarrow> bytes run" where
  "generate_sighash_all fuel E D msg msg_len =
     (if msg_len < 32 then Err CKB_INVALID_DATA
      else case load_witness D MAX_WITNESS_SIZE 0 0 CKB_SOURCE_GROUP_INPUT of (ret, read_len, out) \<Rightarrow>
        run_bind (wr 0 out (uninit E TEMP_SIZE)) (\<lambda>temp.
        if ret \<noteq> CKB_SUCCESS then Err CKB_INVALID_DATA
        else
          let witness_len = read_len;
              read_len = (if read_len > MAX_WITNESS_SIZE then MAX_WITNESS_SIZE else read_len) in
          run_bind (run_catch (extract_witness_lock temp read_len) (\<lambda>_. Err CKB_INVALID_DATA)) (\<lambda>(seg_ptr, seg_size).
          case load_tx_hash D 32 0 of (ret, len, out) \<Rightarrow>
          run_bind (wr 0 out (uninit E 32)) (\<lambda>tx_hash.
          if ret \<noteq> CKB_SUCCESS then Err ret
          else if len \<noteq> 32 then Err CKB_INVALID_DATA
          else
            let ctx = blake2b_update E (blake2b_init E 32) tx_hash in
            run_bind (wr seg_ptr (replicate (unat seg_size) 0) temp) (\<lambda>temp.
            let ctx = blake2b_update E ctx (le_bytes 8 witness_len) in
            run_bind (rd 0 (unat read_len) temp) (\<lambda>data.
            let ctx = blake2b_update E ctx data in
            run_bind (if read_len < witness_len then
                run_bind (load_and_hash_witness fuel E D ctx read_len 0 CKB_SOURCE_GROUP_INPUT False) (\<lambda>(ret, ctx).
                if ret \<noteq> CKB_SUCCESS then Err CKB_INVALID_DATA else Ret ctx)
              else Ret ctx) (\<lambda>ctx.
            run_bind (witnesses_loop fuel E D ctx 1 CKB_SOURCE_GROUP_INPUT) (\<lambda>ctx.
            run_bind (witnesses_loop fuel E D ctx (word_of_int (calculate_inputs_len D)) CKB_SOURCE_INPUT) (\<lambda>ctx.
            wr 0 (blake2b_final E ctx 32) msg)))))))))"

definition demo_main :: "nat \<Rightarrow> env \<Rightarrow> chain \<Rightarrow> loader \<Rightarrow> unit run" where
  "demo_main fuel E D L =
     (case load_script D SCRIPT_SIZE 0 of (ret, len, out) \<Rightarrow>
        run_bind (wr 0 out (uninit E TEMP_SIZE)) (\<lambda>script.
        if ret \<noteq> CKB_SUCCESS then Err CKB_INVALID_DATA
        else if len > SCRIPT_SIZE then Err CKB_INVALID_DATA
        else
          let script_seg = take (unat len) script in
          if \<not> script_verify D script_seg then Err CKB_INVALID_DATA
          else
            let args = script_args D script_seg in
            if length args \<noteq> 21 + 32 + 1 + 1 then Err CKB_INVALID_DATA
            else case load_witness D MAX_WITNESS_SIZE 0 0 CKB_SOURCE_GROUP_INPUT of (ret, witness_len, out) \<Rightarrow>
              run_bind (wr 0 out (uninit E TEMP_SIZE)) (\<lambda>temp.
              if ret \<noteq> CKB_SUCCESS then Err CKB_INVALID_DATA
              else
                run_bind (run_catch (extract_witness_lock temp witness_len) (\<lambda>_. Err CKB_INVALID_DATA)) (\<lambda>(seg_ptr, seg_size).
                run_bind (run_catch (generate_sighash_all fuel E D (uninit E 32) 32) (\<lambda>_. Err CKB_INVALID_DATA)) (\<lambda>msg32.
                ckb_auth L E
                  \<lparr>code_hash = sub_bytes 21 32 args, hash_type = args ! (21 + 32), entry_category = args ! (21 + 32 + 1)\<rparr>
                  \<lparr>algorithm_id = args ! 0, content = sub_bytes 1 20 args\<rparr> (drop seg_ptr temp) seg_size msg32)))))"

definition always_success_main :: "unit run" where
  "always_success_main = Ret ()"

section \<open>Hashing a witness\<close>

text \<open>The system call on a witness \<open>W\<close>: it reports how much is left from the offset on and writes what
  fits. Behind the last witness it reports so.\<close>

definition has_witness :: "chain \<Rightarrow> u64 \<Rightarrow> u64 \<Rightarrow> bytes \<Rightarrow> bool" where
  "has_witness D index source W \<longleftrightarrow> length W < 2 ^ 63 \<and> (\<forall>len off. unat off \<le> length W \<longrightarrow>
     load_witness D len off index source =
       (CKB_SUCCESS, word_of_nat (length W - unat off), take (unat len) (drop (unat off) W)))"

definition no_witness :: "chain \<Rightarrow> u64 \<Rightarrow> u64 \<Rightarrow> bool" where
  "no_witness D index source \<longleftrightarrow> (\<forall>len off. load_witness D len off index source = (CKB_INDEX_OUT_OF_BOUND, len, []))"

lemma has_witness_load:
  assumes "has_witness D index source W" and "unat off \<le> length W"
  shows "load_witness D 32768 off index source =
      (CKB_SUCCESS, word_of_nat (length W - unat off), take 32768 (drop (unat off) W))"
    and "unat (word_of_nat (length W - unat off) :: u64) = length W - unat off"
proof -
  show "load_witness D 32768 off index source =
      (CKB_SUCCESS, word_of_nat (length W - unat off), take 32768 (drop (unat off) W))"
    using assms by (simp add: has_witness_def)
  have "length W < 2 ^ 63" using assms(1) by (simp add: has_witness_def)
  then show "unat (word_of_nat (length W - unat off) :: u64) = length W - unat off"
    by (intro unat_word_of_nat) simp
qed

text \<open>One batch: the buffer holds what was written, and as much of it is read back.\<close>

lemma read_batch:
  assumes "length temp = 32768" and "n = min 32768 (length X)"
  shows "run_bind (wr 0 (take 32768 X) temp) f = f (take 32768 X @ drop n temp)"
    and "rd 0 n (take 32768 X @ drop n temp) = Ret (take 32768 X)"
    and "length (take 32768 X @ drop n temp) = 32768"
  using assms by (simp_all add: min_def)

lemma batch_len:
  "unat (if len > 32768 then 32768 else len :: u64) = min 32768 (unat len)"
  by (simp add: word_less_nat_alt min_def)

lemma hash_witness_loop_eq:
  assumes bl: "blake2b_stream E" and w: "has_witness D index source W" and st: "unat start \<le> length W"
    and len: "unat len = length W - unat start"
  shows "unat offset \<le> unat len \<Longrightarrow> unat len - unat offset < fuel \<Longrightarrow> length temp = 32768 \<Longrightarrow>
    hash_witness_loop fuel E D ctx temp start index source offset len =
      Ret (CKB_SUCCESS, blake2b_update E ctx (drop (unat start + unat offset) W))"
proof (induction fuel arbitrary: ctx temp offset)
  case (Suc fuel)
  show ?case
  proof (cases "offset < len")
    case False
    then have "unat start + unat offset = length W" using Suc.prems(1) st len by (simp add: word_less_nat_alt)
    then show ?thesis using False by (simp add: blake2b_stream_simps [OF bl])
  next
    case True
    let ?X = "drop (unat start + unat offset) W"
    let ?n = "min 32768 (length ?X)"
    have W: "length W < 2 ^ 63" using w by (simp add: has_witness_def)
    have so: "unat (start + offset) = unat start + unat offset"
      using Suc.prems(1) len st W by (simp add: unat_word_ariths)
    then have le: "unat (start + offset) \<le> length W" using Suc.prems(1) len st by simp
    note ld = has_witness_load [OF w le]
    let ?l = "word_of_nat (length W - unat (start + offset)) :: u64"
    have n: "unat (if ?l > 32768 then 32768 else ?l) = ?n"
      unfolding batch_len using ld(2) so by simp
    let ?r = "if ?l > 32768 then 32768 else ?l"
    have pos: "0 < length ?X" using True len by (simp add: word_less_nat_alt)
    have oo: "unat (offset + ?r) = unat offset + ?n"
      using n Suc.prems(1) len W by (simp add: unat_word_ariths)
    have step: "hash_witness_loop (Suc fuel) E D ctx temp start index source offset len =
      hash_witness_loop fuel E D (blake2b_update E ctx (take 32768 ?X)) (take 32768 ?X @ drop ?n temp)
        start index source (offset + ?r) len"
      using True by (simp only: hash_witness_loop.simps if_True ld(1) prod.case Let_def so
          read_batch [OF Suc.prems(3) refl] simp_thms if_False n [unfolded so] run_bind.simps)
    also have "\<dots> = Ret (CKB_SUCCESS, blake2b_update E (blake2b_update E ctx (take 32768 ?X)) (drop (unat start + unat (offset + ?r)) W))"
      using Suc.prems pos len read_batch(3) [OF Suc.prems(3) refl] by (intro Suc.IH) (simp_all only: oo, simp_all)
    also have "\<dots> = Ret (CKB_SUCCESS, blake2b_update E ctx ?X)"
    proof -
      have "drop (unat start + unat (offset + ?r)) W = drop 32768 ?X"
        unfolding oo by (simp add: min_def ac_simps)
      then show ?thesis by (simp only: blake2b_stream_simps [OF bl] append_take_drop_id)
    qed
    finally show ?thesis .
  qed
qed simp

lemma load_and_hash_witness_eq:
  assumes bl: "blake2b_stream E" and w: "has_witness D index source W" and st: "unat start \<le> length W"
    and fuel: "length W < fuel"
  shows "load_and_hash_witness fuel E D ctx start index source hl =
    Ret (CKB_SUCCESS, blake2b_update E (if hl then blake2b_update E ctx (le_bytes 8 (word_of_nat (length W - unat start) :: u64)) else ctx)
      (drop (unat start) W))"
proof -
  let ?X = "drop (unat start) W" and ?l = "word_of_nat (length W - unat start) :: u64"
  let ?n = "min 32768 (length ?X)" and ?c = "if hl then blake2b_update E ctx (le_bytes 8 ?l) else ctx"
  let ?r = "if ?l > 32768 then 32768 else ?l"
  note ld = has_witness_load [OF w st]
  have n: "unat ?r = ?n" unfolding batch_len using ld(2) by simp
  have "load_and_hash_witness fuel E D ctx start index source hl =
    hash_witness_loop fuel E D (blake2b_update E ?c (take 32768 ?X)) (take 32768 ?X @ drop ?n (uninit E 32768))
      start index source ?r ?l"
    by (simp only: load_and_hash_witness_def ld(1) prod.case Let_def read_batch [OF length_uninit refl] simp_thms
        if_False n run_bind.simps)
  also have "\<dots> = Ret (CKB_SUCCESS, blake2b_update E (blake2b_update E ?c (take 32768 ?X)) (drop (unat start + unat ?r) W))"
  proof (rule hash_witness_loop_eq [OF bl w st ld(2)])
    show "unat ?r \<le> unat ?l" unfolding n ld(2) by simp
    show "unat ?l - unat ?r < fuel" unfolding ld(2) using fuel by linarith
  qed (rule read_batch(3) [OF length_uninit refl])
  also have "drop (unat start + unat ?r) W = drop 32768 ?X"
    unfolding n by (simp add: min_def ac_simps)
  finally show ?thesis by (simp only: blake2b_stream_simps [OF bl] append_take_drop_id)
qed

section \<open>Hashing all witnesses\<close>

definition framed :: "bytes \<Rightarrow> bytes" where
  "framed W = le_bytes 8 (word_of_nat (length W) :: u64) @ W"

text \<open>The witnesses of a source from an index on.\<close>

fun witnesses :: "chain \<Rightarrow> u64 \<Rightarrow> u64 \<Rightarrow> bytes list \<Rightarrow> bool" where
  "witnesses D source i [] = no_witness D i source"
| "witnesses D source i (W # Ws) = (has_witness D i source W \<and> witnesses D source (i + 1) Ws)"

lemma witnesses_loop_eq:
  assumes bl: "blake2b_stream E"
  shows "witnesses D source i Ws \<Longrightarrow> length Ws + sum_list (map length Ws) < fuel \<Longrightarrow>
    witnesses_loop fuel E D ctx i source = Ret (blake2b_update E ctx (concat (map framed Ws)))"
proof (induction Ws arbitrary: fuel i ctx)
  case Nil
  then show ?case
    by (cases fuel) (simp_all add: load_and_hash_witness_def no_witness_def blake2b_stream_simps [OF bl])
next
  case (Cons W Ws)
  then obtain f where f: "fuel = Suc f" "length W < f" by (cases fuel) auto
  have "load_and_hash_witness f E D ctx 0 i source True = Ret (CKB_SUCCESS, blake2b_update E ctx (framed W))"
    using load_and_hash_witness_eq [OF bl, of D i source W 0 f ctx True] Cons.prems(1) f(2)
    by (simp add: framed_def blake2b_stream_simps [OF bl])
  then show ?case
    using Cons.IH [of "i + 1" f "blake2b_update E ctx (framed W)"] Cons.prems f(1)
    by (simp add: blake2b_stream_simps [OF bl])
qed

section \<open>The lock field\<close>

definition lock_size :: "bytes \<Rightarrow> u32" where
  "lock_size W = le_word (sub_bytes 16 4 W)"

text \<open>The lock field is in the first batch.\<close>

definition lock_in_batch :: "bytes \<Rightarrow> bool" where
  "lock_in_batch W \<longleftrightarrow> 20 + unat (lock_size W) \<le> min 32768 (length W)"

definition clear_lock :: "bytes \<Rightarrow> bytes" where
  "clear_lock W = take 20 W @ replicate (unat (lock_size W)) 0 @ drop (20 + unat (lock_size W)) W"

lemma length_clear_lock: "lock_in_batch W \<Longrightarrow> length (clear_lock W) = length W"
  by (simp add: clear_lock_def lock_in_batch_def)

lemma extract_lock_ok:
  assumes lock: "lock_in_batch W" and temp: "temp = take 32768 W @ rest" and len: "min 32768 (length W) \<le> unat len"
  shows "extract_witness_lock temp len = Ret (20, lock_size W)"
proof -
  have l: "20 + unat (lock_size W) \<le> 32768" "20 + unat (lock_size W) \<le> length W" using lock by (simp_all add: lock_in_batch_def)
  have "sub_bytes 16 4 temp = sub_bytes 16 4 W" using l temp by (simp add: sub_bytes_def drop_take)
  moreover have "unat (20 + lock_size W) = 20 + unat (lock_size W)" using l(1) by (simp add: unat_word_ariths)
  moreover have "16 + 4 \<le> length temp" using l temp by simp
  moreover have "20 + unat (lock_size W) \<le> unat len" using l len by (simp add: min_def split: if_splits)
  moreover from this have "\<not> len < 20" by (simp add: word_less_nat_alt)
  ultimately show ?thesis
    by (simp add: extract_witness_lock_def Let_def word_less_nat_alt unat_u32_u64 flip: lock_size_def)
qed

lemma memset_lock:
  assumes lock: "lock_in_batch W"
  shows "wr 20 (replicate (unat (lock_size W)) 0) (take 32768 W @ rest) = Ret (take 32768 (clear_lock W) @ rest)"
proof -
  let ?n = "unat (lock_size W)"
  have l: "20 + ?n \<le> 32768" "20 + ?n \<le> length W" using lock by (simp_all add: lock_in_batch_def)
  then have "take 32768 (clear_lock W) = take 20 W @ replicate ?n 0 @ take (32768 - (20 + ?n)) (drop (20 + ?n) W)"
    by (simp add: clear_lock_def)
  moreover have "drop (20 + ?n) (take 32768 W) = take (32768 - (20 + ?n)) (drop (20 + ?n) W)"
    by (simp add: drop_take)
  ultimately show ?thesis using l by (simp add: min_def)
qed

section \<open>The message\<close>

text \<open>What a group of inputs signs: the transaction hash, the first witness of the group with the lock
  field cleared, the other witnesses of the group, and the witnesses without an input, each
  with its length.\<close>

definition sighash_all :: "env \<Rightarrow> bytes \<Rightarrow> bytes \<Rightarrow> bytes list \<Rightarrow> bytes list \<Rightarrow> bytes" where
  "sighash_all E tx_hash W Ws Vs =
     blake2b_256 E (tx_hash @ le_bytes 8 (word_of_nat (length W) :: u64) @ clear_lock W @ concat (map framed (Ws @ Vs)))"

text \<open>The transaction as the script sees it.\<close>

definition sees :: "chain \<Rightarrow> bytes \<Rightarrow> bytes \<Rightarrow> bytes list \<Rightarrow> bytes list \<Rightarrow> bool" where
  "sees D tx_hash W Ws Vs \<longleftrightarrow> length tx_hash = 32 \<and> load_tx_hash D 32 0 = (CKB_SUCCESS, 32, tx_hash) \<and>
     has_witness D 0 CKB_SOURCE_GROUP_INPUT W \<and> witnesses D CKB_SOURCE_GROUP_INPUT 1 Ws \<and>
     witnesses D CKB_SOURCE_INPUT (word_of_int (calculate_inputs_len D)) Vs"

definition enough :: "nat \<Rightarrow> bytes \<Rightarrow> bytes list \<Rightarrow> bytes list \<Rightarrow> bool" where
  "enough fuel W Ws Vs \<longleftrightarrow> length W < fuel \<and> length Ws + sum_list (map length Ws) < fuel \<and>
     length Vs + sum_list (map length Vs) < fuel"

text \<open>The first witness: what is hashed for the buffer, and for the rest of a longer one.\<close>

lemma hash_first_witness:
  assumes bl: "blake2b_stream E" and w: "has_witness D 0 CKB_SOURCE_GROUP_INPUT W" and lock: "lock_in_batch W"
    and fuel: "length W < fuel" and l: "l = word_of_nat (length W)" "r = (if l > 32768 then 32768 else l)"
  shows "(if r < l then
      run_bind (load_and_hash_witness fuel E D (blake2b_update E ctx (take 32768 (clear_lock W))) r 0 CKB_SOURCE_GROUP_INPUT False) (\<lambda>(ret, ctx).
      if ret \<noteq> CKB_SUCCESS then Err CKB_INVALID_DATA else Ret ctx)
    else Ret (blake2b_update E ctx (take 32768 (clear_lock W)))) = Ret (blake2b_update E ctx (clear_lock W))"
proof (cases "r < l")
  case True
  have ul: "unat l = length W" using has_witness_load(2) [OF w, of 0] l by simp
  from True have r: "unat r = 32768" "32768 < length W" using ul l(2) by (auto simp: word_less_nat_alt split: if_splits)
  have "20 + unat (lock_size W) \<le> 32768" using lock by (simp add: lock_in_batch_def)
  then have "drop 32768 W = drop 32768 (clear_lock W)"
    using r(2) by (simp add: clear_lock_def min_def)
  then show ?thesis
    using True r load_and_hash_witness_eq [OF bl w, of r fuel _ False] fuel
    by (simp add: blake2b_stream_simps [OF bl])
next
  case False
  have "unat l = length W" using has_witness_load(2) [OF w, of 0] l by simp
  then have "length W \<le> 32768" using False l(2) by (auto simp: word_less_nat_alt split: if_splits)
  then show ?thesis using False length_clear_lock [OF lock] by simp
qed

lemma sighash_eq:
  assumes bl: "blake2b_stream E" "blake2b_ok E" and D: "sees D tx_hash W Ws Vs" and lock: "lock_in_batch W"
    and fuel: "enough fuel W Ws Vs" and msg: "length msg = 32"
  shows "generate_sighash_all fuel E D msg 32 = Ret (sighash_all E tx_hash W Ws Vs)"
proof -
  let ?l = "word_of_nat (length W) :: u64"
  let ?r = "if ?l > 32768 then 32768 else ?l"
  let ?rest = "drop (min 32768 (length W)) (uninit E 32768)"
  note d = D [unfolded sees_def] and f = fuel [unfolded enough_def]
  have w: "has_witness D 0 CKB_SOURCE_GROUP_INPUT W" using d by simp
  have ul: "unat ?l = length W" using has_witness_load(2) [OF w, of 0] by simp
  have r: "unat ?r = min 32768 (length W)" unfolding batch_len ul ..
  have ld: "load_witness D 32768 0 0 CKB_SOURCE_GROUP_INPUT = (CKB_SUCCESS, ?l, take 32768 W)"
    using has_witness_load(1) [OF w, of 0] by simp
  have ex: "extract_witness_lock (take 32768 W @ ?rest) ?r = Ret (20, lock_size W)"
    by (rule extract_lock_ok [OF lock refl]) (simp only: r)
  have rd': "rd 0 (unat ?r) (take 32768 (clear_lock W) @ ?rest) = Ret (take 32768 (clear_lock W))"
    unfolding r using length_clear_lock [OF lock] by (simp add: min_def)
  have tx: "load_tx_hash D 32 0 = (CKB_SUCCESS, 32, tx_hash)" "wr 0 tx_hash (uninit E 32) = Ret tx_hash"
    using d by simp_all
  have out: "wr 0 (blake2b_final E c 32) msg = Ret (blake2b_final E c 32)" for c
    using bl(2) msg by (simp add: blake2b_ok_def)
  note first = hash_first_witness [OF bl(1) w lock f [THEN conjunct1] refl refl]
  note loops = witnesses_loop_eq [OF bl(1), of D CKB_SOURCE_GROUP_INPUT 1 Ws fuel]
    witnesses_loop_eq [OF bl(1), of D CKB_SOURCE_INPUT "word_of_int (calculate_inputs_len D)" Vs fuel]
  have "generate_sighash_all fuel E D msg 32 =
    Ret (blake2b_final E (blake2b_update E (blake2b_update E (blake2b_update E (blake2b_update E (blake2b_update E
      (blake2b_init E 32) tx_hash) (le_bytes 8 ?l)) (clear_lock W)) (concat (map framed Ws))) (concat (map framed Vs))) 32)"
    using loops d f
    by (simp only: generate_sighash_all_def ld prod.case Let_def read_batch [OF length_uninit refl] ex tx run_bind.simps
        run_catch.simps memset_lock [OF lock] rd' first out) simp
  then show ?thesis by (simp add: sighash_all_def blake2b_256_def blake2b_stream_simps [OF bl(1)])
qed

section \<open>The whole script\<close>

definition demo_entry :: "bytes \<Rightarrow> CkbEntryType" where
  "demo_entry args = \<lparr>code_hash = sub_bytes 21 32 args, hash_type = args ! 53, entry_category = args ! 54\<rparr>"

definition demo_id :: "bytes \<Rightarrow> CkbAuthType" where
  "demo_id args = \<lparr>algorithm_id = args ! 0, content = sub_bytes 1 20 args\<rparr>"

definition runs_script :: "chain \<Rightarrow> bytes \<Rightarrow> bytes \<Rightarrow> bool" where
  "runs_script D script args \<longleftrightarrow> load_script D SCRIPT_SIZE 0 = (CKB_SUCCESS, word_of_nat (length script), script) \<and>
     length script \<le> 32768 \<and> script_verify D script \<and> script_args D script = args \<and> length args = 55"

lemma demo_main_eq:
  assumes bl: "blake2b_stream E" "blake2b_ok E" and D: "sees D tx_hash W Ws Vs" and lock: "lock_in_batch W"
    and fuel: "enough fuel W Ws Vs" and script: "runs_script D script args"
  shows "demo_main fuel E D L = ckb_auth L E (demo_entry args) (demo_id args)
    (drop 20 (take 32768 W @ drop (min 32768 (length W)) (uninit E 32768))) (lock_size W) (sighash_all E tx_hash W Ws Vs)"
proof -
  let ?l = "word_of_nat (length W) :: u64" and ?rest = "drop (min 32768 (length W)) (uninit E 32768)"
  note sc = script [unfolded runs_script_def]
  have w: "has_witness D 0 CKB_SOURCE_GROUP_INPUT W" using D by (simp add: sees_def)
  have ul: "unat ?l = length W" using has_witness_load(2) [OF w, of 0] by simp
  have ld: "load_witness D 32768 0 0 CKB_SOURCE_GROUP_INPUT = (CKB_SUCCESS, ?l, take 32768 W)"
    using has_witness_load(1) [OF w, of 0] by simp
  have ex: "extract_witness_lock (take 32768 W @ ?rest) ?l = Ret (20, lock_size W)"
    by (rule extract_lock_ok [OF lock refl]) (simp add: ul)
  have len: "unat (word_of_nat (length script) :: u64) = length script"
    by (rule unat_word_of_nat) (use sc in simp)
  have buf: "wr 0 script (uninit E 32768) = Ret (script @ drop (length script) (uninit E 32768))" using sc by simp
  have small: "\<not> (word_of_nat (length script) :: u64) > 32768" using sc by (simp add: word_less_nat_alt len)
  have seg: "take (unat (word_of_nat (length script) :: u64)) (script @ drop (length script) (uninit E 32768)) = script"
    by (simp add: len)
  have rest: "run_bind (wr 0 (take 32768 W) (uninit E 32768)) f = f (take 32768 W @ ?rest)" for f :: "bytes \<Rightarrow> unit run"
    by (rule read_batch(1) [OF length_uninit refl])
  show ?thesis
    unfolding demo_main_def
    using sc small
    by (simp only: prod.case buf run_bind.simps simp_thms if_False if_True Let_def seg ld rest ex run_catch.simps
        sighash_eq [OF bl D lock fuel length_uninit]) (simp add: demo_entry_def demo_id_def)
qed

lemma lock_wraps:
  assumes w: "has_witness D 0 CKB_SOURCE_GROUP_INPUT W" and len: "20 \<le> length W"
    and big: "4294967276 \<le> unat (lock_size W)" and tx: "load_tx_hash D 32 0 = (CKB_SUCCESS, 32, tx_hash)" "length tx_hash = 32"
  shows "generate_sighash_all fuel E D msg 32 = Fault"
proof -
  let ?l = "word_of_nat (length W) :: u64" and ?temp = "take 32768 W @ drop (min 32768 (length W)) (uninit E 32768)"
  let ?r = "if ?l > 32768 then 32768 else ?l"
  have ld: "load_witness D 32768 0 0 CKB_SOURCE_GROUP_INPUT = (CKB_SUCCESS, ?l, take 32768 W)"
    using has_witness_load(1) [OF w, of 0] by simp
  have "unat ?l = length W" using has_witness_load(2) [OF w, of 0] by simp
  then have r: "20 \<le> unat ?r" unfolding batch_len using len by simp
  have small: "unat (20 + lock_size W) < 20"
  proof -
    define k where "k = 20 + unat (lock_size W) - 4294967296"
    have k: "20 + unat (lock_size W) = 4294967296 + k" "k < 20"
      using big unat_u32_less [of "lock_size W"] unfolding k_def by linarith+
    have "unat (20 + lock_size W) = (20 + unat (lock_size W)) mod 4294967296" by (simp add: unat_word_ariths)
    also have "\<dots> = k" unfolding k(1) using k(2) by simp
    finally show ?thesis using k(2) by simp
  qed
  have "\<not> ?r < ucast (20 + lock_size W)" "\<not> ?r < 20"
    using r small by (simp_all only: word_less_nat_alt unat_u32_u64) simp_all
  moreover have "rd 16 4 ?temp = Ret (sub_bytes 16 4 W)"
    using len by (simp add: sub_bytes_def drop_take)
  ultimately have ex: "extract_witness_lock ?temp ?r = Ret (20, lock_size W)"
    by (simp only: extract_witness_lock_def if_False run_bind.simps Let_def flip: lock_size_def)
  have ms: "wr 20 (replicate (unat (lock_size W)) 0) ?temp = Fault" using big by (simp add: wr_def)
  have "wr 0 tx_hash (uninit E 32) = Ret tx_hash" using tx(2) by simp
  then show ?thesis
    by (simp only: generate_sighash_all_def ld tx(1) prod.case Let_def read_batch [OF length_uninit refl] ex
        run_bind.simps run_catch.simps ms) simp
qed

section \<open>Properties\<close>

text \<open>C9: \<open>generate_sighash_all\<close> returns the hash that the group of inputs has to sign: transaction hash, first
  witness with its lock field cleared, the other witnesses of the group and those without an
  input, each preceded by its length, whatever their sizes are: witnesses longer than the 32 KiB
  buffer are hashed completely, in batches, and the loops end.\<close>

theorem sighash_covers_transaction:
  assumes "blake2b_stream E" and "blake2b_ok E" and "sees D tx_hash W Ws Vs" and "lock_in_batch W"
    and "enough fuel W Ws Vs" and "length msg = 32"
  shows "generate_sighash_all fuel E D msg 32 = Ret (sighash_all E tx_hash W Ws Vs)"
  using assms by (rule sighash_eq)

definition example_chain :: "bytes \<Rightarrow> chain" where
  "example_chain W = \<lparr>
     load_witness = (\<lambda>len off i src.
       if i = 0 \<and> src = CKB_SOURCE_GROUP_INPUT
       then (CKB_SUCCESS, word_of_nat (length W - unat off), take (unat len) (drop (unat off) W))
       else (CKB_INDEX_OUT_OF_BOUND, len, [])),
     load_tx_hash = (\<lambda>len off. (CKB_SUCCESS, 32, replicate 32 6)),
     load_script = (\<lambda>len off. (CKB_SUCCESS, 55, replicate 54 2 @ [1])),
     calculate_inputs_len = 1, script_verify = (\<lambda>s. True), script_args = (\<lambda>s. s)\<rparr>"

lemma example_witness: "length W < 2 ^ 63 \<Longrightarrow> has_witness (example_chain W) 0 CKB_SOURCE_GROUP_INPUT W"
  by (simp add: has_witness_def example_chain_def)

lemma example_sees: "length W < 2 ^ 63 \<Longrightarrow> sees (example_chain W) (replicate 32 6) W [] []"
  using example_witness [of W] by (simp add: sees_def no_witness_def example_chain_def)

definition example_lock :: bytes where
  "example_lock = replicate 16 0 @ [2, 0, 0, 0] @ [8, 9] @ [5]"

lemma example_lock_size: "lock_size example_lock = 2" "lock_in_batch example_lock"
proof -
  show "lock_size example_lock = 2" by code_simp
  then show "lock_in_batch example_lock" by (simp add: lock_in_batch_def example_lock_def)
qed

theorem sighash_covers_transaction_witness:
  "generate_sighash_all 24 example_env (example_chain example_lock) (replicate 32 0) 32 =
     Ret (sighash_all example_env (replicate 32 6) example_lock [] [])"
  by (rule sighash_covers_transaction [OF example_stream example_blake2b_ok example_sees example_lock_size(2)])
     (simp_all add: example_lock_def enough_def)

text \<open>The demo script calls \<open>ckb_auth\<close> with the entry and the identity in its arguments, with that hash as the
  message, and with the lock field of the first witness as the signature.\<close>

theorem demo_verifies_lock_signature:
  assumes "blake2b_stream E" and "blake2b_ok E" and "sees D tx_hash W Ws Vs" and "lock_in_batch W"
    and "enough fuel W Ws Vs" and "runs_script D script args"
  shows "\<exists>sig. demo_main fuel E D L =
      ckb_auth L E (demo_entry args) (demo_id args) sig (lock_size W) (sighash_all E tx_hash W Ws Vs) \<and>
    take (unat (lock_size W)) sig = sub_bytes 20 (unat (lock_size W)) W"
proof -
  have "20 + unat (lock_size W) \<le> 32768" "20 + unat (lock_size W) \<le> length W"
    using assms(4) by (simp_all add: lock_in_batch_def)
  then have "take (unat (lock_size W)) (drop 20 (take 32768 W @ drop (min 32768 (length W)) (uninit E 32768))) =
      sub_bytes 20 (unat (lock_size W)) W"
    by (simp add: sub_bytes_def drop_take)
  then show ?thesis using demo_main_eq [OF assms] by blast
qed

theorem demo_verifies_lock_signature_witness:
  "\<exists>sig. demo_main 24 example_env (example_chain example_lock) (example_loader (example_main example_env) (\<lambda>_ _ _ _ _ _ _. Err 7)) =
      ckb_auth (example_loader (example_main example_env) (\<lambda>_ _ _ _ _ _ _. Err 7)) example_env
        (demo_entry (replicate 54 2 @ [1])) (demo_id (replicate 54 2 @ [1])) sig (lock_size example_lock)
        (sighash_all example_env (replicate 32 6) example_lock [] []) \<and>
    take (unat (lock_size example_lock)) sig = sub_bytes 20 (unat (lock_size example_lock)) example_lock"
proof (rule demo_verifies_lock_signature [OF example_stream example_blake2b_ok example_sees example_lock_size(2)])
  show "runs_script (example_chain example_lock) (replicate 54 2 @ [1]) (replicate 54 2 @ [1])"
    by (simp add: runs_script_def example_chain_def)
qed (simp_all add: example_lock_def enough_def)

text \<open>C35: The check of the lock field adds 20 to the length in 32 bits. A length field of \<open>0xFFFFFFEC\<close> or more
  passes it, and clearing the lock field then writes beyond the 32 KiB buffer.\<close>

theorem demo_lock_length_wraps:
  assumes "has_witness D 0 0x0100000000000001 W" and "20 \<le> length W" and "4294967276 \<le> unat (lock_size W)"
    and "load_tx_hash D 32 0 = (0, 32, tx_hash)" and "length tx_hash = 32"
  shows "generate_sighash_all fuel E D msg 32 = Fault"
  using assms by (rule lock_wraps)

theorem demo_lock_length_wraps_witness:
  "generate_sighash_all 1 example_env (example_chain (replicate 16 0 @ [0xF0, 0xFF, 0xFF, 0xFF])) (replicate 32 0) 32 = Fault"
proof -
  let ?W = "replicate 16 0 @ [0xF0, 0xFF, 0xFF, 0xFF] :: bytes"
  have "lock_size ?W = 0xFFFFFFF0" by code_simp
  then show ?thesis
    by (intro demo_lock_length_wraps [of _ ?W "replicate 32 6"] example_witness) (simp_all add: example_chain_def)
qed

end
