(* ===== verification/Auth_Wallets.thy ===== *)
theory Auth_Wallets
  imports Auth_Entry Nanocbor_Item
begin

text \<open>
  What honest wallets produce is accepted. For Cardano, a transaction in CBOR whose body spends an input with the
  CKB message as its transaction hash, and a witness set with one key and signature; for Solana, a
  message with the CKB message as its block hash, in the fixed-size wrapper. On these \<open>ckb_auth_validate\<close>
  reads exactly the fields that were put in, and its verdict is that of the Ed25519 library. The theorems
  complement those of \<open>Auth_Schemes\<close>, which say that nothing else is accepted.
\<close>

section \<open>Reading a Cardano transaction\<close>

lemma get_int32_starts:
  assumes wf: "dec_wf data v" and t: "t = 0 \<or> t = 1" and st: "starts data v (head_bytes (NANOCBOR_MASK t) n)"
    and n: "unat n < 2 ^ 31"
  shows "nanocbor_get_int32 data v old =
    Ret (int (length (head_bytes (NANOCBOR_MASK t) n)), if t = 1 then - ucast n - 1 else ucast n,
      v\<lparr>v_cur := v_cur v + length (head_bytes (NANOCBOR_MASK t) n), v_remaining := v_remaining v - 1\<rparr>)"
proof -
  have t8: "0 \<le> t" "t < 8" using t by auto
  have "unat (ucast n :: u32) = unat n" using n by (simp add: unat_ucast_mod)
  then have "\<not> (ucast n :: u32) > 0x7FFFFFFF" using n by (simp add: word_less_nat_alt)
  moreover have "get_uint64 data v 0 NANOCBOR_SIZE_WORD t = Ret (int (length (head_bytes (NANOCBOR_MASK t) n)), n)"
    using n by (intro get_uint64_head [OF wf st t8]) simp
  ultimately show ?thesis
    using t head_type [OF wf st t8] advance_small [OF length_head(1) length_head_pos]
    by (auto simp: nanocbor_get_int32_def get_and_advance_int32_def Let_def)
qed

text \<open>Keys that \<open>get_item_by_key\<close> passes over on its way to the key 0.\<close>

definition other_key :: "cbor \<Rightarrow> bool" where
  "other_key k \<longleftrightarrow> (\<exists>n. (k = CUint n \<and> n \<noteq> 0 \<or> k = CNint n) \<and> unat n < 2 ^ 31)"

lemma read_int_key:
  assumes wf: "dec_wf data c" and ins: "inside data c indef (k # xs)" and k: "k = CUint 0 \<or> other_key k"
  obtains r i c' where "nanocbor_get_int32 data c 0 = Ret (r, i, c')" and "r > 0" and "i = 0 \<longleftrightarrow> k = CUint 0"
    and "inside data c' indef xs" and "v_end c' = v_end c" and "v_cur c < v_cur c'"
proof -
  obtain t :: int and n where tn: "t = 0 \<and> k = CUint n \<or> t = 1 \<and> k = CNint n" "unat n < 2 ^ 31"
    using k unfolding other_key_def by (metis unat_0 zero_less_numeral zero_less_power)
  let ?h = "head_bytes (NANOCBOR_MASK t) n"
  have ok: "cbor_ok k" and bytes: "cbor_bytes k = ?h" using tn(1) by auto
  note st = inside_Cons(1) [OF wf ins ok, unfolded bytes]
  let ?i = "if t = 1 then - ucast n - 1 else ucast n :: u32"
  have un: "unat (ucast n :: u32) = unat n" using tn(2) by (simp add: unat_ucast_mod)
  have "?i = 0 \<longleftrightarrow> k = CUint 0"
  proof (cases "t = 1")
    case True
    have "- (ucast n :: u32) - 1 \<noteq> 0"
    proof
      assume "- (ucast n :: u32) - 1 = 0"
      then have "(ucast n :: u32) = - 1" by (simp add: algebra_simps) (metis add.inverse_inverse)
      then have "unat n = 2 ^ 32 - 1"
        using un by (simp add: unsigned_minus_1_eq_mask mask_eq_exp_minus_1)
      then show False using tn(2) by simp
    qed
    then show ?thesis using True tn(1) by auto
  next
    case False
    then have "(ucast n :: u32) = 0 \<longleftrightarrow> n = 0" using un by (metis unat_eq_zero)
    then show ?thesis using False tn(1) by auto
  qed
  moreover have "t = 0 \<or> t = 1" using tn(1) by auto
  note get = get_int32_starts [OF wf this st tn(2), of 0]
  have "inside data (c\<lparr>v_cur := v_cur c + length ?h, v_remaining := v_remaining c - 1\<rparr>) indef xs"
    by (rule inside_Cons(2) [OF wf ins ok]) (simp add: bytes past_advance)
  ultimately show ?thesis by (intro that [OF get]) (simp_all add: trans_less_add1)
qed

lemma item_search:
  assumes "dec_wf data c" and "inside data c indef (flat (pre @ (CUint 0, x) # post))"
    and "\<forall>(k, v) \<in> set pre. other_key k \<and> cbor_ok v \<and> depth v \<le> NANOCBOR_RECURSION_MAX"
    and "v_end c - v_cur c < fuel"
  shows "\<exists>v. get_item_by_key fuel data c 0 val u = Ret (NANOCBOR_OK, v) \<and>
    inside data v indef (x # flat post) \<and> dec_wf data v"
  using assms
proof (induction pre arbitrary: c fuel)
  case Nil
  obtain n where n: "fuel = Suc n" using Nil.prems(4) by (cases fuel) auto
  have ins: "inside data c indef (CUint 0 # x # flat post)" using Nil.prems(2) by simp
  have "nanocbor_at_end data c = Ret False" using inside_Cons(1) [OF Nil.prems(1) ins] by (simp add: starts_def)
  moreover obtain r i c' where "nanocbor_get_int32 data c 0 = Ret (r, i, c')" "r > 0" "i = 0 \<longleftrightarrow> CUint 0 = CUint 0"
    "inside data c' indef (x # flat post)" "v_end c' = v_end c"
    using read_int_key [OF Nil.prems(1) ins] by blast
  ultimately show ?case using n Nil.prems(1) by (auto simp: dec_wf_def)
next
  case (Cons p pre)
  then obtain k y where p: "p = (k, y)" "other_key k" "cbor_ok y" "depth y \<le> NANOCBOR_RECURSION_MAX" by (cases p) auto
  let ?rest = "flat (pre @ (CUint 0, x) # post)"
  obtain n where n: "fuel = Suc n" using Cons.prems(4) by (cases fuel) auto
  have ins: "inside data c indef (k # y # ?rest)" using Cons.prems(2) p(1) by simp
  have k: "cbor_ok k" "k \<noteq> CUint 0" using p(2) by (auto simp: other_key_def)
  have e: "nanocbor_at_end data c = Ret False" using inside_Cons(1) [OF Cons.prems(1) ins k(1)] by (simp add: starts_def)
  obtain r i c1 where c1: "nanocbor_get_int32 data c 0 = Ret (r, i, c1)" "r > 0" "i = 0 \<longleftrightarrow> k = CUint 0"
    "inside data c1 indef (y # ?rest)" "v_end c1 = v_end c" "v_cur c < v_cur c1"
    using read_int_key [OF Cons.prems(1) ins disjI2 [OF p(2)]] by blast
  have wf1: "dec_wf data c1" using Cons.prems(1) c1(5) by (simp add: dec_wf_def)
  note in1 = inside_Cons [OF wf1 c1(4) p(3)]
  have len: "v_cur c1 + length (cbor_bytes y) \<le> v_end c1" using in1(1) by (simp add: starts_def)
  then have fuel: "length (cbor_bytes y) \<le> n" using Cons.prems(4) n c1 by simp
  obtain c2 where c2: "nanocbor_skip n data c1 u = Ret (NANOCBOR_OK, c2)" "past c1 (length (cbor_bytes y)) c2"
    by (rule nanocbor_skip_item [OF wf1 in1(1) p(3,4) fuel])
  have "dec_wf data c2" "v_end c2 - v_cur c2 < n"
    using wf1 c1 c2(2) len Cons.prems(4) n by (auto simp: dec_wf_def past_def)
  then have "\<exists>v. get_item_by_key n data c2 0 val u = Ret (NANOCBOR_OK, v) \<and>
    inside data v indef (x # flat post) \<and> dec_wf data v"
    using Cons.prems(3) in1(2) [OF c2(2)] by (intro Cons.IH) auto
  then show ?case using n e c1(1-3) k(2) c2(1) by simp
qed

lemma get_bstr_inside:
  assumes wf: "dec_wf data c" and ins: "inside data c indef (CBstr s # xs)"
  obtains p c' where "nanocbor_get_bstr data c None = Ret (NANOCBOR_OK, Some p, word_of_nat (length s), c')"
    and "copy_from data (Some p) (word_of_nat (length s)) = Ret s" and "inside data c' indef xs" and "dec_wf data c'"
proof -
  let ?h = "head_bytes (NANOCBOR_MASK 2) (word_of_nat (length s))"
  let ?c = "c\<lparr>v_cur := v_cur c + length ?h + length s, v_remaining := v_remaining c - 1\<rparr>"
  have t: "0 \<le> (2 :: int)" "(2 :: int) < 8" by simp_all
  have "starts data c (?h @ s)" using inside_Cons(1) [OF wf ins] by simp
  note str = get_str_starts [OF wf t this]
  have "inside data ?c indef xs" by (rule inside_Cons(2) [OF wf ins]) (simp_all add: past_def)
  moreover have "dec_wf data ?c" using wf by (simp add: dec_wf_def)
  moreover have le: "v_cur c + length ?h + length s \<le> length data" using str(3) wf by (simp add: dec_wf_def)
  moreover have "unat (word_of_nat (length s) :: u64) = length s"
    using le wf by (intro unat_word_of_nat) (simp add: dec_wf_def)
  ultimately show ?thesis
    using str by (intro that [of "v_cur c + length ?h" ?c]) (simp_all add: nanocbor_get_bstr_def copy_from_def)
qed

lemma enter_array_member:
  assumes "dec_wf data c" and "inside data c indef (CArr i ys # xs)" and "\<forall>y \<in> set ys. cbor_ok y"
  obtains c' where "nanocbor_enter_array data c u = Ret (NANOCBOR_OK, c')" and "inside data c' i ys" and "dec_wf data c'"
proof -
  have "starts data c (cbor_bytes (CArr i ys))" using assms(3) by (intro inside_Cons(1) [OF assms(1,2)]) simp
  then obtain c' where c': "nanocbor_enter_array data c u = Ret (NANOCBOR_OK, c')" "inside data c' i ys" "v_end c' = v_end c"
    by (rule enter_array_inside [OF assms(1)])
  moreover have "dec_wf data c'" using assms(1) c'(3) by (simp add: dec_wf_def)
  ultimately show ?thesis using that by blast
qed

lemma sign_hash_read:
  assumes wf: "dec_wf data c" and ins: "inside data c indef (flat (pre @ (CUint 0, CArr i (CArr j (CBstr msg # CUint 0 # ys) # xs)) # post))"
    and pre: "\<forall>(k, v) \<in> set pre. other_key k \<and> cbor_ok v \<and> depth v \<le> NANOCBOR_RECURSION_MAX"
    and ok: "\<forall>x \<in> set xs. cbor_ok x" "\<forall>y \<in> set ys. cbor_ok y" and msg: "length msg = 32" and fuel: "length data < fuel"
  shows "get_ckb_sign_hash fuel data c u out = Ret (out\<lparr>ckb_sign_msg := msg\<rparr>)"
proof -
  have "v_end c - v_cur c < fuel" using fuel wf by (auto simp: dec_wf_def)
  then obtain v where v: "get_item_by_key fuel data c 0 u u = Ret (NANOCBOR_OK, v)" "dec_wf data v"
    "inside data v indef (CArr i (CArr j (CBstr msg # CUint 0 # ys) # xs) # flat post)"
    using item_search [OF wf ins pre] by blast
  obtain c2 where c2: "nanocbor_enter_array data v u = Ret (NANOCBOR_OK, c2)" "dec_wf data c2"
    "inside data c2 i (CArr j (CBstr msg # CUint 0 # ys) # xs)"
    by (rule enter_array_member [OF v(2,3), of u]) (use ok in auto)
  obtain c3 where c3: "nanocbor_enter_array data c2 u = Ret (NANOCBOR_OK, c3)" "dec_wf data c3"
    "inside data c3 j (CBstr msg # CUint 0 # ys)"
    by (rule enter_array_member [OF c2(2,3), of u]) (use ok in auto)
  obtain p c4 where c4: "nanocbor_get_bstr data c3 None = Ret (NANOCBOR_OK, Some p, 32, c4)"
    "copy_from data (Some p) 32 = Ret msg" "inside data c4 j (CUint 0 # ys)" "dec_wf data c4"
    by (rule get_bstr_inside [OF c3(2,3)]) (use msg in simp)
  have "starts data c4 (head_bytes (NANOCBOR_MASK 0) 0)" using inside_Cons(1) [OF c4(4,3)] by simp
  then have "nanocbor_get_int32 data c4 (- 1) = Ret (int (length (head_bytes (NANOCBOR_MASK 0) 0)), 0,
      c4\<lparr>v_cur := v_cur c4 + length (head_bytes (NANOCBOR_MASK 0) 0), v_remaining := v_remaining c4 - 1\<rparr>)"
    using get_int32_starts [OF c4(4), of 0 0 "- 1"] by simp
  then show ?thesis using v(1) c2(1) c3(1) c4(1,2) by (simp add: get_ckb_sign_hash_def)
qed

text \<open>The witness set with one key.\<close>

definition witness_set :: "bytes \<Rightarrow> bytes \<Rightarrow> cbor" where
  "witness_set pk sg = CMap False [(CUint 0, CArr False [CArr False [CBstr pk, CBstr sg]])]"

lemma sign_data_read:
  assumes wf: "dec_wf data c" and ins: "inside data c False (flat [(CUint 0, CArr False [CArr False [CBstr pk, CBstr sg]])])"
    and len: "length pk = 32" "length sg = 64" and fuel: "length data < fuel"
  shows "get_sign_data fuel data c u out = Ret (out\<lparr>public_key := pk, signature := sg\<rparr>)"
proof -
  have "v_end c - v_cur c < fuel" using fuel wf by (auto simp: dec_wf_def)
  then obtain v where v: "get_item_by_key fuel data c 0 u u = Ret (NANOCBOR_OK, v)" "dec_wf data v"
    "inside data v False [CArr False [CArr False [CBstr pk, CBstr sg]]]"
    using item_search [of data c False "[]" "CArr False [CArr False [CBstr pk, CBstr sg]]" "[]" fuel u u] wf ins by auto
  obtain c2 where c2: "nanocbor_enter_array data v u = Ret (NANOCBOR_OK, c2)" "dec_wf data c2"
    "inside data c2 False [CArr False [CBstr pk, CBstr sg]]"
    by (rule enter_array_member [OF v(2,3), of u]) auto
  obtain c3 where c3: "nanocbor_enter_array data c2 u = Ret (NANOCBOR_OK, c3)" "dec_wf data c3"
    "inside data c3 False [CBstr pk, CBstr sg]"
    by (rule enter_array_member [OF c2(2,3), of u]) auto
  obtain p c4 where c4: "nanocbor_get_bstr data c3 None = Ret (NANOCBOR_OK, Some p, 32, c4)"
    "copy_from data (Some p) 32 = Ret pk" "inside data c4 False [CBstr sg]" "dec_wf data c4"
    by (rule get_bstr_inside [OF c3(2,3)]) (use len in simp)
  obtain q c5 where "nanocbor_get_bstr data c4 None = Ret (NANOCBOR_OK, Some q, 64, c5)"
    "copy_from data (Some q) 64 = Ret sg"
    by (rule get_bstr_inside [OF c4(4,3)]) (use len in simp)
  then show ?thesis using v(1) c2(1) c3(1) c4(1,2) by (simp add: get_sign_data_def)
qed

text \<open>A transaction with one input whose transaction hash is \<open>msg\<close>, and the last item of one byte.\<close>

definition cardano_body :: "bool \<Rightarrow> (cbor \<times> cbor) list \<Rightarrow> bool \<Rightarrow> bool \<Rightarrow> bytes \<Rightarrow> cbor list \<Rightarrow> cbor list \<Rightarrow> (cbor \<times> cbor) list \<Rightarrow> cbor" where
  "cardano_body d pre i j msg ys xs post =
     CMap d (pre @ (CUint 0, CArr i (CArr j (CBstr msg # CUint 0 # ys) # xs)) # post)"

definition cardano_tx :: "cbor \<Rightarrow> bytes \<Rightarrow> bytes \<Rightarrow> cbor \<Rightarrow> bytes" where
  "cardano_tx bd pk sg aux = cbor_bytes (CArr False [bd, witness_set pk sg, aux])"

lemma witness_set_bytes:
  assumes "length pk = 32" and "length sg = 64"
  shows "cbor_bytes (witness_set pk sg) = [0xA1, 0x00, 0x81, 0x82, 0x58, 0x20] @ pk @ [0x58, 0x40] @ sg"
  using assms by (simp add: witness_set_def box_def head_bytes_def NANOCBOR_MASK_def be_bytes_def le_bytes_def)

lemma cardano_tx_bytes:
  assumes "length pk = 32" and "length sg = 64" and "length (cbor_bytes aux) = 1"
  shows "cardano_tx bd pk sg aux = [0x83] @ cbor_bytes bd @ cbor_bytes (witness_set pk sg) @ cbor_bytes aux"
    and "length (cardano_tx bd pk sg aux) = length (cbor_bytes bd) + 106"
    and "sub_bytes 1 (length (cardano_tx bd pk sg aux) - 106) (cardano_tx bd pk sg aux) = cbor_bytes bd"
proof -
  show tx: "cardano_tx bd pk sg aux = [0x83] @ cbor_bytes bd @ cbor_bytes (witness_set pk sg) @ cbor_bytes aux"
    by (simp add: cardano_tx_def box_def head_bytes_def NANOCBOR_MASK_def)
  have "length (cbor_bytes (witness_set pk sg)) = 104" using assms by (simp add: witness_set_bytes)
  then show len: "length (cardano_tx bd pk sg aux) = length (cbor_bytes bd) + 106" using assms(3) by (simp add: tx)
  show "sub_bytes 1 (length (cardano_tx bd pk sg aux) - 106) (cardano_tx bd pk sg aux) = cbor_bytes bd"
    unfolding len by (simp add: tx sub_bytes_def)
qed

lemma starts_whole:
  assumes "unat n = length data" and "data \<noteq> []"
  shows "starts data (nanocbor_decoder_init v n) data"
  using assms by (simp add: starts_def nanocbor_decoder_init_def nanocbor_at_end_def over_end_def sub_bytes_def
      nanocbor_container_indefinite_def nanocbor_in_container_def)

lemma cardano_tx_parsed:
  fixes pk sg msg :: bytes and aux bd :: cbor
  defines "data \<equiv> cardano_tx bd pk sg aux"
  assumes bd: "bd = cardano_body d pre i j msg ys xs post"
    and pre: "\<forall>(k, v) \<in> set pre. other_key k \<and> cbor_ok v \<and> depth v \<le> NANOCBOR_RECURSION_MAX"
    and ok: "cbor_ok bd" "depth bd \<le> NANOCBOR_RECURSION_MAX" "cbor_ok aux" "length (cbor_bytes aux) = 1"
    and len: "length pk = 32" "length sg = 64" "length msg = 32" and small: "length data < 2 ^ 31" and fuel: "length data < fuel"
    and E: "blake2b_ok E" "length (sign_message out) = 32"
  shows "get_cardano_data fuel E data (word_of_nat (length data)) u out =
    Ret (out\<lparr>ckb_sign_msg := msg, public_key := pk, signature := sg, sign_message := cardano_digest E (cbor_bytes bd)\<rparr>)"
proof -
  let ?n = "word_of_nat (length data) :: u64"
  let ?tx = "CArr False [bd, witness_set pk sg, aux]"
  let ?root = "nanocbor_decoder_init \<lparr>v_cur = 0, v_end = 0, v_remaining = 0, v_flags = 0\<rparr> ?n"
  note tx = cardano_tx_bytes [OF len(1,2) ok(4), of bd, folded data_def]
  have n: "unat ?n = length data" using small by (intro unat_word_of_nat) simp
  have wf: "dec_wf data ?root" by (rule dec_wf_init [OF n small])
  have whole: "cbor_bytes ?tx = data" unfolding data_def cardano_tx_def by (rule refl)
  have "starts data ?root data" using tx(2) by (intro starts_whole [OF n]) auto
  then have st: "starts data ?root (cbor_bytes ?tx)" unfolding whole .
  obtain c where c: "nanocbor_enter_array data ?root u = Ret (0, c)" "inside data c False [bd, witness_set pk sg, aux]"
    "v_end c = v_end ?root" "nanocbor_get_type data ?root = Ret 4"
    by (rule enter_array_inside [OF wf st])
  have wfc: "dec_wf data c" using wf c(3) by (simp add: dec_wf_def)
  note in_c = inside_Cons [OF wfc c(2) ok(1)]
  obtain b where b: "nanocbor_enter_map data c u = Ret (0, b)" "v_end b = v_end c"
    "inside data b d (flat (pre @ (CUint 0, CArr i (CArr j (CBstr msg # CUint 0 # ys) # xs)) # post))"
    using enter_map_inside [OF wfc in_c(1) [unfolded bd cardano_body_def], of u] by blast
  have wfb: "dec_wf data b" using wfc b(2) by (simp add: dec_wf_def)
  have sub: "\<forall>x \<in> set xs. cbor_ok x" "\<forall>y \<in> set ys. cbor_ok y" using ok(1) by (simp_all add: bd cardano_body_def)
  note hash = sign_hash_read [OF wfb b(3) pre sub len(3) fuel]
  have "length (cbor_bytes bd) \<le> fuel" using tx(2) fuel by simp
  then obtain c1 where c1: "nanocbor_skip fuel data c u = Ret (0, c1)" "past c (length (cbor_bytes bd)) c1"
    by (rule nanocbor_skip_item [OF wfc in_c(1) ok(1,2)])
  have wf1: "dec_wf data c1" using wfc c1(2) by (simp add: dec_wf_def past_def)
  have "starts data c1 (cbor_bytes (witness_set pk sg))"
    by (rule inside_Cons(1) [OF wf1 in_c(2) [OF c1(2)]]) (simp add: witness_set_def)
  then obtain w where w: "nanocbor_enter_map data c1 u = Ret (0, w)" "v_end w = v_end c1"
    "inside data w False (flat [(CUint 0, CArr False [CArr False [CBstr pk, CBstr sg]])])"
    unfolding witness_set_def using enter_map_inside [OF wf1, of False _ u] by blast
  have wfw: "dec_wf data w" using wf1 w(2) by (simp add: dec_wf_def)
  note data = sign_data_read [OF wfw w(3) len(1,2) fuel]
  have "get_cardano_sign_message E data ?n o' = Ret (o'\<lparr>sign_message := cardano_digest E (cbor_bytes bd)\<rparr>)"
    if "length (sign_message o') = 32" for o'
  proof -
    have "106 \<le> length data" using tx(2) by simp
    from sign_message_read [OF n this E(1) that] show ?thesis unfolding tx(3) .
  qed
  then show ?thesis
    using c b hash c1 w data E(2) unfolding get_cardano_data_def Let_def by simp
qed

lemma cardano_wallet_key_hash:
  fixes pk sg msg :: bytes and aux bd :: cbor
  defines "data \<equiv> cardano_tx bd pk sg aux"
  assumes "env_ok E" and "bd = cardano_body d pre i j msg ys xs post"
    and "\<forall>(k, v) \<in> set pre. other_key k \<and> cbor_ok v \<and> depth v \<le> NANOCBOR_RECURSION_MAX"
    and "cbor_ok bd" and "depth bd \<le> NANOCBOR_RECURSION_MAX" and "cbor_ok aux" and "length (cbor_bytes aux) = 1"
    and "length pk = 32" and "length sg = 64" and "length msg = 32" and "length data < 2 ^ 31" and "length data < fuel"
  shows "cardano_key_hash fuel u E data msg =
    (if ed25519_verify E sg (cardano_digest E (cbor_bytes bd)) pk = 1 then Ret (blake160 E pk) else Err ERROR_WRONG_STATE)"
proof -
  let ?out = "\<lparr>ckb_sign_msg = uninit E 32, public_key = uninit E 32, signature = uninit E 64, sign_message = uninit E 32\<rparr>"
  have "blake2b_ok E" "length (sign_message ?out) = 32" using assms(2) by (simp_all add: env_ok_def)
  note cardano_tx_parsed [OF assms(3-13) [unfolded data_def] this, of u, folded data_def]
  then show ?thesis by (simp add: cardano_key_hash_def)
qed

section \<open>Reading a Solana message\<close>

lemma signer_loop_eq:
  assumes "\<forall>i \<in> set is. p + i * 32 + 32 \<le> length sig" and "q + 32 \<le> length sig"
  shows "solana_signer_loop sig p q is =
    (if \<exists>i \<in> set is. sub_bytes (p + i * 32) 32 sig = sub_bytes q 32 sig then Ret () else Err ERROR_INVALID_ARG)"
  using assms by (induction "is") auto

lemma sub_bytes_concat:
  assumes "i < length keys" and "\<forall>k \<in> set keys. length k = n"
  shows "sub_bytes (length a + i * n) n (a @ concat keys @ b) = keys ! i"
  using assms
proof (induction keys arbitrary: a i)
  case (Cons k ks)
  show ?case
  proof (cases i)
    case 0
    then show ?thesis using Cons.prems by simp
  next
    case (Suc j)
    then show ?thesis using Cons.IH [of j "a @ k"] Cons.prems by (simp add: ac_simps)
  qed
qed simp

text \<open>A message with the account keys \<open>keys\<close>, the first \<open>ns\<close> of which sign, and the block hash \<open>msg\<close>.\<close>

definition solana_message :: "byte \<Rightarrow> byte \<Rightarrow> byte \<Rightarrow> bytes list \<Rightarrow> bytes \<Rightarrow> bytes \<Rightarrow> bytes" where
  "solana_message ns ro_signed ro_unsigned keys msg rest =
     [ns, ro_signed, ro_unsigned] @ varint (length keys) @ concat keys @ msg @ rest"

definition solana_witness :: "bytes \<Rightarrow> bytes \<Rightarrow> bytes \<Rightarrow> bytes" where
  "solana_witness sg pk m =
     le_bytes 2 (word_of_nat (96 + length m) :: u16) @ sg @ pk @ m @ replicate (414 - length m) 0"

lemma solana_len_bytes: "solana_len (le_bytes 2 (w :: u16) @ xs) = ucast w"
proof -
  have "le_bytes 2 w = [ucast w, ucast (drop_bit 8 w)]" by (simp add: le_bytes_def upt_conv_Cons)
  then show ?thesis by (intro bit_word_eqI) (auto simp: solana_len_def bit_simps dest: bit_imp_le_length)
qed

text \<open>Whenever the message has as many keys as signers, the check decides what it should.\<close>

lemma signed_message_checks:
  assumes rv: "read_varint_u16 sig (off + 3) (n - 3) = Ret (ptr, k)" and n: "35 < unat n"
    and signers: "unat (sig ! off) \<le> unat k"
    and room: "off + unat n \<le> length sig" "pk + 32 \<le> length sig" and hash: "length blockhash = 32"
  shows "validate_solana_signed_message sig off n pk blockhash =
    CHECK2 (ptr - off + 32 * unat k + 32 < unat n \<and> sub_bytes (ptr + 32 * unat k) 32 sig = blockhash \<and>
      (\<exists>i < unat (sig ! off). sub_bytes (ptr + i * 32) 32 sig = sub_bytes pk 32 sig)) ERROR_INVALID_ARG"
proof -
  have n3: "unat (n - 3) = unat n - 3" using n by (simp add: unat_sub word_le_nat_alt)
  have "off + 3 + unat (n - 3) \<le> length sig" using room(1) n n3 by simp
  from read_varint_safe [OF this] rv obtain j where j: "ptr = off + 3 + j" "j \<le> 3" by auto
  let ?size = "j + 32 * unat k"
  have "unat k < 65536" using unsigned_less [of k, where ?'a = nat] by simp
  then have size: "?size < 4194304" using j(2) by linarith
  then have un: "unat (word_of_nat ?size :: u64) = ?size" by (intro unat_word_of_nat) simp
  have "unat (3 + word_of_nat ?size + 32 :: u64) = ?size + 35" using size un by (simp add: unat_word_ariths)
  then have gt: "n > 3 + word_of_nat ?size + 32 \<longleftrightarrow> ?size + 35 < unat n" by (simp add: word_less_nat_alt)
  have "n > 3 + 32" using n by (simp add: word_less_nat_alt)
  moreover have "off < length sig" using room n by simp
  moreover have "solana_signer_loop sig ptr pk [0..<unat (sig ! off)] =
    CHECK2 (\<exists>i < unat (sig ! off). sub_bytes (ptr + i * 32) 32 sig = sub_bytes pk 32 sig) ERROR_INVALID_ARG"
    if "?size + 35 < unat n"
    using that j(1) room signers by (subst signer_loop_eq) (auto simp: CHECK2_def)
  ultimately show ?thesis
    using rv room hash j(1) gt by (auto simp: validate_solana_signed_message_def Let_def CHECK2_def ac_simps)
qed

lemma length_concat_const: "\<forall>k \<in> set keys. length k = n \<Longrightarrow> length (concat keys) = length keys * n"
  by (induction keys) auto

lemma solana_wallet_key_hash:
  fixes keys :: "bytes list" and sg pk msg rest :: bytes and ns rs ru :: byte
  defines "m \<equiv> solana_message ns rs ru keys msg rest"
  defines "sig \<equiv> solana_witness sg pk m"
  assumes keys: "\<forall>k \<in> set keys. length k = 32" and ns: "unat ns \<le> length keys" and pk: "pk \<in> set (take (unat ns) keys)"
    and len: "length msg = 32" "length sg = 64" "rest \<noteq> []" "length m \<le> 414"
  shows "solana_key_hash E sig msg =
    (if ed25519_verify E sg m pk = 1 then Ret (blake160 E pk) else Err ERROR_WRONG_STATE)"
proof -
  let ?v = "varint (length keys)" and ?hdr = "le_bytes 2 (word_of_nat (96 + length m) :: u16)"
  let ?pad = "replicate (414 - length m) 0 :: bytes"
  let ?a = "?hdr @ sg @ pk @ [ns, rs, ru]" and ?n = "solana_len sig - 96"
  have lk: "length (concat keys) = 32 * length keys" using length_concat_const [OF keys] by simp
  have lm: "length m = 3 + length ?v + 32 * length keys + 32 + length rest"
    using lk len(1) by (simp add: m_def solana_message_def)
  have lpk: "length pk = 32" using pk keys by (meson in_set_takeD)
  obtain i where i: "i < unat ns" "i < length keys" "keys ! i = pk" using pk by (auto simp: in_set_conv_nth)
  have lay: "sig = ?a @ ?v @ concat keys @ msg @ rest @ ?pad" by (simp add: sig_def solana_witness_def m_def solana_message_def)
  have lsig: "length sig = 512" using len lpk by (simp add: sig_def solana_witness_def)
  have "unat (word_of_nat (96 + length m) :: u16) = 96 + length m" using len(4) by (intro unat_word_of_nat) simp
  then have "unat (ucast (word_of_nat (96 + length m) :: u16) :: u64) = 96 + length m"
    using len(4) by (simp add: unat_ucast_mod del: of_nat_add)
  then have sl: "unat (solana_len sig) = 96 + length m" by (simp add: sig_def solana_witness_def solana_len_bytes del: of_nat_add)
  then have n: "unat ?n = length m" by (simp add: unat_sub word_le_nat_alt)
  have n3: "unat (?n - 3) = length m - 3" using sl lm by (simp add: unat_sub word_le_nat_alt)
  have la: "length ?a = 101" using len(2) lpk by simp
  have "sub_bytes 101 (length ?v) sig = ?v" unfolding lay using la by (intro sub_bytes_append_mid) simp_all
  then have "read_varint_u16 sig 101 (?n - 3) = Ret (101 + length ?v, word_of_nat (length keys))"
    using lm len(4) lsig n3 by (intro read_varint_eq) simp_all
  moreover have nk: "unat (word_of_nat (length keys) :: u16) = length keys" using lm len(4) by (intro unat_word_of_nat) simp
  moreover have "sig ! 98 = ns" unfolding lay using len(2) lpk by (simp add: nth_append)
  moreover have "sub_bytes (101 + length ?v + 32 * length keys) 32 ((?a @ ?v @ concat keys) @ msg @ rest @ ?pad) = msg"
    using len(1,2) lpk lk by (intro sub_bytes_append_mid) simp_all
  then have "sub_bytes (101 + length ?v + 32 * length keys) 32 sig = msg" unfolding lay by (simp only: append_assoc)
  moreover have "101 + length ?v = length (?a @ ?v)" using la by simp
  then have "sub_bytes (101 + length ?v + i * 32) 32 ((?a @ ?v) @ concat keys @ msg @ rest @ ?pad) = pk"
    using sub_bytes_concat [OF i(2) keys] i(3) by (simp only:)
  then have "sub_bytes (101 + length ?v + i * 32) 32 sig = pk" unfolding lay by (simp only: append_assoc)
  moreover have fields: "sub_bytes 66 32 sig = pk" "sub_bytes 2 64 sig = sg" "sub_bytes 98 (length m) sig = m"
    using len(2) lpk by (simp_all add: sig_def solana_witness_def sub_bytes_def)
  ultimately have "validate_solana_signed_message sig 98 ?n 66 msg = Ret ()"
    using signed_message_checks [of sig 98 ?n "101 + length ?v" "word_of_nat (length keys)" 66 msg] n lm lsig ns len i(1)
    by (auto simp: CHECK2_def)
  moreover have "\<not> solana_len sig > 510" using sl len(4) by (simp add: word_less_nat_alt)
  ultimately show ?thesis using lsig n fields len(4) by (simp add: solana_key_hash_def Let_def)
qed

lemma signed_message_defined:
  assumes room: "off + unat n \<le> length sig" "pk + 32 \<le> length sig" and hash: "length blockhash = 32"
    and signers: "\<And>ptr k. read_varint_u16 sig (off + 3) (n - 3) = Ret (ptr, k) \<Longrightarrow> unat (sig ! off) \<le> unat k"
  shows "well_defined (validate_solana_signed_message sig off n pk blockhash)"
proof (cases "35 < unat n")
  case False
  then have "\<not> 3 + 32 < n" by (simp add: word_less_nat_alt)
  then show ?thesis by (simp add: validate_solana_signed_message_def CHECK2_def)
next
  case True
  then have "off + 3 + unat (n - 3) \<le> length sig" using room(1) by (simp add: unat_sub word_le_nat_alt)
  from read_varint_safe [OF this] consider e where "read_varint_u16 sig (off + 3) (n - 3) = Err e"
    | ptr k where "read_varint_u16 sig (off + 3) (n - 3) = Ret (ptr, k)" by blast
  then show ?thesis
  proof cases
    case 1
    then show ?thesis using True room by (simp add: validate_solana_signed_message_def CHECK2_def)
  next
    case 2
    then show ?thesis using signed_message_checks [OF 2 True signers [OF 2] room hash] by simp
  qed
qed

lemma solana_key_hash_defined:
  assumes len: "96 \<le> unat (solana_len sig)" and msg: "length msg = 32"
    and signers: "\<And>ptr k. read_varint_u16 sig 101 (solana_len sig - 99) = Ret (ptr, k) \<Longrightarrow> unat (sig ! 98) \<le> unat k"
  shows "well_defined (solana_key_hash E sig msg)"
proof (cases "length sig \<noteq> 512 \<or> solana_len sig > 510")
  case False
  let ?n = "solana_len sig - 96"
  have "unat ?n = unat (solana_len sig) - 96" using len by (simp add: unat_sub word_le_nat_alt)
  moreover have "unat (solana_len sig) \<le> 510" using False by (simp add: not_less word_le_nat_alt)
  ultimately have room: "98 + unat ?n \<le> length sig" using False by simp
  have "well_defined (validate_solana_signed_message sig 98 ?n 66 msg)"
    using room False msg signers by (intro signed_message_defined) simp_all
  then show ?thesis using room False by (auto simp: solana_key_hash_def Let_def intro!: well_defined_bind)
qed (auto simp: solana_key_hash_def)

section \<open>Properties\<close>

text \<open>C15: A transaction as a Cardano wallet makes it, an array of a body, the witness set of one key and a last
  item of one byte, is read as intended: whatever precedes the inputs in the body (integer keys,
  values of any kind without tags, nested at most ten deep), if its first input names the CKB
  message and the output index 0, \<open>ckb_auth_validate\<close> ends with the verdict of the Ed25519 library on
  the digest of exactly the body, under exactly the key and signature of the witness set, and
  then compares the hash of that key.\<close>

theorem cardano_accepts_wallet:
  fixes pk sg msg :: bytes and aux bd :: cbor
  defines "data \<equiv> cardano_tx bd pk sg aux"
  assumes "env_ok E" and "bd = cardano_body d pre i j msg ys xs post"
    and "\<forall>(k, v) \<in> set pre. other_key k \<and> cbor_ok v \<and> depth v \<le> NANOCBOR_RECURSION_MAX"
    and "cbor_ok bd" and "depth bd \<le> NANOCBOR_RECURSION_MAX" and "cbor_ok aux" and "length (cbor_bytes aux) = 1"
    and "length pk = 32" and "length sg = 64" and "length msg = 32" and "length data < 2 ^ 31" and "length data < fuel"
    and "length hash = 20"
  shows "ckb_auth_validate fuel u E AuthAlgorithmIdCardano (Some data) (word_of_nat (length data)) (Some msg) 32 hash 20 =
    (if ed25519_verify E sg (cardano_digest E (cbor_bytes bd)) pk = 1 then CHECK2 (hash = blake160 E pk) ERROR_MISMATCHED
     else Err ERROR_WRONG_STATE)"
proof -
  have "unat (word_of_nat (length data) :: u32) = length data" using assms(12) by (intro unat_word_of_nat) simp
  then show ?thesis
    using cardano_wallet_key_hash [OF assms(2-13) [unfolded data_def], of u, folded data_def]
      validate_key_hash [OF assms(2) _ assms(11,14), of "word_of_nat (length data)" data fuel u AuthAlgorithmIdCardano]
    by (simp add: auth_key_hash_def scheme_key_hash_def signed_copy_def)
qed

definition wallet_body :: cbor where
  "wallet_body = cardano_body True [(CUint 2, CUint 170000), (CUint 3, CArr True [CNint 5, CTstr [0x61]])]
     False False (replicate 32 9) [] [] []"

theorem cardano_accepts_wallet_witness:
  "let data = cardano_tx wallet_body (replicate 32 7) (replicate 64 8) (CSimple 22) in
   ckb_auth_validate 200 empty_value example_env AuthAlgorithmIdCardano (Some data) (word_of_nat (length data))
     (Some (replicate 32 9)) 32 (replicate 20 7) 20 = Ret ()"
proof -
  have aux: "length (cbor_bytes (CSimple 22)) = 1" by simp
  have "length (cbor_bytes wallet_body) < 90"
    by (simp add: wallet_body_def cardano_body_def box_def head_bytes_def)
  then have "length (cardano_tx wallet_body (replicate 32 7) (replicate 64 8) (CSimple 22)) < 200"
    by (subst cardano_tx_bytes(2) [OF _ _ aux]) simp_all
  moreover have "cbor_ok wallet_body" "depth wallet_body \<le> NANOCBOR_RECURSION_MAX"
    by (simp_all add: wallet_body_def cardano_body_def)
  moreover have "other_key (CUint 2)" "other_key (CUint 3)" by (simp_all add: other_key_def)
  moreover have "ed25519_verify example_env s m k = 1" for s m k by (simp add: example_env_def)
  moreover have "blake160 example_env (replicate 32 7) = replicate 20 7" by code_simp
  ultimately show ?thesis
    unfolding Let_def by (subst cardano_accepts_wallet [OF example_env_ok wallet_body_def]) (simp_all add: CHECK2_def)
qed

text \<open>C16: A message as a Solana wallet makes it, at most 414 bytes with the CKB message as its block hash,
  wrapped with the signature and a key among its signers, is read as intended: \<open>ckb_auth_validate\<close>
  ends with the verdict of the Ed25519 library on exactly that message, key and signature, and
  then compares the hash of the key.\<close>

theorem solana_accepts_wallet:
  fixes keys :: "bytes list" and sg pk msg rest :: bytes and ns rs ru :: byte
  defines "m \<equiv> solana_message ns rs ru keys msg rest"
  assumes "env_ok E" and "\<forall>k \<in> set keys. length k = 32" and "unat ns \<le> length keys" and "pk \<in> set (take (unat ns) keys)"
    and "length msg = 32" and "length sg = 64" and "rest \<noteq> []" and "length m \<le> 414" and "length hash = 20"
  shows "ckb_auth_validate fuel u E AuthAlgorithmIdSolana (Some (solana_witness sg pk m)) 512 (Some msg) 32 hash 20 =
    (if ed25519_verify E sg m pk = 1 then CHECK2 (hash = blake160 E pk) ERROR_MISMATCHED else Err ERROR_WRONG_STATE)"
proof -
  have "length pk = 32" using assms(3,5) by (meson in_set_takeD)
  then have "unat (512 :: u32) = length (solana_witness sg pk m)" using assms by (simp add: solana_witness_def)
  from validate_key_hash [OF assms(2) this assms(6,10), of fuel u AuthAlgorithmIdSolana] show ?thesis
    using solana_wallet_key_hash [OF assms(3-9) [unfolded m_def], of E, folded m_def]
    by (simp add: auth_key_hash_def scheme_key_hash_def signed_copy_def)
qed

theorem solana_accepts_wallet_witness:
  "ckb_auth_validate 0 empty_value example_env AuthAlgorithmIdSolana
     (Some (solana_witness (replicate 64 8) (replicate 32 7)
       (solana_message 2 0 1 [replicate 32 6, replicate 32 7, replicate 32 5] (replicate 32 9) [0])))
     512 (Some (replicate 32 9)) 32 (replicate 20 7) 20 = Ret ()"
proof -
  have "ed25519_verify example_env s m k = 1" for s m k by (simp add: example_env_def)
  moreover have "blake160 example_env (replicate 32 7) = replicate 20 7" by code_simp
  moreover have "length (solana_message 2 0 1 [replicate 32 6, replicate 32 7, replicate 32 5] (replicate 32 9) [0]) = 133"
    by code_simp
  ultimately show ?thesis
    using solana_accepts_wallet [OF example_env_ok, of "[replicate 32 6, replicate 32 7, replicate 32 5]" 2 "replicate 32 7"
        "replicate 32 9" "replicate 64 8" "[0]" 0 1 "replicate 20 7" 0 empty_value]
    by (simp add: CHECK2_def)
qed

text \<open>C37: Two checks are all that the Solana path lacks for memory safety: with a length field of at least 96 and no
  more signers than account keys, \<open>ckb_auth_validate\<close> reads no byte out of bounds whatever the rest
  of the signature is.\<close>

theorem solana_memory_safe:
  assumes "env_ok E" and "unat sig_len = length sig" and "length msg = 32" and "length hash = 20"
    and "96 \<le> unat (solana_len sig)"
    and "\<And>ptr k. read_varint_u16 sig 101 (solana_len sig - 99) = Ret (ptr, k) \<Longrightarrow> unat (sig ! 98) \<le> unat k"
  shows "well_defined (ckb_auth_validate fuel u E AuthAlgorithmIdSolana (Some sig) sig_len (Some msg) 32 hash 20)"
  using validate_key_hash [OF assms(1-4), of fuel u AuthAlgorithmIdSolana] solana_key_hash_defined [OF assms(5,3,6), where E = E]
  by (auto simp: auth_key_hash_def scheme_key_hash_def signed_copy_def intro!: well_defined_bind)

theorem solana_memory_safe_witness:
  "well_defined (ckb_auth_validate 0 empty_value example_env AuthAlgorithmIdSolana (Some solana_example) 512
     (Some (replicate 32 1)) 32 (replicate 20 0) 20)"
proof (rule solana_memory_safe [OF example_env_ok])
  show "unat (512 :: u32) = length solana_example" by (simp add: solana_example_def)
  show "96 \<le> unat (solana_len solana_example)" by code_simp
  fix ptr k
  assume "read_varint_u16 solana_example 101 (solana_len solana_example - 99) = Ret (ptr, k)"
  moreover have "read_varint_u16 solana_example 101 (solana_len solana_example - 99) = Ret (102, 1)" by code_simp
  moreover have "unat (solana_example ! 98) = 1" by code_simp
  ultimately show "unat (solana_example ! 98) \<le> unat k" by auto
qed simp_all

end
