(* ===== verification/Auth_Codes.thy ===== *)
theory Auth_Codes
  imports Auth_Entry
begin

text \<open>
  The status codes of \<open>ckb_auth_validate\<close>: with which codes a run can return an error or end the program, by
  a compositional bound over the operations it is made of. All codes of the repository's own code fit into a
  signed byte and none is 0; only the statuses of mbedtls can be anything.
\<close>

section \<open>Bounds on codes\<close>

definition codes :: "int set \<Rightarrow> int set \<Rightarrow> 'a run \<Rightarrow> bool" where
  "codes C X r \<longleftrightarrow> (case r of Err e \<Rightarrow> e \<in> C | Exit e \<Rightarrow> e \<in> X | _ \<Rightarrow> True)"

named_theorems codes_intro

lemma codes_simps [simp]:
  "codes C X (Ret x)" "codes C X Fault" "codes C X NoFuel"
  "codes C X (Err e) \<longleftrightarrow> e \<in> C" "codes C X (Exit e) \<longleftrightarrow> e \<in> X"
  by (simp_all add: codes_def)

lemma codes_bind [codes_intro]:
  "codes C X m \<Longrightarrow> (\<And>x. m = Ret x \<Longrightarrow> codes C X (f x)) \<Longrightarrow> codes C X (run_bind m f)"
  by (cases m) simp_all

lemma codes_catch: "codes D X m \<Longrightarrow> (\<And>e. e \<in> D \<Longrightarrow> codes C X (h e)) \<Longrightarrow> codes C X (run_catch m h)"
  by (cases m) simp_all

lemma codes_case_prod [codes_intro]: "(\<And>a b. p = (a, b) \<Longrightarrow> codes C X (f a b)) \<Longrightarrow> codes C X (case p of (a, b) \<Rightarrow> f a b)"
  by (cases p) simp

lemma codes_if [codes_intro]: "(b \<Longrightarrow> codes C X r) \<Longrightarrow> (\<not> b \<Longrightarrow> codes C X s) \<Longrightarrow> codes C X (if b then r else s)"
  by simp

lemma codes_let [codes_intro]: "(\<And>x. codes C X (f x)) \<Longrightarrow> codes C X (let x = a in f x)"
  by simp

lemma codes_option [codes_intro]:
  "(p = None \<Longrightarrow> codes C X r) \<Longrightarrow> (\<And>x. p = Some x \<Longrightarrow> codes C X (f x)) \<Longrightarrow> codes C X (case p of None \<Rightarrow> r | Some x \<Rightarrow> f x)"
  by (cases p) simp_all

lemma codes_buffer [codes_intro]:
  "codes C X (rd off n buf)" "codes C X (rd1 off buf)" "codes C X (wr off bs buf)"
  "codes C X (memcmp_eq o1 b1 o2 b2 n)"
  by (simp_all add: rd_def rd1_def wr_def memcmp_eq_def)

lemma codes_check [codes_intro]: "code \<in> C \<Longrightarrow> codes C X (CHECK2 cond code)" "code \<in> C \<Longrightarrow> codes C X (or_fail code p)"
  by (auto simp: CHECK2_def or_fail_def split: option.split)

lemma codes_mono: "codes C X r \<Longrightarrow> C \<subseteq> C' \<Longrightarrow> X \<subseteq> X' \<Longrightarrow> codes C' X' r"
  by (cases r) auto

section \<open>The decoder returns its statuses as values\<close>

lemma codes_at_end [codes_intro]: "codes C X (nanocbor_at_end buf v)" "codes C X (get_type buf v)"
  by (unfold nanocbor_at_end_def get_type_def, (intro codes_intro; simp)+)

lemma codes_type [codes_intro]: "codes C X (nanocbor_get_type buf v)"
  by (unfold nanocbor_get_type_def, intro codes_intro; simp)

lemma codes_head [codes_intro]: "codes C X (get_uint64 buf v old max_size t)"
  by (unfold get_uint64_def, intro codes_intro; simp)

lemma codes_reader [codes_intro]:
  "codes C X (nanocbor_get_int32 buf v n)" "codes C X (get_str buf v p t)" "codes C X (skip_simple buf v)"
  by (unfold nanocbor_get_int32_def get_and_advance_int32_def get_str_def skip_simple_def, (intro codes_intro; simp)+)

lemma codes_enter [codes_intro]: "codes C X (enter_container buf v u t)"
  by (unfold enter_container_def Let_def, intro codes_intro; simp)

lemma codes_container [codes_intro]:
  "codes C X (nanocbor_get_bstr buf v p)" "codes C X (nanocbor_enter_array buf v u)" "codes C X (nanocbor_enter_map buf v u)"
  by (unfold nanocbor_get_bstr_def nanocbor_enter_array_def nanocbor_enter_map_def, (intro codes_intro; simp)+)

lemma codes_skip_loops:
  "codes C X (skip_limited fuel buf v u limit)" "codes C X (skip_loop fuel buf r limit res u)"
proof (induction fuel buf v u limit and fuel buf r limit res u rule: skip_limited_skip_loop.induct)
  case (1 fuel buf it u limit)
  then show ?case by (subst skip_limited.simps) (intro codes_intro; simp)
next
  case (2 fuel buf r limit res u)
  then show ?case by (subst skip_loop.simps) (intro codes_intro; simp)
qed

lemma codes_skip [codes_intro]: "codes C X (nanocbor_skip fuel buf v u)"
  by (simp add: nanocbor_skip_def codes_skip_loops)

lemma codes_get_item [codes_intro]: "codes C X (get_item_by_key fuel buf v key val u)"
proof (induction fuel arbitrary: v)
  case (Suc fuel)
  then show ?case by (unfold get_item_by_key.simps, intro codes_intro; simp)
qed simp

lemma codes_copy_from [codes_intro]: "codes C X (copy_from buf p n)"
  by (unfold copy_from_def, intro codes_intro; simp)

lemma codes_cardano_parts [codes_intro]:
  "codes {202, 207, 208} X (get_sign_data fuel buf v u out)" "codes {202, 204, 206} X (get_ckb_sign_hash fuel buf v u out)"
  "codes C X (get_cardano_sign_message E buf n out)"
  by (unfold get_sign_data_def get_ckb_sign_hash_def get_cardano_sign_message_def, (intro codes_intro; simp)+)

lemma codes_cardano_data: "codes {202, 203, 204, 206, 207, 208} X (get_cardano_data fuel E buf n u out)"
proof -
  have "codes {202, 203, 204, 206, 207, 208} X (get_sign_data fuel buf v u out)"
    "codes {202, 203, 204, 206, 207, 208} X (get_ckb_sign_hash fuel buf v u out)" for v out
    by (rule codes_cardano_parts [THEN codes_mono]; blast)+
  then show ?thesis by (unfold get_cardano_data_def, intro codes_intro; simp)
qed

section \<open>The validators\<close>

text \<open>The codes of the callbacks that end the program.\<close>

abbreviation (input) callback_codes :: "int set" where
  "callback_codes \<equiv> {CKB_SECP256K1_HELPER_ERROR_ILLEGAL_CALLBACK, CKB_SECP256K1_HELPER_ERROR_ERROR_CALLBACK}"

lemma codes_secp_call [codes_intro]: "codes C callback_codes (secp_call r)"
  by (cases r) (simp_all add: secp256k1_default_illegal_callback_fn_def secp256k1_default_error_callback_fn_def)

lemma codes_secp_search: "codes {CKB_SECP256K1_HELPER_ERROR_LOADING_DATA} X (secp_search E data i)"
  by (induction E data i rule: secp_search.induct) (subst secp_search.simps, intro codes_intro; simp)

lemma codes_secp_init [codes_intro]:
  assumes "CKB_SECP256K1_HELPER_ERROR_LOADING_DATA \<in> C"
  shows "codes C X (ckb_secp256k1_custom_verify_only_initialize E data)"
proof -
  have "codes C X (secp_search E data 0)" using assms by (intro codes_mono [OF codes_secp_search]) auto
  then show ?thesis using assms by (unfold ckb_secp256k1_custom_verify_only_initialize_def, intro codes_intro; simp)
qed

lemma codes_keccak_loop: "codes C X (keccak_update_loop ctx addr msg off sz)"
  by (induction ctx addr msg off sz rule: keccak_update_loop.induct)
     (subst keccak_update_loop.simps, unfold Let_def, intro codes_intro; simp)

lemma codes_keccak [codes_intro]: "codes C X (keccak_update ctx addr msg sz)" "codes C X (keccak_final ctx out)"
  by (unfold keccak_update_def keccak_update_tail_def keccak_final_def, (intro codes_intro codes_keccak_loop; simp)+)

text \<open>What mbedtls may return.\<close>

definition mbedtls_codes :: "env \<Rightarrow> int set" where
  "mbedtls_codes E =
     (if \<exists>t. md_info_from_type E t = None then {MBEDTLS_ERR_MD_BAD_INPUT_DATA} else {}) \<union>
     ((range (fst \<circ> md_setup E) \<union> range (fst \<circ> md_starts E) \<union> range (\<lambda>(ctx, m). fst (md_update E ctx m)) \<union>
       range (fst \<circ> md_finish E)) - {0})"

lemma codes_check_status: "fst r \<in> C \<union> {0} \<Longrightarrow> codes C X (check_status r)"
  by (auto simp: check_status_def)

lemma codes_md_string: "codes (mbedtls_codes E) X (md_string E (md_info_from_type E t) buf n out)"
proof -
  have "codes (mbedtls_codes E) X (check_status (md_setup E i))" "codes (mbedtls_codes E) X (check_status (md_starts E c))"
    "codes (mbedtls_codes E) X (check_status (md_update E c m))" "codes (mbedtls_codes E) X (check_status (md_finish E c))"
    for i c m
    by (rule codes_check_status; auto simp: mbedtls_codes_def)+
  moreover have "MBEDTLS_ERR_MD_BAD_INPUT_DATA \<in> mbedtls_codes E" if "md_info_from_type E t = None"
  proof -
    have "\<exists>t. md_info_from_type E t = None" using that by blast
    then show ?thesis unfolding mbedtls_codes_def by (simp only: if_True Un_iff insert_iff simp_thms)
  qed
  ultimately show ?thesis by (cases "md_info_from_type E t") (unfold md_string_def, (intro codes_intro; simp)+)
qed

text \<open>The codes of the repository's own code.\<close>

abbreviation (input) verdict_codes :: "int set" where
  "verdict_codes \<equiv> {ERROR_NOT_IMPLEMENTED, ERROR_MISMATCHED, ERROR_INVALID_ARG, ERROR_WRONG_STATE, ERROR_SPAWN_INVALID_SIG,
     ERROR_SCHNORR, CKB_SECP256K1_HELPER_ERROR_LOADING_DATA, ERROR_INVALID_RESERVE_FIELD, ERROR_INVALID_PUBKEYS_CNT,
     ERROR_INVALID_THRESHOLD, ERROR_INVALID_REQUIRE_FIRST_N, ERROR_MULTSIG_SCRIPT_HASH, ERROR_VERIFICATION,
     ERROR_WITNESS_SIZE, ERROR_SECP_PARSE_SIGNATURE, ERROR_SECP_RECOVER_PUBKEY, ERROR_SECP_SERIALIZE_PUBKEY}"

definition all_codes :: "env \<Rightarrow> int set" where
  "all_codes E = verdict_codes \<union> mbedtls_codes E"

lemma verdict_code [simp]:
  "100 \<in> all_codes E" "101 \<in> all_codes E" "102 \<in> all_codes E" "103 \<in> all_codes E" "107 \<in> all_codes E" "110 \<in> all_codes E"
  "- 101 \<in> all_codes E" "- 41 \<in> all_codes E" "- 42 \<in> all_codes E" "- 43 \<in> all_codes E" "- 44 \<in> all_codes E"
  "- 51 \<in> all_codes E" "- 52 \<in> all_codes E" "- 22 \<in> all_codes E" "- 14 \<in> all_codes E" "- 11 \<in> all_codes E"
  "- 15 \<in> all_codes E"
  by (simp_all add: all_codes_def)

lemma codes_md [codes_intro]: "codes (all_codes E) X (md_string E (md_info_from_type E t) buf n out)"
  by (rule codes_mono [OF codes_md_string]) (auto simp: all_codes_def)

lemma codes_bin_to_hex [codes_intro]: "codes C X (bin_to_hex source dest n)"
proof -
  have "codes C X (bin_to_hex_loop source dest i n)" for i
  proof (induction n arbitrary: dest i)
    case (Suc n)
    then show ?case by (unfold bin_to_hex_loop.simps, intro codes_intro; simp)
  qed simp
  then show ?thesis by (simp add: bin_to_hex_def)
qed

lemma codes_split_hex [codes_intro]: "codes C X (split_hex_hash source dest)"
proof -
  have "codes C X (split_hex_loop source dest d is)" for d "is"
  proof (induction "is" arbitrary: dest d)
    case (Cons i js)
    then show ?case by (unfold split_hex_loop.simps, intro codes_intro; simp)
  qed simp
  then show ?thesis by (simp add: split_hex_hash_def)
qed

lemma codes_convert:
  "codes (all_codes E) X (convert_copy E msg n new n')"
  "codes (all_codes E) X (convert_eth_message E msg n new n')"
  "codes (all_codes E) X (convert_tron_message E msg n new n')"
  "codes (all_codes E) X (convert_eos_message E msg n new n')"
  by (unfold convert_copy_def convert_eth_message_def convert_tron_message_def convert_eos_message_def,
      (intro codes_intro; simp)+)

lemma codes_convert_btc:
  "codes (all_codes E) X (convert_btc_message E msg n new n')"
  "codes (all_codes E) X (convert_doge_message E msg n new n')"
  "codes (all_codes E) X (convert_litecoin_message E msg n new n')"
  by (unfold convert_btc_message_def convert_doge_message_def convert_litecoin_message_def convert_btc_message_variant_def Let_def,
      (intro codes_intro; simp)+)

lemma codes_recover [codes_intro]:
  "codes (all_codes E) callback_codes (recover_secp256k1_pubkey E sig n msg n' out c)"
  "codes (all_codes E) callback_codes (recover_secp256k1_pubkey_btc E sig n msg n' out c)"
  by (unfold recover_secp256k1_pubkey_def recover_secp256k1_pubkey_btc_def Let_def, (intro codes_intro; simp)+)

lemma codes_blake160 [codes_intro]: "codes C X (output_blake160 E data temp out)"
  by (unfold output_blake160_def, intro codes_intro; simp)

lemma codes_validate_secp:
  "codes (all_codes E) callback_codes (validate_signature_ckb E sig n msg n' out 20)"
  "codes (all_codes E) callback_codes (validate_signature_eth E sig n msg n' out 20)"
  "codes (all_codes E) callback_codes (validate_signature_btc E sig n msg n' out 20)"
  "codes (all_codes E) callback_codes (validate_signature_schnorr E sig n msg n' out 20)"
  by (unfold validate_signature_ckb_def validate_signature_eth_def validate_signature_btc_def validate_signature_schnorr_def,
      (intro codes_intro; simp)+)

lemma codes_validate_cardano: "codes (all_codes E) callback_codes (validate_signature_cardano fuel u E sig n msg n' out 20)"
  by (unfold validate_signature_cardano_def, intro codes_intro codes_catch [OF codes_cardano_data]; simp)

lemma codes_write_varint [codes_intro]: "codes C X (write_varint dest n)"
proof -
  have "codes C X (write_varint_loop dest ptr n)" for ptr
    by (induction dest ptr n rule: write_varint_loop.induct) (subst write_varint_loop.simps, intro codes_intro; simp)
  then show ?thesis by (unfold write_varint_def, intro codes_intro; simp)
qed

lemma codes_monero [codes_intro]:
  "codes C X (get_monero_message_hash E h sp vp mode msg n)" "codes C X (monero_hash_to_scalar E msg n key comm)"
  by (unfold get_monero_message_hash_def monero_hash_to_scalar_def, (intro codes_intro; simp)+)

lemma codes_verify_monero [codes_intro]: "codes C X (ed25519_verify_monero E sig msg n pk)"
  by (unfold ed25519_verify_monero_def, intro codes_intro; simp)

lemma codes_validate_monero: "codes (all_codes E) callback_codes (validate_signature_monero E sig n msg n' out 20)"
  by (unfold validate_signature_monero_def, intro codes_intro; simp)

lemma codes_read_varint: "codes {- 1, - 2} X (read_varint_u16 buf ptr n)"
proof -
  have "codes {- 1, - 2} X (read_varint_loop buf ptr n acc is)" for acc "is"
  proof (induction "is" arbitrary: ptr acc)
    case (Cons i js)
    then show ?case by (unfold read_varint_loop.simps, intro codes_intro; simp)
  qed simp
  then show ?thesis unfolding read_varint_u16_def .
qed

lemma codes_signer_loop [codes_intro]: "codes (all_codes E) X (solana_signer_loop sig p q is)"
proof (induction "is")
  case (Cons i js)
  then show ?case by (unfold solana_signer_loop.simps, intro codes_intro; simp)
qed simp

lemma codes_validate_solana: "codes (all_codes E) callback_codes (validate_signature_solana E sig n msg n' out 20)"
proof -
  have "codes (all_codes E) callback_codes (validate_solana_signed_message sig p k q h)" for p k q h
    by (unfold validate_solana_signed_message_def, intro codes_intro codes_catch [OF codes_read_varint]; simp)
  then show ?thesis by (unfold validate_signature_solana_def, intro codes_intro; simp)
qed

section \<open>Multisig and the entry\<close>

lemma codes_match_key [codes_intro]: "codes C X (match_key_loop lock calculated used is)"
proof (induction "is" arbitrary: used)
  case (Cons i js)
  then show ?case by (unfold match_key_loop.simps, intro codes_intro; simp)
qed simp

lemma codes_first_n [codes_intro]: "codes (all_codes E) X (first_n_loop used is)"
proof (induction "is")
  case (Cons i js)
  then show ?case by (unfold first_n_loop.simps, intro codes_intro; simp)
qed simp

lemma codes_multisig_loop [codes_intro]:
  "codes (all_codes E) callback_codes (multisig_loop E ctx lock sl cnt msg temp used is)"
proof (induction "is" arbitrary: temp used)
  case (Cons i js)
  then show ?case by (unfold multisig_loop.simps, intro codes_intro; simp)
qed simp

lemma codes_multisig: "codes (all_codes E) callback_codes (verify_multisig E lock n msg hash)"
  by (unfold verify_multisig_def, intro codes_intro; simp)

lemma codes_verify:
  assumes "\<And>new. codes (all_codes E) callback_codes (convert E msg (ucast msg_len) new 32)"
    and "\<And>m out. codes (all_codes E) callback_codes (func E sig (ucast sig_len) m 32 out 20)"
  shows "codes (all_codes E) callback_codes (verify E hash sig sig_len msg msg_len func convert)"
  using assms by (unfold verify_def, intro codes_intro; simp)

lemma codes_owner_lock: "codes C X (is_lock_script_hash_present fuel E hash)"
proof -
  have "codes C X (lock_hash_loop fuel E hash i)" for i
  proof (induction fuel arbitrary: i)
    case (Suc fuel)
    then show ?case by (unfold lock_hash_loop.simps, intro codes_intro; simp)
  qed simp
  then show ?thesis by (simp add: is_lock_script_hash_present_def)
qed

lemmas codes_schemes = codes_convert codes_convert_btc codes_validate_secp codes_validate_cardano codes_validate_monero
  codes_validate_solana

lemma codes_auth_validate:
  "codes (all_codes E) callback_codes (ckb_auth_validate fuel u E alg sig sig_len msg msg_len hash hash_len)"
  by (unfold ckb_auth_validate_def, intro codes_intro codes_verify codes_schemes codes_multisig codes_owner_lock; simp)

text \<open>All of them fit into a signed byte if those of mbedtls do, and none is 0.\<close>

lemma codes_int8:
  assumes "mbedtls_codes E \<subseteq> {- 128..<128}" and "codes (all_codes E) callback_codes r"
  shows "r = Err e \<or> r = Exit e \<Longrightarrow> e \<noteq> 0 \<and> - 128 \<le> e \<and> e < 128"
proof -
  assume "r = Err e \<or> r = Exit e"
  then have "e \<in> all_codes E \<union> callback_codes" using assms(2) by auto
  moreover have "0 \<notin> mbedtls_codes E" by (simp add: mbedtls_codes_def)
  then have "mbedtls_codes E \<subseteq> {e. e \<noteq> 0 \<and> - 128 \<le> e \<and> e < 128}" using assms(1) by fastforce
  ultimately show ?thesis unfolding all_codes_def by auto
qed

lemma example_mbedtls_codes: "mbedtls_codes example_env = {}"
  by (auto simp: mbedtls_codes_def example_env_def)

section \<open>Properties\<close>

text \<open>C18: The status of \<open>ckb_auth_validate\<close> is one of 17 codes or a status of mbedtls, and the program can only be ended
  by one of the two callbacks of libsecp256k1, for every algorithm and all arguments whatsoever.
  Neither a code of the Cardano parser (202 to 208), nor one of the CBOR decoder, nor the size
  \<open>SECP256K1_PUBKEY_SIZE\<close> that some validators return as an error code reaches the caller.\<close>

theorem auth_validate_codes:
  "case ckb_auth_validate fuel u E alg sig sig_len msg msg_len hash hash_len of
     Err e \<Rightarrow> e \<in> {100, 101, 102, 103, 107, 110, - 101, - 41, - 42, - 43, - 44, - 51, - 52, - 22, - 14, - 11, - 15} \<union> mbedtls_codes E
   | Exit e \<Rightarrow> e \<in> {- 102, - 103} | _ \<Rightarrow> True"
  using codes_auth_validate [of E fuel u alg sig sig_len msg msg_len hash hash_len]
  unfolding codes_def all_codes_def .

end
