(* ===== verification/Cardano_Safety.thy ===== *)
theory Cardano_Safety
  imports Auth_Entry
begin

text \<open>
  The Cardano path on arbitrary input: on every input without a wrapping string head it ends, and the only
  access out of bounds is the copy from a null pointer for a hash that the end of the input cuts off. The
  subtraction of 106 in \<open>get_cardano_sign_message\<close>, which the code does not guard, never wraps: the checks
  made before imply that the input is long enough, although the status of \<open>nanocbor_skip\<close> is ignored.
\<close>

section \<open>Outcomes\<close>

text \<open>An outcome that is reached, that is a fault only if \<open>c\<close> holds, and satisfies \<open>P\<close> if it is a return.\<close>

definition outcome :: "bool \<Rightarrow> ('a \<Rightarrow> bool) \<Rightarrow> 'a run \<Rightarrow> bool" where
  "outcome c P r \<longleftrightarrow> r \<noteq> NoFuel \<and> (r = Fault \<longrightarrow> c) \<and> (\<forall>x. r = Ret x \<longrightarrow> P x)"

lemma outcome_bind:
  "outcome c P m \<Longrightarrow> (\<And>x. P x \<Longrightarrow> outcome c Q (f x)) \<Longrightarrow> outcome c Q (run_bind m f)"
  by (cases m) (auto simp: outcome_def)

lemma outcome_check: "outcome c (\<lambda>_. cond) (CHECK2 cond code)"
  by (simp add: outcome_def)

lemma outcome_Ret: "P x \<Longrightarrow> outcome c P (Ret x)"
  by (simp add: outcome_def)

lemma outcome_imp: "outcome c P r \<Longrightarrow> (\<And>x. r = Ret x \<Longrightarrow> P x \<Longrightarrow> Q x) \<Longrightarrow> outcome c Q r"
  by (simp add: outcome_def)

lemma outcome_self: "outcome c P r \<Longrightarrow> outcome c (\<lambda>x. r = Ret x \<and> P x) r"
  by (simp add: outcome_def)

section \<open>Steps of the parser\<close>

text \<open>A context over the whole input that has passed at least \<open>p\<close> bytes.\<close>

definition in_from :: "bytes \<Rightarrow> nat \<Rightarrow> nanocbor_value \<Rightarrow> bool" where
  "in_from data p v \<longleftrightarrow> dec_wf data v \<and> v_end v = length data \<and> p \<le> v_cur v"

lemma in_from_wf: "in_from data p v \<Longrightarrow> dec_wf data v"
  by (simp add: in_from_def)

lemma in_from_later: "in_from data p v \<Longrightarrow> v_end w = v_end v \<Longrightarrow> v_cur v + k \<le> v_cur w \<Longrightarrow> in_from data (p + k) w"
  by (simp add: in_from_def dec_wf_def)

text \<open>The head of a byte string at \<open>i\<close>: its size and the length it announces. A string of \<open>n\<close> bytes is cut
  off if its head is complete and the input ends inside of it.\<close>

definition head_at :: "bytes \<Rightarrow> nat \<Rightarrow> (int \<times> u64) run" where
  "head_at data i = get_arg data \<lparr>v_cur = i, v_end = length data, v_remaining = 0, v_flags = 0\<rparr> 0 NANOCBOR_SIZE_SIZET"

definition cut_off :: "bytes \<Rightarrow> u64 \<Rightarrow> bool" where
  "cut_off data n \<longleftrightarrow> (\<exists>i < length data. \<exists>h \<le> 9. major_type (data ! i) = NANOCBOR_TYPE_BSTR \<and>
     head_at data i = Ret (int h, n) \<and> length data < i + h + unat n)"

lemma get_arg_head_at:
  assumes "v_end v = length data"
  shows "get_arg data v 0 NANOCBOR_SIZE_SIZET = head_at data (v_cur v)"
  unfolding get_arg_def head_at_def nanocbor_value.select_convs assms by (rule refl)

lemma head_at_long: "head_at data i = Ret (int h, n) \<Longrightarrow> 24 \<le> unat n \<Longrightarrow> 2 \<le> h"
proof -
  have "2 \<le> h" if "1 + 2 ^ k = int h" for k using that one_le_power [of "2 :: int" k] by linarith
  then show "head_at data i = Ret (int h, n) \<Longrightarrow> 24 \<le> unat n \<Longrightarrow> 2 \<le> h"
    by (auto simp: head_at_def get_arg_def Let_def store_low32_def word_less_nat_alt unat_ucast_mod split: if_splits)
qed

lemma get_int32_moved:
  assumes wf: "dec_wf data v"
  shows "\<exists>r k v'. nanocbor_get_int32 data v old = Ret (r, k, v') \<and> moved v v' \<and>
    (r > 0 \<longrightarrow> v_cur v < v_cur v' \<and> v_cur v' \<le> v_end v)"
  unfolding nanocbor_get_int32_def by (rule get_int_moved [OF wf size_word_le])

lemma outcome_item:
  assumes "in_from data p v" and "no_wrap data" and "length data < fuel"
  shows "outcome c (\<lambda>(r, v'). r = NANOCBOR_OK \<longrightarrow> in_from data (p + 1) v') (get_item_by_key fuel data v key val u)"
proof -
  have "outcome c (\<lambda>(r, v'). r = NANOCBOR_OK \<longrightarrow> v_end v' = v_end v \<and> v_cur v < v_cur v') (get_item_by_key fuel data v key val u)"
    if "dec_wf data v" "v_end v - v_cur v < fuel" for fuel v
    using that
  proof (induction fuel arbitrary: v)
    case (Suc fuel)
    note wf = Suc.prems(1)
    obtain e where e: "nanocbor_at_end data v = Ret e" "\<not> e \<longrightarrow> v_cur v < v_end v"
      using at_end_Ret [OF wf] by blast
    obtain r k w where w: "nanocbor_get_int32 data v 0 = Ret (r, k, w)" "moved v w"
      "r > 0 \<longrightarrow> v_cur v < v_cur w \<and> v_cur w \<le> v_end v"
      using get_int32_moved [OF wf, of 0] by blast
    consider (stop) "e \<or> r \<le> 0 \<or> k = key" | (go) "\<not> e" "r > 0" "k \<noteq> key" by force
    then show ?case
    proof cases
      case stop
      then show ?thesis using e w by (auto simp: outcome_def moved_def)
    next
      case go
      then have cur: "v_cur v < v_cur w" "v_cur w \<le> v_end v" "v_end w = v_end v" using w by (auto simp: moved_def)
      have "skip_ok data fuel w (nanocbor_skip fuel data w u)"
        unfolding nanocbor_skip_def by (rule skip_correct(1) [OF dec_wf_moved [OF wf w(2)]])
      then obtain s x where x: "nanocbor_skip fuel data w u = Ret (s, x)" "moved w x" "s \<le> 0" "s = 0 \<longrightarrow> v_cur w < v_cur x"
        using assms(2) cur Suc.prems(2) by (auto simp: skip_ok_def)
      have "outcome c (\<lambda>(r, v'). r = NANOCBOR_OK \<longrightarrow> v_end v' = v_end x \<and> v_cur x < v_cur v') (get_item_by_key fuel data x key val u)"
        if "s = 0"
        using that x cur Suc.prems by (intro Suc.IH) (auto simp: moved_def dec_wf_def)
      then show ?thesis using go e w x cur by (auto simp: outcome_def moved_def split: if_splits)
    qed
  qed simp
  moreover have "v_end v - v_cur v < fuel" using assms by (auto simp: in_from_def)
  ultimately have "outcome c (\<lambda>(r, v'). r = NANOCBOR_OK \<longrightarrow> v_end v' = v_end v \<and> v_cur v < v_cur v') (get_item_by_key fuel data v key val u)"
    using in_from_wf [OF assms(1)] by blast
  then show ?thesis by (rule outcome_imp) (use in_from_later [OF assms(1), of _ 1] in auto)
qed

lemma outcome_enter:
  assumes "in_from data p v"
  shows "outcome c (\<lambda>(r, w). r = NANOCBOR_OK \<longrightarrow> in_from data (p + 1) w) (nanocbor_enter_array data v u)"
    and "outcome c (\<lambda>(r, w). r = NANOCBOR_OK \<longrightarrow> in_from data (p + 1) w) (nanocbor_enter_map data v u)"
  using enter_array_Ret [OF in_from_wf [OF assms], of u] enter_map_Ret [OF in_from_wf [OF assms], of u]
    in_from_later [OF assms, of _ 1]
  by (auto simp: outcome_def)

lemma enter_map_from:
  assumes "in_from data p v" and "nanocbor_enter_map data v u = Ret (NANOCBOR_OK, w)" and "q = p + 1"
  shows "in_from data q w"
  using outcome_enter(2) [OF assms(1), of True u] assms(2,3) by (auto simp: outcome_def)

lemma outcome_skip:
  assumes "in_from data p v" and "no_wrap data" and "length data < fuel"
  shows "outcome c (\<lambda>(r, w). in_from data p w) (nanocbor_skip fuel data v u)"
  using skip_total [OF in_from_wf [OF assms(1)] assms(2), of fuel u] assms(3) in_from_later [OF assms(1), of _ 0]
  by (auto simp: outcome_def moved_def)

lemma outcome_type:
  assumes "in_from data p v"
  shows "outcome c (\<lambda>_. True) (nanocbor_get_type data v)"
  using in_from_wf [OF assms] by (cases rule: get_type_Ret) (auto simp: outcome_def)

lemma outcome_int32:
  assumes "in_from data p v"
  shows "outcome c (\<lambda>_. True) (nanocbor_get_int32 data v old)"
  using get_int32_moved [OF in_from_wf [OF assms], of old] by (auto simp: outcome_def)

text \<open>A string that was read lies in the input, behind a head of two bytes or more if it is not a short one. A
  string of the announced length that was not read is cut off.\<close>

definition string_read :: "bytes \<Rightarrow> nat \<Rightarrow> int \<times> nat option \<times> u64 \<times> nanocbor_value \<Rightarrow> bool" where
  "string_read data p x \<longleftrightarrow> (case x of (rc, ptr, len, w) \<Rightarrow>
     (rc = NANOCBOR_OK \<longrightarrow> v_cur w \<le> length data \<and> (24 \<le> unat len \<longrightarrow> in_from data (p + 2 + unat len) w)) \<and>
     (case ptr of Some off \<Rightarrow> off + unat len \<le> length data | None \<Rightarrow> rc \<noteq> NANOCBOR_OK \<and> (len \<noteq> 0 \<longrightarrow> cut_off data len)) \<and>
     in_from data p w)"

lemma string_head:
  assumes "in_from data p v" and eq: "get_uint64 data v 0 NANOCBOR_SIZE_SIZET NANOCBOR_TYPE_BSTR = Ret (int h, n)"
  shows "v_cur v < length data" and "major_type (data ! v_cur v) = NANOCBOR_TYPE_BSTR" and "head_at data (v_cur v) = Ret (int h, n)"
proof -
  have e: "v_end v = length data" using assms(1) by (simp add: in_from_def)
  have "nanocbor_get_type data v = Ret (major_type (data ! v_cur v)) \<and> v_cur v < length data"
    using in_from_wf [OF assms(1)] eq e by (cases rule: get_type_Ret) (auto simp: get_uint64_arg)
  then show "v_cur v < length data" "major_type (data ! v_cur v) = NANOCBOR_TYPE_BSTR" "head_at data (v_cur v) = Ret (int h, n)"
    using eq get_arg_head_at [OF e] by (auto simp: get_uint64_arg split: if_splits)
qed

lemma get_str_cut:
  assumes "in_from data p v" and eq: "get_str data v None NANOCBOR_TYPE_BSTR = Ret (NANOCBOR_ERR_END, ptr, n, w)" and "n \<noteq> 0"
  shows "cut_off data n"
  using in_from_wf [OF assms(1)] order_refl
proof (cases rule: get_uint64_Ret [where old = 0 and type = NANOCBOR_TYPE_BSTR])
  case (err res)
  then show ?thesis using eq assms(3) by (auto simp: get_str_def split: if_splits)
next
  case (ok h x)
  have e: "v_end v = length data" using assms(1) by (simp add: in_from_def)
  let ?avail = "word_of_nat (v_end v - v_cur v) :: u64"
  have x: "x = n" and short: "v_end v < v_cur v \<or> ?avail < n + word_of_int (int h)"
    using eq ok by (auto simp: get_str_def split: if_splits)
  note head = string_head [OF assms(1) ok(1) [unfolded x]]
  have "unat (n + word_of_int (int h)) \<le> unat n + h"
    by (simp add: unat_word_ariths unat_of_nat)
  then have "length data < v_cur v + h + unat n"
    using short e head(1) unat_avail [OF in_from_wf [OF assms(1)]] by (auto simp: word_less_nat_alt)
  then show ?thesis unfolding cut_off_def using head ok(3) by blast
qed

lemma outcome_bstr:
  assumes "in_from data p v" and nw: "no_wrap data"
  shows "outcome c (string_read data p) (nanocbor_get_bstr data v None)"
proof -
  note wf = in_from_wf [OF assms(1)]
  have e: "v_end v = length data" using assms(1) by (simp add: in_from_def)
  obtain rc ptr len w where r: "get_str data v None NANOCBOR_TYPE_BSTR = Ret (rc, ptr, len, w)" "moved v w"
    using get_str_moved [OF wf, of None NANOCBOR_TYPE_BSTR] by blast
  have w: "in_from data p w" using in_from_later [OF assms(1), of w 0] r(2) by (simp add: moved_def)
  have "string_read data p (rc, ptr, len, w)"
    using wf
  proof (cases rule: get_str_Ret [where ptr = None and type = NANOCBOR_TYPE_BSTR])
    case (err l)
    then have "ptr = None" "rc = NANOCBOR_ERR_END" using r(1) by auto
    then show ?thesis using get_str_cut [OF assms(1)] r(1) w by (auto simp: string_read_def)
  next
    case (ok h l)
    then have rc: "rc = NANOCBOR_OK" "ptr = Some (v_cur v + h)" "l = len" using r(1) by auto
    obtain k where k: "ptr = Some (v_cur v + k)" "v_cur v + k + unat len \<le> length data" "v_cur w = v_cur v + k + unat len"
      using get_str_slice [OF wf nw _ r(1) [unfolded rc(1)]] e by auto
    have "2 \<le> h" if "24 \<le> unat len" using head_at_long [OF string_head(3) [OF assms(1) ok(6)]] that rc(3) by simp
    then have "in_from data (p + 2 + unat len) w" if "24 \<le> unat len"
      using in_from_later [OF assms(1), of w "2 + unat len"] r(2) k rc(2) that by (simp add: moved_def add.assoc)
    then show ?thesis using k w by (simp add: string_read_def)
  qed
  then show ?thesis using r by (simp add: outcome_def nanocbor_get_bstr_def)
qed

lemma outcome_copy:
  "(case ptr of Some off \<Rightarrow> off + unat len \<le> length data | None \<Rightarrow> c) \<Longrightarrow> outcome c (\<lambda>_. True) (copy_from data ptr len)"
  by (auto simp: outcome_def copy_from_def split: option.splits)

lemma string_read_ok:
  assumes "string_read data p (NANOCBOR_OK, ptr, n, w)"
  shows "case ptr of Some off \<Rightarrow> off + unat n \<le> length data | None \<Rightarrow> c"
    and "24 \<le> unat n \<Longrightarrow> q = p + 2 + unat n \<Longrightarrow> in_from data q w"
    and "24 \<le> unat n \<Longrightarrow> q = p + 2 + unat n \<Longrightarrow> q \<le> length data"
  using assms by (auto simp: string_read_def in_from_def split: option.splits)

lemma string_read_any:
  assumes "string_read data p (rc, ptr, n, w)"
  shows "n \<noteq> 0 \<Longrightarrow> (cut_off data n \<Longrightarrow> c) \<Longrightarrow> case ptr of Some off \<Rightarrow> off + unat n \<le> length data | None \<Rightarrow> c"
    and "in_from data p w"
  using assms by (auto simp: string_read_def split: option.splits)

section \<open>The extraction\<close>

lemma sign_data_outcome:
  assumes v: "in_from data p v" and nw: "no_wrap data" and fuel: "length data < fuel"
  shows "outcome c (\<lambda>_. p + 103 \<le> length data) (get_sign_data fuel data v u out)"
  unfolding get_sign_data_def
  apply (rule outcome_bind [OF outcome_item [OF v nw fuel]], clarify)
  apply (rule outcome_bind [OF outcome_check])
  apply (rule outcome_bind [OF outcome_enter(1)], erule (1) mp, clarify)
  apply (rule outcome_bind [OF outcome_check])
  apply (rule outcome_bind [OF outcome_enter(1)], erule (1) mp, clarify)
  apply (rule outcome_bind [OF outcome_check])
  apply (rule outcome_bind [OF outcome_bstr [OF _ nw]], erule (1) mp, clarify)
  apply (rule outcome_bind [OF outcome_check])+
  apply (rule outcome_bind [OF outcome_copy], rule string_read_ok(1), simp)
  apply (rule outcome_bind [OF outcome_bstr [where p = "p + 37", OF _ nw]], rule string_read_ok(2), simp, simp, simp, clarify)
  apply (rule outcome_bind [OF outcome_check])+
  apply (rule outcome_bind [OF outcome_copy], rule string_read_ok(1), simp)
  apply (rule outcome_Ret, rule string_read_ok(3) [where p = "p + 37"], simp, simp, simp)
  done

lemma sign_hash_outcome:
  assumes v: "in_from data p v" and nw: "no_wrap data" and fuel: "length data < fuel" and cut: "cut_off data 32 \<Longrightarrow> c"
  shows "outcome c (\<lambda>_. True) (get_ckb_sign_hash fuel data v u out)"
  unfolding get_ckb_sign_hash_def
  apply (rule outcome_bind [OF outcome_item [OF v nw fuel]], clarify)
  apply (rule outcome_bind [OF outcome_check])
  apply (rule outcome_bind [OF outcome_enter(1)], erule (1) mp, clarify)
  apply (rule outcome_bind [OF outcome_check])
  apply (rule outcome_bind [OF outcome_enter(1)], erule (1) mp, clarify)
  apply (rule outcome_bind [OF outcome_check])
  apply (rule outcome_bind [OF outcome_bstr [OF _ nw]], erule (1) mp, clarify)
  apply (rule outcome_bind [OF outcome_check])
  apply (rule outcome_bind [OF outcome_copy], erule string_read_any(1), simp, use cut in simp)
  apply (rule outcome_bind [OF outcome_int32], erule string_read_any(2), clarify)
  apply (rule outcome_bind [OF outcome_check] outcome_Ret TrueI)+
  done

text \<open>Both fields cannot be read from the same place: behind 32 bytes one is an integer, the other a string.\<close>

lemma int32_type: "nanocbor_get_int32 data v old = Ret (r, k, w) \<Longrightarrow> 0 \<le> r \<Longrightarrow> nanocbor_get_type data v \<in> {Ret 0, Ret 1}"
  by (auto simp: nanocbor_get_int32_def get_and_advance_int32_def split: if_splits)

lemma bstr_type: "nanocbor_get_bstr data v ptr = Ret (NANOCBOR_OK, p, n, w) \<Longrightarrow> nanocbor_get_type data v = Ret 2"
  by (auto simp: nanocbor_get_bstr_def get_str_def get_uint64_arg split: if_splits)

lemma fields_differ:
  assumes "get_ckb_sign_hash fuel data v u out = Ret o1"
  shows "get_sign_data fuel data v u o' \<noteq> Ret o2"
proof -
  have "nanocbor_get_bstr data w ptr \<noteq> Ret (NANOCBOR_OK, p, n, x)" if "nanocbor_get_int32 data w old = Ret (r, k, y)" "0 \<le> r"
    for w ptr p n x old r k y
    using int32_type [OF that] bstr_type [of data w ptr p n x] by auto
  then show ?thesis using assms unfolding get_ckb_sign_hash_def get_sign_data_def by auto
qed

text \<open>After a map has been entered, skipping it moves on, or leaves the context as it was (in an empty array).\<close>

lemma enter_map_type:
  assumes "nanocbor_enter_map data v u = Ret (NANOCBOR_OK, w)" and "nanocbor_get_type data v = Ret (major_type (data ! v_cur v))"
  shows "major_type (data ! v_cur v) = NANOCBOR_TYPE_MAP"
proof -
  have "major_type (NANOCBOR_MASK NANOCBOR_TYPE_MAP OR NANOCBOR_SIZE_INDEFINITE) = NANOCBOR_TYPE_MAP"
    by (simp add: major_type_def NANOCBOR_MASK_def)
  then show ?thesis
    using assms major_type_range(1) [of "data ! v_cur v"]
    by (auto simp: nanocbor_enter_map_def enter_container_def Let_def get_uint64_arg split: if_splits)
qed

lemma skip_entered_map:
  assumes v: "in_from data p v" and nw: "no_wrap data" and fuel: "length data < fuel"
    and enter: "nanocbor_enter_map data v u = Ret (NANOCBOR_OK, c)"
  shows "\<exists>r w. nanocbor_skip fuel data v u = Ret (r, w) \<and> (w = v \<or> in_from data (p + 1) w)"
  using in_from_wf [OF v]
proof (cases rule: get_type_Ret)
  case at_end
  then show ?thesis by (simp add: nanocbor_skip_def skip_limited.simps)
next
  case item
  have c: "v_end c = v_end v" "v_cur v < v_cur c" "v_cur c \<le> v_end v"
    using enter_map_Ret [OF in_from_wf [OF v], of u] enter by auto
  have "loop_ok data fuel c (skip_loop fuel data c 9 0 u)"
    using c v by (intro skip_correct(2)) (auto simp: in_from_def dec_wf_def)
  then obtain r w where w: "skip_loop fuel data c 9 0 u = Ret (r, w)" "moved c w"
    using nw fuel c v by (auto simp: loop_ok_def in_from_def)
  have "in_from data (p + 1) (nanocbor_leave_container v w)"
    using leave_moved [of w v] w(2) c by (intro in_from_later [OF v]) (auto simp: moved_def)
  then show ?thesis
    using item enter_map_type [OF enter item(1)] enter w(1) by (simp add: nanocbor_skip_def skip_limited.simps)
qed

lemma sign_message_outcome:
  assumes "unat data_len = length data" and "106 \<le> length data" and "\<not> (blake2b_ok E \<and> length (sign_message out) = 32) \<Longrightarrow> c"
  shows "outcome c (\<lambda>_. True) (get_cardano_sign_message E data data_len out)"
proof (cases "blake2b_ok E \<and> length (sign_message out) = 32")
  case True
  then show ?thesis using sign_message_read [OF assms(1,2)] by (simp add: outcome_def)
next
  case False
  then show ?thesis using assms(3)
    by (auto simp: outcome_def get_cardano_sign_message_def Let_def case_prod_beta run_iffs wr_def)
qed

text \<open>The second half, once the message has been found in the map at \<open>v\<close>.\<close>

lemma witness_outcome:
  assumes v: "in_from data 1 v" and nw: "no_wrap data" and fuel: "length data < fuel"
    and enter: "nanocbor_enter_map data v u = Ret (NANOCBOR_OK, tx)" and hash: "get_ckb_sign_hash fuel data tx u out = Ret o1"
    and skip: "nanocbor_skip fuel data v u = Ret (r, w)" and map: "nanocbor_enter_map data w u = Ret (NANOCBOR_OK, node)"
  shows "outcome c (\<lambda>o2. 106 \<le> length data \<and> sign_message o2 = sign_message o1) (get_sign_data fuel data node u o1)"
proof (cases "w = v")
  case True
  then have "in_from data 2 node" using map by (intro enter_map_from [OF v]) simp_all
  moreover have "get_sign_data fuel data node u o1 \<noteq> Ret o2" for o2
    using True enter map fields_differ [OF hash] by simp
  ultimately show ?thesis using sign_data_outcome [OF _ nw fuel, of 2 node] by (auto simp: outcome_def)
next
  case False
  then have "in_from data 2 w" using skip_entered_map [OF v nw fuel enter] skip by (auto simp: numeral_2_eq_2)
  then have "in_from data 3 node" using map by (rule enter_map_from) simp
  then show ?thesis
    using sign_data_outcome [OF _ nw fuel, of 3 node c u o1] get_sign_data_slices(4) by (auto simp: outcome_def)
qed

lemma tail_outcome:
  assumes v: "in_from data 1 v" and nw: "no_wrap data" and fuel: "length data < fuel" and len: "unat data_len = length data"
    and enter: "nanocbor_enter_map data v u = Ret (NANOCBOR_OK, tx)" and hash: "get_ckb_sign_hash fuel data tx u out = Ret o1"
    and c: "\<not> (blake2b_ok E \<and> length (sign_message out) = 32) \<Longrightarrow> c"
  shows "outcome c (\<lambda>_. True)
    (run_bind (nanocbor_skip fuel data v u) (\<lambda>(_, w).
     run_bind (nanocbor_enter_map data w u) (\<lambda>(r, node).
     run_bind (CHECK2 (r = NANOCBOR_OK) CardanoErr_CBORParse) (\<lambda>_.
     run_bind (get_sign_data fuel data node u o1) (\<lambda>o2. get_cardano_sign_message E data data_len o2)))))"
proof (rule outcome_bind [OF outcome_self [OF outcome_skip [OF v nw fuel]]], clarify)
  fix r w
  assume skip: "nanocbor_skip fuel data v u = Ret (r, w)" "in_from data 1 w"
  show "outcome c (\<lambda>_. True)
    (run_bind (nanocbor_enter_map data w u) (\<lambda>(r, node).
     run_bind (CHECK2 (r = NANOCBOR_OK) CardanoErr_CBORParse) (\<lambda>_.
     run_bind (get_sign_data fuel data node u o1) (\<lambda>o2. get_cardano_sign_message E data data_len o2))))"
  proof (rule outcome_bind [OF outcome_self [OF outcome_enter(2) [OF skip(2)]]], clarify, rule outcome_bind [OF outcome_check])
    fix r' node
    assume "nanocbor_enter_map data w u = Ret (r', node)" "r' = NANOCBOR_OK"
    then have "outcome c (\<lambda>o2. 106 \<le> length data \<and> sign_message o2 = sign_message o1) (get_sign_data fuel data node u o1)"
      using witness_outcome [OF v nw fuel enter hash skip(1)] by simp
    then show "outcome c (\<lambda>_. True) (run_bind (get_sign_data fuel data node u o1) (\<lambda>o2. get_cardano_sign_message E data data_len o2))"
      by (rule outcome_bind, intro sign_message_outcome [OF len])
         (use c get_ckb_sign_hash_slice(2) [OF hash] in auto)
  qed
qed

lemma cardano_data_outcome:
  assumes nw: "no_wrap data" and fuel: "length data < fuel" and len: "unat data_len = length data" "length data < 2 ^ 31"
    and c: "cut_off data 32 \<Longrightarrow> c" "\<not> (blake2b_ok E \<and> length (sign_message out) = 32) \<Longrightarrow> c"
  shows "outcome c (\<lambda>_. True) (get_cardano_data fuel E data data_len u out)"
proof -
  let ?root = "nanocbor_decoder_init \<lparr>v_cur = 0, v_end = 0, v_remaining = 0, v_flags = 0\<rparr> data_len"
  have root: "in_from data 0 ?root"
    using len by (simp add: in_from_def nanocbor_decoder_init_def dec_wf_def)
  show ?thesis
    unfolding get_cardano_data_def Let_def
    apply (rule outcome_bind [OF outcome_type [OF root]])
    apply (rule outcome_bind [OF outcome_check])
    apply (rule outcome_bind [OF outcome_enter(1) [OF root]], clarify)
    apply (rule outcome_bind [OF outcome_check])
    apply (rule outcome_bind [OF outcome_self [OF outcome_enter(2)]], erule (1) mp, clarify)
    apply (rule outcome_bind [OF outcome_check])
    apply (rule outcome_bind [OF outcome_self [OF sign_hash_outcome [OF _ nw fuel c(1)]]], erule (1) mp, assumption, clarify)
    apply (rule tail_outcome [OF _ nw fuel len(1) _ _ c(2)])
    apply simp_all
    done
qed

lemma cardano_key_hash_defined:
  assumes "env_ok E" and "no_wrap sig" and "\<not> cut_off sig 32" and "length sig < 2 ^ 31" and "length sig < fuel"
  shows "well_defined (cardano_key_hash fuel u E sig msg)"
proof -
  let ?out = "\<lparr>ckb_sign_msg = uninit E 32, public_key = uninit E 32, signature = uninit E 64, sign_message = uninit E 32\<rparr>"
  have "unat (word_of_nat (length sig) :: u64) = length sig" using assms(4) by (intro unat_word_of_nat) simp
  moreover have "blake2b_ok E" "length (sign_message ?out) = 32" using assms(1) by (simp_all add: env_ok_def)
  ultimately have "outcome False (\<lambda>_. True) (get_cardano_data fuel E sig (word_of_nat (length sig)) u ?out)"
    using assms(2-5) by (intro cardano_data_outcome) simp_all
  then have "well_defined (get_cardano_data fuel E sig (word_of_nat (length sig)) u ?out)"
    by (simp add: outcome_def well_defined_def)
  then show ?thesis by (auto simp: cardano_key_hash_def intro!: well_defined_bind well_defined_catch)
qed

section \<open>Properties\<close>

text \<open>The extraction ends on every input in which no CBOR string head wraps around; one more
  iteration than the input has bytes is enough for its loops.\<close>

theorem cardano_data_terminates:
  assumes "no_wrap data" and "length data < fuel" and "unat data_len = length data" and "length data < 2 ^ 31"
  shows "get_cardano_data fuel E data data_len u out \<noteq> NoFuel"
  using cardano_data_outcome [OF assms TrueI TrueI, where E = E and out = out and u = u] by (simp add: outcome_def)

theorem cardano_data_terminates_witness:
  "get_cardano_data 4 example_env [0x82, 0xA1, 0x00] 3 empty_value
     \<lparr>ckb_sign_msg = [], public_key = [], signature = [], sign_message = []\<rparr> \<noteq> NoFuel"
  using cardano_data_terminates [of "[0x82, 0xA1, 0x00]" 4 3 example_env empty_value
    "\<lparr>ckb_sign_msg = [], public_key = [], signature = [], sign_message = []\<rparr>"]
  by (simp add: no_wrap_def head_wraps_def)

text \<open>C13: The Cardano path is memory safe and ends on every signature in which no string head wraps around and no
  byte string of 32 bytes is cut off by the end: these two defects are the only ones. In particular the
  unchecked subtraction for the length of the signed message does not wrap, although the status of
  \<open>nanocbor_skip\<close> is ignored and the same map can be entered twice.\<close>

theorem cardano_memory_safe:
  assumes "env_ok E" and "unat sig_len = length sig" and "unat msg_len = length msg" and "length hash = 20"
    and "no_wrap sig" and "\<not> cut_off sig 32" and "length sig < 2 ^ 31" and "length sig < fuel"
  shows "well_defined (ckb_auth_validate fuel u E AuthAlgorithmIdCardano (Some sig) sig_len (Some msg) msg_len hash n)"
proof -
  have "well_defined (verify E hash sig sig_len msg msg_len (validate_signature_cardano fuel u) convert_copy)"
  proof (cases "msg_len = 32")
    case True
    then have msg: "length msg = 32" using assms(3) by simp
    show ?thesis
      unfolding True cardano_scheme.verify_eq [OF assms(1,2) msg assms(4)]
      using cardano_key_hash_defined [OF assms(1,5-8)] by (auto simp: scheme_key_hash_def signed_copy_def intro!: well_defined_bind)
  qed (simp add: cardano_scheme.verify_wrong_length)
  then show ?thesis by (auto simp: ckb_auth_validate_def Let_def intro!: well_defined_bind)
qed

theorem cardano_memory_safe_witness:
  "well_defined (ckb_auth_validate 8 empty_value example_env AuthAlgorithmIdCardano
     (Some [0x82, 0xA1, 0x00, 0x81, 0x82, 0x41, 0x07]) 7 (Some (replicate 32 1)) 32 (replicate 20 0) 20)"
proof (rule cardano_memory_safe [OF example_env_ok])
  let ?sig = "[0x82, 0xA1, 0x00, 0x81, 0x82, 0x41, 0x07] :: bytes"
  show "no_wrap ?sig" by (simp add: no_wrap_def head_wraps_def)
  have other: "major_type (?sig ! i) \<noteq> NANOCBOR_TYPE_BSTR" if "i < 7" "i \<noteq> 5" for i
  proof -
    have "i \<in> {0, 1, 2, 3, 4, 6}" using that by auto
    then show ?thesis by (auto simp: major_type_def)
  qed
  have at: "i = 5" if "i < length ?sig" "major_type (?sig ! i) = NANOCBOR_TYPE_BSTR" for i
  proof (rule ccontr)
    assume "i \<noteq> 5"
    moreover have "i < 7" using that(1) by simp
    ultimately show False using other that(2) by blast
  qed
  have "head_at ?sig 5 = Ret (1, 1)" by code_simp
  then show "\<not> cut_off ?sig 32" unfolding cut_off_def using at by (auto simp del: nth_Cons_numeral)
qed simp_all

end
