(* ===== verification/Spec2Isabelle.thy ===== *)
theory Spec2Isabelle
  imports Keccak_Sponge Nanocbor_Document Secp_Dump Auth_Demo Auth_Wallets Auth_Codes Cardano_Safety
begin

text \<open>
  \<^bold>\<open>ckb-auth\<close>: a formal model of the C code of the repository, with its correctness theorems.

  \<^bold>\<open>The program.\<close> ckb-auth lets a CKB lock script accept signatures made by the wallets of other chains. A
  lock script (the example is examples/auth-demo/auth_demo.c) hashes its transaction, takes the signature
  from its witness, and calls \<open>ckb_auth\<close> of c/ckb_auth.h with an algorithm id and a 20 byte hash of the
  public key. That function reaches \<open>ckb_auth_validate\<close> of c/auth.c in one of two ways: as a dynamic
  library, or by spawning the binary, whose \<open>main\<close> first relocates itself and then decodes its four
  hexadecimal arguments. \<open>ckb_auth_validate\<close> chooses a message converter and a signature validator by
  the algorithm id, or the multisig or the owner lock check. The validators call libsecp256k1 with tables
  that are loaded from a cell dep (c/secp256k1_helper_20210801.h), an Ed25519 library, BLAKE2b, mbedtls, the
  Keccak of c/ckb_keccak256.h, and for Cardano the CBOR parser of c/cardano.

  \<^bold>\<open>How C is modelled.\<close> Machine integers are words of their width, an object (array, struct, string) is the list of its
  bytes or a record, and a pointer into an object is an offset. A function returns an outcome of type
  \<open>run\<close> (\<open>Auth_Prelude\<close>): \<open>Ret\<close> for status 0 with its results, \<open>Err\<close> for an error status, \<open>Exit\<close> for a call of
  \<open>ckb_exit\<close>, \<open>Fault\<close> for an access outside of an object or through a null pointer, and \<open>NoFuel\<close> for a
  loop that has used up its fuel. \<open>well_defined\<close> excludes the last two. All reads and writes go through
  bounds-checked accessors, so memory safety is a statement about the outcome. The content of uninitialised
  memory is a parameter. Arrays of variable length may be empty, as in GNU C.

  \<^bold>\<open>The theories, in the order of their dependence.\<close>

  \<^item> \<open>Auth_Prelude\<close>: machine types, outcomes, accessors, little endian words, and the two collections \<open>run_simps\<close>
    and \<open>buf_simps\<close> that the proofs of the components rest on.

  \<^item> \<open>Ckb_Hex\<close>: c/ckb_hex.h, all functions. Decoding refines the partial function \<open>unhex\<close> and inverts encoding.

  \<^item> \<open>Keccak\<close>, \<open>Keccak_Spec\<close>, \<open>Keccak_Sponge\<close>: c/ckb_keccak256.h, all functions. The permutation is equal to a coordinate
    definition of Keccak-f[1600]; the locale \<open>streaming_hash\<close> is the contract of init, update and final,
    interpreted on the code with the one-shot sponge as the digest, whatever the chunks and their alignment.

  \<^item> \<open>Nanocbor\<close>, \<open>Nanocbor_Decoder\<close>, \<open>Nanocbor_Safety\<close>: nanocbor.h, endian.h and decoder.c in c/cardano/nanocbor, all functions. No
    reader accesses a byte outside of the buffer, and how far each moves is exact: the size of the head for most,
    behind the end only by the containers of indefinite length that are left open; strings are slices right behind their
    heads; \<open>nanocbor_skip\<close> ends unless the length of a string wraps around, and an input of ten bytes
    shows that it then need not.

  \<^item> \<open>Nanocbor_Encoder\<close>, \<open>Nanocbor_Roundtrip\<close>: encoder.c, all functions, with floats as their bit patterns. Any
    sequence of calls, as a step relation, writes only the offered bytes and never changes what is written.
    Round trips with the decoder, and the exactness of a sizing pass with an empty buffer.

  \<^item> \<open>Nanocbor_Item\<close>, \<open>Nanocbor_Document\<close>: whole documents, as trees \<open>cbor\<close> with their encoding \<open>cbor_bytes\<close>: shortest heads, strings of
    definite length, and the head of a tag as an item of its own, for which decoder.c takes it. \<open>nanocbor_skip\<close> goes exactly to the end of an item, or refuses one that is nested deeper than ten
    levels; what the encoder's calls write for a tree is what the decoder skips and returns as one item, up to that
    nesting; and \<open>nanocbor_get_key_tstr\<close> finds the value of a key behind other entries of such values. An array with a
    tagged element is left one item too early.

  \<^item> \<open>Auth_Env\<close>: the code outside of the repository as the record \<open>env\<close> of parameters, with what the code relies on as the
    predicates \<open>loads_ok\<close>, \<open>serialize_ok\<close>, \<open>blake2b_ok\<close>, \<open>md_ok\<close>, \<open>ed_ok\<close> (sizes of results, together
    \<open>env_ok\<close>) and \<open>blake2b_stream\<close> (an update by pieces is an update by the concatenation). \<open>example_env\<close>
    is an executable instance that satisfies them all.

  \<^item> \<open>Secp_Helper\<close>, \<open>Secp_Dump\<close>: the table loader of c/secp256k1_helper_20210801.h with its callbacks, and the tool
    c/dump_secp256k1_data_20210801.c that writes the data file and prints the header. The loader takes the first
    cell dep with the expected hash; compiled with the printed header, which \<open>compiled_with\<close> reads line by line as a compiler
    does, it finds exactly the dumped tables.

  \<^item> \<open>Varint\<close>: \<open>write_varint\<close> and \<open>read_varint_u16\<close> of c/auth.c, with round trip and bounds.

  \<^item> \<open>Cardano_Lock\<close>: c/cardano/cardano_lock_inc.h, all functions. What is extracted are slices of the input and the digest
    of all but its first and last 105 bytes; if these bytes begin as a transaction body (\<open>first_input\<close>), the extracted message is
    the hash in it. A hash that the end of the input cuts off is copied from a null pointer.

  \<^item> \<open>Auth_Convert\<close>: \<open>md_string\<close> and the seven converters of c/auth.c, with the contract \<open>message_converter\<close>.

  \<^item> \<open>Auth_Validate\<close>, \<open>Auth_Schemes\<close>: the key recovery and the validators of c/auth.c, and per scheme the abstract hash of
    the key under which a signature signs a message. For Cardano and Solana, what an accepted structure must contain and
    where, and when the Solana path reads out of bounds. The contracts are the locales \<open>signature_validator\<close>
    and \<open>safe_validator\<close> (which adds that every outcome is defined).

  \<^item> \<open>Auth_Multisig\<close>: \<open>verify_multisig\<close>, sound and complete for quorums of distinct keys.

  \<^item> \<open>Auth_Entry\<close>: \<open>is_lock_script_hash_present\<close>, \<open>verify\<close>, \<open>ckb_auth_validate\<close>. The locales \<open>auth_scheme\<close> and \<open>safe_scheme\<close> join a converter with
    a validator and are interpreted for each algorithm id; the theorems say what is accepted, what is refused
    with which code, and for which algorithms memory safety holds without further hypotheses.

  \<^item> \<open>Auth_Wallets\<close>: the other direction for the two schemes whose messages are parsed: a transaction as a Cardano wallet
    makes it, and a message as a Solana wallet makes it, are read as intended and accepted if their signature
    is; and the two checks that make the Solana path memory safe.

  \<^item> \<open>Cardano_Safety\<close>: the Cardano path on arbitrary input, by a judgement \<open>outcome\<close> that is composed along the steps of the
    parser. It ends unless the length of a string wraps around, and it stays in bounds unless the end of the
    input cuts off a string of 32 bytes.

  \<^item> \<open>Auth_Codes\<close>: which status codes \<open>ckb_auth_validate\<close> can return, by a compositional bound \<open>codes\<close> over all it calls.

  \<^item> \<open>Elf_Reloc\<close>, \<open>Auth_Main\<close>: \<open>main\<close> of c/auth.c: the relocation over a flat memory of bytes, and the arguments.

  \<^item> \<open>Ckb_Auth\<close>: c/ckb_auth.h; the loader of ckb-c-stdlib is the record \<open>loader\<close>, and \<open>spawns\<close> and \<open>links\<close> say that it
    runs the given code. Spawn gives the verdict of \<open>ckb_auth_validate\<close> as a signed byte.

  \<^item> \<open>Auth_Demo\<close>: examples/auth-demo/auth_demo.c and c/always_success.c; the system calls and the molecule readers are the record
    \<open>chain\<close>, and \<open>sees\<close> and \<open>runs_script\<close> say which transaction they show. The signature hash covers every
    witness.

  \<^item> This theory joins these with the validation: the comparison of the two ways of calling (equal up to the status codes of mbedtls
    and the 8 KiB that spawn allows for a signature), and the demo lock script from its transaction to its verdict, which is success exactly for a valid signature.

  \<^bold>\<open>Loops and fuel.\<close> Loops over a known range are structural recursions; the search for the tables has a termination
  proof. The other loops take fuel, and the theorems show that enough fuel gives the result: the CBOR
  loops need the length of the input plus 1 (every iteration consumes a byte), the witness loops more than
  the number of the witnesses and of their bytes, the owner lock more than the number of inputs, and
  the dynamic section of the image more than its entries.

  \<^bold>\<open>Not modelled.\<close> The branches under \<open>CKB_USE_SIM\<close>, which replace the system calls in a native test build. The
  cryptographic libraries, system calls and molecule readers, which are not part of the repository:
  they are parameters. Status codes of \<open>fwrite\<close> and \<open>fprintf\<close>, which the dumper ignores. The stack size and the
  memory limit of the VM. The memory that the start-up code relocates is separate from the objects of the
  rest of the program. deps/mbedtls-config-template.h only holds preprocessor switches. The Rust code
  (bindings, command line tool, tests) is a client of this code.
\<close>

section \<open>Both ways of calling ckb-auth\<close>

lemma as_int8_small:
  assumes "well_defined r" and "\<And>e. r = Err e \<or> r = Exit e \<Longrightarrow> e \<noteq> 0 \<and> - 128 \<le> e \<and> e < 128"
  shows "as_int8 r = (case r of Exit e \<Rightarrow> Err e | x \<Rightarrow> x)"
proof -
  have "sint (word_of_int e :: byte) = e" if "- 128 \<le> e" "e < 128" for e
    using that by (simp add: int_word_sint)
  then show ?thesis using assms by (cases r) (auto simp: as_int8_def)
qed

text \<open>C17: Dynamic linking and spawn compared, for every algorithm, signature, message and key hash on which \<open>ckb_auth_validate\<close>
  is well defined, provided that the statuses of mbedtls fit into a signed byte (every other code that
  \<open>ckb_auth_validate\<close> can return does, and none becomes 0). With spawn a signature of more than 8 KiB is refused with
  \<open>CKB_INVALID_DATA\<close> before anything is verified. Up to that size both give the same status, except that a callback of
  libsecp256k1 ends the caller when linked, and the child when spawned, whose code the caller then returns.\<close>

theorem entry_categories_equal:
  assumes "spawns L spawned (auth_main err fuel u E m)" and "elf_relocate err fuel m = Ret m'"
    and "entry_category spawned = 2" and "links L linked (ckb_auth_validate fuel u E)" and "entry_category linked = 1"
    and "unat n = length sig" and "length msg = 32" and "length (content id') = 20"
    and "mbedtls_codes E \<subseteq> {- 128..<128}"
    and "well_defined (ckb_auth_validate fuel u E (algorithm_id id') (Some sig) n (Some msg) 32 (content id') 20)"
  shows "ckb_auth L E0 spawned id' sig n msg =
    (if 8192 < length sig then Err CKB_INVALID_DATA
     else case ckb_auth L E0 linked id' sig n msg of Exit e \<Rightarrow> Err e | r \<Rightarrow> r)"
proof (cases "8192 < length sig")
  case True
  then have "n > 1024 * 8" using assms(6) by (simp add: word_less_nat_alt)
  then show ?thesis using True assms(3) by (simp add: ckb_auth_def)
next
  case False
  let ?r = "ckb_auth_validate fuel u E (algorithm_id id') (Some sig) n (Some msg) 32 (content id') 20"
  have "ckb_auth L E0 spawned id' sig n msg = as_int8 ?r"
    using False assms(6-8,10) by (intro spawn_validates [OF assms(1-3)]) simp_all
  also have "\<dots> = (case ?r of Exit e \<Rightarrow> Err e | r \<Rightarrow> r)"
    by (rule as_int8_small [OF assms(10) codes_int8 [OF assms(9) codes_auth_validate]])
  finally show ?thesis using False ckb_auth_linked [OF assms(4,5)] by simp
qed

theorem entry_categories_equal_witness:
  "let L = example_loader (example_main example_env) (ckb_auth_validate 1 empty_value example_env);
       i = \<lparr>algorithm_id = 0, content = replicate 20 4\<rparr> in
   ckb_auth L example_env (example_entry 2) i (replicate 65 9) 65 (replicate 32 1) =
     Err CKB_SECP256K1_HELPER_ERROR_ILLEGAL_CALLBACK"
proof -
  let ?v = "ckb_auth_validate 1 empty_value example_env"
  let ?i = "\<lparr>algorithm_id = 0, content = replicate 20 4\<rparr> :: CkbAuthType"
  have r: "?v (algorithm_id ?i) (Some (replicate 65 9)) 65 (Some (replicate 32 1)) 32 (content ?i) 20 =
      Exit CKB_SECP256K1_HELPER_ERROR_ILLEGAL_CALLBACK"
    by code_simp
  have "ckb_auth (example_loader (example_main example_env) ?v) example_env (example_entry 2) ?i (replicate 65 9) 65 (replicate 32 1) =
    (if 8192 < length (replicate 65 (9 :: byte)) then Err CKB_INVALID_DATA
     else case ckb_auth (example_loader (example_main example_env) ?v) example_env (example_entry 1) ?i (replicate 65 9) 65 (replicate 32 1) of
       Exit e \<Rightarrow> Err e | r \<Rightarrow> r)"
    by (rule entry_categories_equal [OF example_spawns example_no_headers _ example_links])
       (simp_all add: example_entry_def example_mbedtls_codes r [simplified])
  then show ?thesis
    unfolding Let_def using ckb_auth_linked [OF example_links, of "example_entry 1"] r by (simp add: example_entry_def)
qed

section \<open>The demo lock script on top of ckb-auth\<close>

lemma demo_spawn_verdict:
  assumes ok: "env_ok E" "blake2b_stream E" and D: "sees D tx_hash W Ws Vs" and lock: "lock_in_batch W"
    and fuel: "enough fuel W Ws Vs" and script: "runs_script D script args" and cat: "args ! 54 = EntryCategorySpawn"
    and sp: "spawns L (demo_entry args) (auth_main err k u E' m)" "elf_relocate err k m = Ret m'"
    and small: "unat (lock_size W) \<le> 8192"
    and r: "r = ckb_auth_validate k u E' (args ! 0) (Some (sub_bytes 20 (unat (lock_size W)) W)) (lock_size W)
      (Some (sighash_all E tx_hash W Ws Vs)) 32 (sub_bytes 1 20 args) 20" "well_defined r"
  shows "demo_main fuel E D L = as_int8 r"
proof -
  let ?n = "unat (lock_size W)"
  let ?sig = "drop 20 (take 32768 W @ drop (min 32768 (length W)) (uninit E 32768))"
  have bl: "blake2b_ok E" using ok(1) by (simp add: env_ok_def)
  have args: "length args = 55" using script by (simp add: runs_script_def)
  have l: "20 + ?n \<le> 32768" "20 + ?n \<le> length W" using lock by (simp_all add: lock_in_batch_def)
  have sig: "take ?n ?sig = sub_bytes 20 ?n W" using l by (simp add: sub_bytes_def drop_take)
  have "ckb_auth L E (demo_entry args) (demo_id args) ?sig (lock_size W) (sighash_all E tx_hash W Ws Vs) = as_int8 r"
  proof (rule spawn_validates [OF sp])
    show "entry_category (demo_entry args) = EntryCategorySpawn" using cat by (simp add: demo_entry_def)
    show "unat (lock_size W) \<le> length ?sig" using l by simp
    show "length (sighash_all E tx_hash W Ws Vs) = 32" using bl by (simp add: sighash_all_def)
    show "length (content (demo_id args)) = 20" using args by (simp add: demo_id_def)
    show "r = ckb_auth_validate k u E' (algorithm_id (demo_id args)) (Some (take ?n ?sig)) (lock_size W)
        (Some (sighash_all E tx_hash W Ws Vs)) 32 (content (demo_id args)) 20"
      unfolding r(1) sig by (simp add: demo_id_def)
  qed (use small r(2) in simp_all)
  then show ?thesis using demo_main_eq [OF ok(2) bl D lock fuel script] by simp
qed

lemma demo_key_hash_verdict:
  assumes ok: "env_ok E" "blake2b_stream E" and D: "sees D tx_hash W Ws Vs" and lock: "lock_in_batch W"
    and fuel: "enough fuel W Ws Vs" and script: "runs_script D script args" and cat: "args ! 54 = 2"
    and ok': "env_ok E'" and sp: "spawns L (demo_entry args) (auth_main err k u E' m)" "elf_relocate err k m = Ret m'"
    and small: "unat (lock_size W) \<le> 8192" and key: "auth_key_hash k u (args ! 0) = Some key"
    and verdict: "verdict = run_bind (key E' (sub_bytes 20 (unat (lock_size W)) W) (sighash_all E tx_hash W Ws Vs))
      (\<lambda>h. CHECK2 (sub_bytes 1 20 args = h) ERROR_MISMATCHED)" "well_defined verdict"
  shows "verdict = ckb_auth_validate k u E' (args ! 0) (Some (sub_bytes 20 (unat (lock_size W)) W)) (lock_size W)
      (Some (sighash_all E tx_hash W Ws Vs)) 32 (sub_bytes 1 20 args) 20" (is "_ = ?v")
    and "demo_main fuel E D L = as_int8 verdict"
proof -
  have "length args = 55" using script by (simp add: runs_script_def)
  moreover have "length (sighash_all E tx_hash W Ws Vs) = 32" using ok(1) by (simp add: sighash_all_def env_ok_def)
  moreover have "20 + unat (lock_size W) \<le> length W" using lock by (simp add: lock_in_batch_def)
  ultimately show v: "verdict = ?v"
    unfolding verdict(1) by (subst validate_key_hash [OF ok' _ _ _ key]) simp_all
  show "demo_main fuel E D L = as_int8 verdict"
    by (rule demo_spawn_verdict [OF ok D lock fuel script cat sp small v verdict(2)])
qed

text \<open>C3: The demo lock script and ckb-auth together: when the script's arguments select spawn and an algorithm that
  compares a key hash, the loader runs the binary of c/auth.c, and the lock field of the first
  witness has at most 8 KiB, the script computes the hash of the key under which the lock field signs
  the signature hash of the transaction, compares it with the 20 bytes in its arguments, and returns that
  verdict as a signed byte. This runs through the hashing of all witnesses, the hexadecimal
  encoding and decoding between the two processes, and the dispatch and validation of the scheme.\<close>

theorem demo_lock_end_to_end:
  assumes "env_ok E" and "blake2b_stream E" and "sees D tx_hash W Ws Vs" and "lock_in_batch W"
    and "enough fuel W Ws Vs" and "runs_script D script args" and "args ! 54 = 2"
    and "env_ok E'" and "spawns L (demo_entry args) (auth_main err k u E' m)" and "elf_relocate err k m = Ret m'"
    and "unat (lock_size W) \<le> 8192" and "auth_key_hash k u (args ! 0) = Some key"
    and "verdict = run_bind (key E' (sub_bytes 20 (unat (lock_size W)) W) (sighash_all E tx_hash W Ws Vs))
      (\<lambda>h. CHECK2 (sub_bytes 1 20 args = h) ERROR_MISMATCHED)" and "well_defined verdict"
  shows "demo_main fuel E D L = as_int8 verdict"
  using assms by (rule demo_key_hash_verdict(2))

definition schnorr_witness :: bytes where
  "schnorr_witness = replicate 16 0 @ [96, 0, 0, 0] @ replicate 96 3"

definition schnorr_args :: "byte \<Rightarrow> bytes" where
  "schnorr_args h = 7 # replicate 20 h @ replicate 32 0 @ [1, 2]"

definition schnorr_chain :: "byte \<Rightarrow> chain" where
  "schnorr_chain h = (example_chain schnorr_witness)\<lparr>load_script := \<lambda>len off. (CKB_SUCCESS, 55, schnorr_args h)\<rparr>"

lemma schnorr_size: "lock_size schnorr_witness = 96"
  by code_simp

lemma schnorr_length: "length schnorr_witness = 116" "length (schnorr_args h) = 55"
  by (simp_all add: schnorr_witness_def schnorr_args_def)

lemma schnorr_sees: "sees (schnorr_chain h) (replicate 32 6) schnorr_witness [] []"
  using example_sees [of schnorr_witness] schnorr_length
  by (simp add: sees_def has_witness_def no_witness_def schnorr_chain_def example_chain_def)

lemma schnorr_lock: "lock_in_batch schnorr_witness" "enough 200 schnorr_witness [] []"
  using schnorr_size schnorr_length by (simp_all add: lock_in_batch_def enough_def)

lemma schnorr_script: "runs_script (schnorr_chain h) (schnorr_args h) (schnorr_args h)" "schnorr_args h ! 54 = 2"
  "sub_bytes 1 20 (schnorr_args h) = replicate 20 h"
  using schnorr_length by (simp_all add: runs_script_def schnorr_chain_def example_chain_def schnorr_args_def sub_bytes_def nth_append)

lemma schnorr_alg: "auth_key_hash 1 empty_value (schnorr_args h ! 0) = Some (scheme_key_hash signed_copy schnorr_key_hash)"
  by (simp add: auth_key_hash_def schnorr_args_def)

lemma schnorr_signer:
  "Ret (replicate 20 3) = scheme_key_hash signed_copy schnorr_key_hash example_env
     (sub_bytes 20 (unat (lock_size schnorr_witness)) schnorr_witness)
     (sighash_all example_env (replicate 32 6) schnorr_witness [] [])"
  by code_simp

lemmas schnorr_setup = example_env_ok example_stream schnorr_sees schnorr_lock schnorr_script(1,2) example_env_ok
  example_spawns example_no_headers

theorem demo_lock_end_to_end_witness:
  "demo_main 200 example_env (schnorr_chain 3) (example_loader (example_main example_env) (\<lambda>_ _ _ _ _ _ _. Err 7)) = Ret ()"
proof -
  have "demo_main 200 example_env (schnorr_chain 3) (example_loader (example_main example_env) (\<lambda>_ _ _ _ _ _ _. Err 7)) = as_int8 (Ret ())"
    by (rule demo_lock_end_to_end [OF schnorr_setup _ schnorr_alg])
       (simp_all add: schnorr_size schnorr_script(3) [simplified] schnorr_signer [unfolded schnorr_size, simplified, symmetric])
  then show ?thesis by (simp add: as_int8_def)
qed

text \<open>C2: The demo lock script unlocks a cell exactly if its lock field signs the transaction: with the arguments, the
  loader and the size of the previous theorem, and provided that the statuses of mbedtls fit into a signed
  byte, it returns success if and only if the key under which the lock field signs the signature
  hash of the transaction, in the form of the selected chain, exists and has the hash in its arguments. No error
  of the validation becomes a success on its way through the exit code.\<close>

theorem demo_lock_accepts_iff:
  assumes "env_ok E" and "blake2b_stream E" and "sees D tx_hash W Ws Vs" and "lock_in_batch W"
    and "enough fuel W Ws Vs" and "runs_script D script args" and "args ! 54 = 2"
    and "env_ok E'" and "spawns L (demo_entry args) (auth_main err k u E' m)" and "elf_relocate err k m = Ret m'"
    and "unat (lock_size W) \<le> 8192" and "auth_key_hash k u (args ! 0) = Some key"
    and "signer = key E' (sub_bytes 20 (unat (lock_size W)) W) (sighash_all E tx_hash W Ws Vs)" and "well_defined signer"
    and "mbedtls_codes E' \<subseteq> {- 128..<128}"
  shows "demo_main fuel E D L = Ret () \<longleftrightarrow> signer = Ret (sub_bytes 1 20 args)"
proof -
  let ?v = "run_bind signer (\<lambda>h. CHECK2 (sub_bytes 1 20 args = h) ERROR_MISMATCHED)"
  have wd: "well_defined ?v" using assms(14) by (auto intro: well_defined_bind)
  note verdict = demo_key_hash_verdict [OF assms(1-12) refl, folded assms(13), OF wd]
  have "codes (all_codes E') callback_codes ?v" unfolding verdict(1) by (rule codes_auth_validate)
  then have "demo_main fuel E D L = (case ?v of Exit e \<Rightarrow> Err e | x \<Rightarrow> x)"
    unfolding verdict(2) by (intro as_int8_small [OF wd] codes_int8 [OF assms(15)])
  also have "\<dots> = Ret () \<longleftrightarrow> ?v = Ret ()" by (cases ?v) simp_all
  finally show ?thesis by auto
qed

theorem demo_lock_accepts_iff_witness:
  "demo_main 200 example_env (schnorr_chain 3) (example_loader (example_main example_env) (\<lambda>_ _ _ _ _ _ _. Err 7)) = Ret () \<and>
   demo_main 200 example_env (schnorr_chain 4) (example_loader (example_main example_env) (\<lambda>_ _ _ _ _ _ _. Err 7)) \<noteq> Ret ()"
proof -
  have "mbedtls_codes example_env \<subseteq> {- 128..<128}" by (simp add: example_mbedtls_codes)
  then have "demo_main 200 example_env (schnorr_chain h) (example_loader (example_main example_env) (\<lambda>_ _ _ _ _ _ _. Err 7)) = Ret () \<longleftrightarrow>
    Ret (replicate 20 3) = Ret (sub_bytes 1 20 (schnorr_args h))" for h
    by (intro demo_lock_accepts_iff [OF schnorr_setup _ schnorr_alg schnorr_signer]) (simp_all add: schnorr_size)
  then show ?thesis unfolding schnorr_script(3) by (simp add: replicate_eq_replicate)
qed

end
